(* ===== verification/Prelude.thy ===== *)
theory Prelude
  imports Main "HOL-Library.Word"
begin

text \<open>
  Shared ground of the development: the C integer types as machine words, the collections of
  simplification rules the component theories fill, the C loop
  \<^verbatim>\<open>for (i = a; i < b; i++) body\<close> as one recursive function with its bounds on words, and
  the facts about 64-bit words (successor without wrap, alignment to a page, the page and the
  offset of an address) that more than one component uses.
\<close>

unbundle bit_operations_syntax

section \<open>Types\<close>

type_synonym u8 = "8 word"
type_synonym u32 = "32 word"
type_synonym u64 = "64 word"

text \<open>
  \<open>frame\<close> collects the facts that an operation leaves a part of the state alone;
  \<open>bitmap_simps\<close> and \<open>field_simps_pte\<close> the laws of the allocation bits and of the bit-fields of
  a page table entry.
\<close>

named_theorems frame "operations that leave a part of the state alone"
named_theorems bitmap_simps "laws of the allocation bitmap"
named_theorems pte_simps "laws of the bit-fields of a page table entry"

section \<open>Word arithmetic without wrap-around\<close>

lemma unat_add1:
  fixes i n :: "'a::len word"
  assumes "i < n"
  shows "unat (i + 1) = Suc (unat i)"
  using assms by unat_arith

lemma word_of_nat_unat_add1:
  fixes i :: "'a::len word"
  shows "word_of_nat (Suc (unat i)) = i + 1"
  by (simp add: add.commute)

lemma unat_add_no_wrap:
  fixes a b :: u64
  assumes "unat a + unat b < 2 ^ 64"
  shows "unat (a + b) = unat a + unat b"
  using assms by (simp add: unat_word_ariths)

lemma unat_mult_no_wrap:
  fixes a b :: u64
  assumes "unat a * unat b < 2 ^ 64"
  shows "unat (a * b) = unat a * unat b"
  using assms by (simp add: unat_word_ariths)

lemma unat_lt_2_64: "unat (a :: u64) < 18446744073709551616"
  by (rule less_le_trans [OF unsigned_less]) simp

section \<open>The C for-loop over an unsigned index\<close>

text \<open>
  \<^verbatim>\<open>for (size_t i = a; i < b; i++) { s = f(i, s); }\<close>: the guard and the increment are those of
  64-bit words. It always stops, because \<open>i < b\<close> keeps \<open>i + 1\<close> from wrapping.
\<close>

function for_words :: "u64 \<Rightarrow> u64 \<Rightarrow> (u64 \<Rightarrow> 's \<Rightarrow> 's) \<Rightarrow> 's \<Rightarrow> 's" where
  "for_words i n f s = (if i < n then for_words (i + 1) n f (f i s) else s)"
  by pat_completeness auto
termination
proof (relation "measure (\<lambda>(i, n, f, s). unat n - unat i)", goal_cases)
  case 1
  show ?case by simp
next
  case (2 i n f s)
  then show ?case
    using unat_add1 [OF 2] by (simp add: word_less_nat_alt)
qed

declare for_words.simps [simp del]

lemma for_words_done: "\<not> i < n \<Longrightarrow> for_words i n f s = s"
  by (subst for_words.simps) simp

lemma for_words_step: "i < n \<Longrightarrow> for_words i n f s = for_words (i + 1) n f (f i s)"
  by (subst for_words.simps) simp

text \<open>Induction along the run of a loop with a given bound and body.\<close>

lemma for_words_run_induct [case_names Done Step]:
  fixes n :: u64 and f :: "u64 \<Rightarrow> 's \<Rightarrow> 's"
  assumes "\<And>i s. \<not> i < n \<Longrightarrow> P i s"
    and "\<And>i s. i < n \<Longrightarrow> P (i + 1) (f i s) \<Longrightarrow> P i s"
  shows "P i s"
proof (induction "unat n - unat i" arbitrary: i s rule: less_induct)
  case less
  show ?case
  proof (cases "i < n")
    case True
    then have "unat n - unat (i + 1) < unat n - unat i"
      using unat_add1 [OF True] by (simp add: word_less_nat_alt)
    with less True assms(2) show ?thesis by blast
  next
    case False
    then show ?thesis by (rule assms(1))
  qed
qed

lemma word_add1_le_iff:
  fixes a i n :: "'a::len word"
  assumes "a < n"
  shows "a + 1 \<le> i \<longleftrightarrow> a \<le> i \<and> i \<noteq> a"
  using unat_add1 [OF assms] by (auto simp: word_le_nat_alt word_unat_eq_iff)

text \<open>The loop is a fold over the indices \<open>a, a + 1, \<dots>, b - 1\<close>, each visited once, in order.\<close>

lemma for_words_fold:
  "for_words i n f s = fold (\<lambda>k. f (word_of_nat k)) [unat i ..< unat n] s"
proof (induction i n f s rule: for_words.induct)
  case (1 i n f s)
  show ?case
  proof (cases "i < n")
    case True
    then have "[unat i ..< unat n] = unat i # [unat (i + 1) ..< unat n]"
      by (simp add: unat_add1 [OF True] word_less_nat_alt upt_conv_Cons)
    with True 1 show ?thesis by (simp add: for_words_step)
  next
    case False
    then show ?thesis by (simp add: for_words_done word_less_nat_alt)
  qed
qed

text \<open>An invariant of the body is an invariant of the loop.\<close>

lemma for_words_invariant:
  assumes "P s" and "\<And>k s. i \<le> k \<Longrightarrow> k < n \<Longrightarrow> P s \<Longrightarrow> P (f k s)"
  shows "P (for_words i n f s)"
  using assms
proof (induction i n f s rule: for_words.induct)
  case (1 i n f s)
  show ?case
  proof (cases "i < n")
    case True
    have "P (for_words (i + 1) n f (f i s))"
    proof (rule "1.IH" [OF True])
      show "P (f i s)" using "1.prems" True by simp
      show "P (f k s')" if "i + 1 \<le> k" "k < n" "P s'" for k s'
      proof (rule "1.prems"(2) [OF _ that(2,3)])
        show "i \<le> k"
          using that(1) unat_add1 [OF True] by (simp add: word_le_nat_alt)
      qed
    qed
    with True show ?thesis by (simp add: for_words_step)
  next
    case False
    with "1.prems"(1) show ?thesis by (simp add: for_words_done)
  qed
qed

text \<open>A view of the state that the body never changes is not changed by the loop.\<close>

lemma for_words_frame:
  assumes "\<And>k s. g (f k s) = g s"
  shows "g (for_words i n f s) = g s"
  by (rule for_words_invariant [where P = "\<lambda>t. g t = g s"]) (simp_all add: assms)

end
