(* ===== verification/Memory.thy ===== *)
theory Memory
  imports Prelude
begin

text \<open>
  The memory the kernel runs in: one byte-addressed store of \<open>2 ^ 64\<close> bytes, with 64-bit
  little-endian loads and stores (AArch64 as the kernel configures it). Page tables, the
  allocation bitmap and the buffers of the string functions all live in this one store, so that
  what aliases in the code aliases in the model.

  The second half is the geometry of 4 KiB pages: the page of an address, the offset in it, and
  the facts that let accesses to different pages, or to different 8-byte slots of one page, be
  told apart.
\<close>

type_synonym memory = "u64 \<Rightarrow> u8"

section \<open>64-bit loads and stores\<close>

definition load64 :: "memory \<Rightarrow> u64 \<Rightarrow> u64" where
  "load64 m a =
     ucast (m a) OR push_bit 8 (ucast (m (a + 1))) OR
     push_bit 16 (ucast (m (a + 2))) OR push_bit 24 (ucast (m (a + 3))) OR
     push_bit 32 (ucast (m (a + 4))) OR push_bit 40 (ucast (m (a + 5))) OR
     push_bit 48 (ucast (m (a + 6))) OR push_bit 56 (ucast (m (a + 7)))"

definition store64 :: "memory \<Rightarrow> u64 \<Rightarrow> u64 \<Rightarrow> memory" where
  "store64 m a v = (\<lambda>x. if x - a < 8 then ucast (drop_bit (8 * unat (x - a)) v) else m x)"

text \<open>A 32-bit load.\<close>

definition load32 :: "memory \<Rightarrow> u64 \<Rightarrow> u32" where
  "load32 m a =
     ucast (m a) OR push_bit 8 (ucast (m (a + 1))) OR
     push_bit 16 (ucast (m (a + 2))) OR push_bit 24 (ucast (m (a + 3)))"

lemma store64_same_byte:
  "k < 8 \<Longrightarrow> store64 m a v (a + k) = ucast (drop_bit (8 * unat k) v)"
  by (simp add: store64_def)

lemma store64_other_byte: "\<not> x - a < 8 \<Longrightarrow> store64 m a v x = m x"
  by (simp add: store64_def)

lemma bytes_of_word64:
  fixes v :: u64
  shows "ucast (ucast v :: u8) OR push_bit 8 (ucast (ucast (drop_bit 8 v) :: u8)) OR
     push_bit 16 (ucast (ucast (drop_bit 16 v) :: u8)) OR
     push_bit 24 (ucast (ucast (drop_bit 24 v) :: u8)) OR
     push_bit 32 (ucast (ucast (drop_bit 32 v) :: u8)) OR
     push_bit 40 (ucast (ucast (drop_bit 40 v) :: u8)) OR
     push_bit 48 (ucast (ucast (drop_bit 48 v) :: u8)) OR
     push_bit 56 (ucast (ucast (drop_bit 56 v) :: u8)) = v"
    (is "?l = v")
proof (rule bit_word_eqI)
  fix n
  assume "n < LENGTH(64)"
  then have "n < 64" by simp
  then consider "n < 8" | "8 \<le> n" "n < 16" | "16 \<le> n" "n < 24" | "24 \<le> n" "n < 32"
    | "32 \<le> n" "n < 40" | "40 \<le> n" "n < 48" | "48 \<le> n" "n < 56" | "56 \<le> n" "n < 64"
    by linarith
  then show "bit ?l n = bit v n"
    by cases (auto simp: bit_simps)
qed

lemma load64_store64_same [simp]: "load64 (store64 m a v) a = v"
  using bytes_of_word64 [of v] store64_same_byte [of 0 m a v]
  by (simp add: load64_def store64_same_byte)

lemma load64_cong:
  assumes "\<And>k. k < 8 \<Longrightarrow> m (a + k) = m' (a + k)"
  shows "load64 m a = load64 m' a"
  using assms [of 0] assms [of 1] assms [of 2] assms [of 3] assms [of 4] assms [of 5]
    assms [of 6] assms [of 7]
  by (simp add: load64_def)

lemma store64_store64_same [simp]: "store64 (store64 m a v) a w = store64 m a w"
  by (rule ext) (simp add: store64_def)

section \<open>Consecutive words\<close>

text \<open>The words \<open>f 0\<close> to \<open>f (n - 1)\<close> stored from the address \<open>b\<close> upwards.\<close>

definition put_words :: "u64 \<Rightarrow> (nat \<Rightarrow> u64) \<Rightarrow> nat \<Rightarrow> memory \<Rightarrow> memory" where
  "put_words b f n m = fold (\<lambda>i m. store64 m (b + 8 * word_of_nat i) (f i)) [0 ..< n] m"

lemma put_words_0 [simp]: "put_words b f 0 m = m"
  by (simp add: put_words_def)

lemma put_words_Suc [simp]:
  "put_words b f (Suc n) m = store64 (put_words b f n m) (b + 8 * word_of_nat n) (f n)"
  by (simp add: put_words_def)

text \<open>The byte \<open>j\<close> of the frame belongs to word \<open>j div 8\<close>; frames of up to \<open>2 ^ 60\<close> words do not wrap.\<close>

lemma unat_slot: "i < 2 ^ 60 \<Longrightarrow> unat (8 * word_of_nat i :: u64) = 8 * i"
proof -
  assume "i < 2 ^ 60"
  moreover have "(8 * word_of_nat i :: u64) = word_of_nat (8 * i)" by simp
  ultimately show ?thesis by (simp only: unat_of_nat take_bit_eq_mod) simp
qed

lemma in_slot:
  fixes x b :: u64
  assumes "i < 2 ^ 60"
  shows "x - (b + 8 * word_of_nat i) < 8 \<longleftrightarrow> unat (x - b) div 8 = i"
proof -
  define d :: u64 where "d = x - b"
  define k :: u64 where "k = 8 * word_of_nat i"
  have k: "unat k = 8 * i" using unat_slot [OF assms] by (simp add: k_def)
  have "unat (d - k) = (if 8 * i \<le> unat d then unat d - 8 * i else unat d + 2 ^ 64 - 8 * i)"
    by (simp add: unat_sub_if_size word_size k)
  then have "d - k < 8 \<longleftrightarrow> unat d div 8 = i"
    using assms by (auto simp: word_less_nat_alt)
  moreover have "x - (b + k) = d - k" by (simp add: d_def)
  ultimately show ?thesis by (simp only: d_def k_def)
qed

lemma put_words_outside:
  assumes "n \<le> 2 ^ 60" and "8 * n \<le> unat (x - b)"
  shows "put_words b f n m x = m x"
  using assms
proof (induction n)
  case (Suc n)
  have "unat (x - b) div 8 \<noteq> n"
    using Suc.prems(2) div_le_mono [of "8 * Suc n" "unat (x - b)" 8] by simp
  then have "\<not> x - (b + 8 * word_of_nat n) < 8" using in_slot [of n x b] Suc.prems(1) by simp
  with Suc show ?case by (simp add: store64_other_byte)
qed simp

lemma load_put_words:
  assumes "n \<le> 2 ^ 60" and "i < n"
  shows "load64 (put_words b f n m) (b + 8 * word_of_nat i) = f i"
  using assms
proof (induction n)
  case (Suc n)
  show ?case
  proof (cases "i = n")
    case False
    have "put_words b f (Suc n) m (b + 8 * word_of_nat i + k) = put_words b f n m (b + 8 * word_of_nat i + k)"
      if "k < 8" for k
    proof -
      have "unat (b + 8 * word_of_nat i + k - b) div 8 = i"
        using that Suc.prems in_slot [of i "b + 8 * word_of_nat i + k" b] by simp
      then have "\<not> b + 8 * word_of_nat i + k - (b + 8 * word_of_nat n) < 8"
        using False Suc.prems(1) in_slot [of n "b + 8 * word_of_nat i + k" b] by simp
      then show ?thesis by (simp add: store64_other_byte)
    qed
    then have "load64 (put_words b f (Suc n) m) (b + 8 * word_of_nat i) =
        load64 (put_words b f n m) (b + 8 * word_of_nat i)"
      by (rule load64_cong)
    then show ?thesis using Suc False by simp
  qed simp
qed simp

section \<open>Pages\<close>

text \<open>The page number of an address and its offset in the page; \<open>4096 = 2 ^ 12\<close> bytes a page.\<close>

definition page_no :: "u64 \<Rightarrow> nat" where
  "page_no a = unat a div 4096"

definition page_off :: "u64 \<Rightarrow> nat" where
  "page_off a = unat a mod 4096"

definition page_aligned :: "u64 \<Rightarrow> bool" where
  "page_aligned a \<longleftrightarrow> a AND 0xFFF = 0"

lemma and_0xFFF: "unat ((a :: u64) AND 0xFFF) = unat a mod 4096"
proof -
  have "a AND 0xFFF = take_bit 12 a"
    by (simp add: take_bit_eq_mask mask_eq_exp_minus_1)
  then show ?thesis
    by (simp add: unsigned_take_bit_eq take_bit_eq_mod [of 12 "unat a"])
qed

lemma page_aligned_iff: "page_aligned a \<longleftrightarrow> page_off a = 0"
  unfolding page_aligned_def page_off_def
  by (metis and_0xFFF unat_eq_zero)

lemma page_aligned_dvd: "page_aligned a \<longleftrightarrow> 4096 dvd unat a"
  by (auto simp: page_aligned_iff page_off_def dvd_eq_mod_eq_0)

lemma page_aligned_0 [simp]: "page_aligned 0"
  by (simp add: page_aligned_def)

lemma page_addr_eqI: "page_no a = page_no b \<Longrightarrow> page_off a = page_off b \<Longrightarrow> a = b"
  unfolding page_no_def page_off_def by (metis div_mult_mod_eq word_unat_eq_iff)

text \<open>Inside an aligned page no address computation wraps.\<close>

lemma unat_page_plus:
  assumes "page_aligned t" and "unat k < 4096"
  shows "unat (t + k) = unat t + unat k"
proof (rule unat_add_no_wrap)
  from assms(1) obtain q where q: "unat t = 4096 * q"
    by (auto simp: page_aligned_dvd)
  moreover have "unat t < 2 ^ 64" using unat_lt_2_64 [of t] by simp
  ultimately have "q < 2 ^ 52" by simp
  then show "unat t + unat k < 2 ^ 64" using assms(2) q by simp
qed

lemma page_no_plus:
  assumes "page_aligned t" and "unat k < 4096"
  shows "page_no (t + k) = page_no t" and "page_off (t + k) = unat k"
proof -
  from assms(1) obtain q where q: "unat t = 4096 * q"
    by (auto simp: page_aligned_dvd)
  show "page_no (t + k) = page_no t"
    using assms(2) by (simp add: page_no_def unat_page_plus [OF assms] q)
  show "page_off (t + k) = unat k"
    using assms(2) by (simp add: page_off_def unat_page_plus [OF assms] q)
qed

text \<open>Rounding down and up to a page boundary.\<close>

lemma unat_page_floor: "unat ((a :: u64) AND NOT 0xFFF) = unat a - unat a mod 4096"
proof -
  have "(a AND 0xFFF) + (a AND NOT 0xFFF) = (a AND 0xFFF) OR (a AND NOT 0xFFF)"
    by (rule disjunctive_add) (auto simp: bit_simps)
  also have "\<dots> = a" by (simp flip: bit.conj_disj_distrib)
  finally have *: "a AND NOT 0xFFF = a - (a AND 0xFFF)" by (simp add: algebra_simps)
  show ?thesis
    unfolding * by (subst unat_sub) (simp_all add: word_le_nat_alt and_0xFFF)
qed

lemma unat_page_ceil:
  fixes a :: u64
  assumes "unat a + 4095 < 2 ^ 64"
  shows "unat ((a + 4095) AND NOT 0xFFF) = (unat a + 4095) div 4096 * 4096"
proof -
  have "unat (a + 4095) = unat a + 4095"
    using assms by (subst unat_add_no_wrap) simp_all
  then have "unat ((a + 4095) AND NOT 0xFFF) = unat a + 4095 - (unat a + 4095) mod 4096"
    by (simp only: unat_page_floor)
  then show ?thesis by (simp only: minus_mod_eq_div_mult)
qed

lemma page_aligned_floor: "page_aligned ((a :: u64) AND NOT 0xFFF)"
  unfolding page_aligned_dvd unat_page_floor by (simp add: minus_mod_eq_div_mult)

section \<open>Stack frames of compiled code\<close>

text \<open>
  The stack lies in the memory of the kernel, and a call of compiled C code writes frames below the
  stack pointer it is entered with: what it leaves there is up to the compiler, an arbitrary
  function of that pointer and the memory that changes at most the \<open>n\<close> bytes below.
\<close>

type_synonym stack_use = "u64 \<Rightarrow> memory \<Rightarrow> memory"

definition frames_within :: "nat \<Rightarrow> stack_use \<Rightarrow> bool" where
  "frames_within n frames \<longleftrightarrow> (\<forall>sp m x. n \<le> unat (sp - 1 - x) \<longrightarrow> frames sp m x = m x)"

lemma frames_within_below:
  assumes "frames_within n frames" and "unat (x - sp) + n < 2 ^ 64"
  shows "frames sp m x = m x"
proof -
  have eq: "sp - 1 - x = - 1 - (x - sp)" by simp
  have "unat (sp - 1 - x) = 2 ^ 64 - 1 - unat (x - sp)"
    unfolding eq by (subst unat_sub) (simp_all add: word_order.extremum unat_eq_nat_uint uint_word_ariths)
  then show ?thesis using assms by (simp add: frames_within_def)
qed

text \<open>A frame of \<open>k\<close> bytes below an address, and the frames of a call below that.\<close>

lemma frames_below:
  fixes top k x :: u64
  assumes "frames_within n frames" and "0 < k" and "unat k + n \<le> unat (top - 1 - x)"
  shows "frames (top - k) m x = m x" and "unat k \<le> unat (x - (top - k))"
proof -
  define e where "e = top - 1 - x"
  have e: "top - k - 1 - x = e - k" "x - (top - k) = (k - 1) - e" and lt: "unat e < 2 ^ 64"
    using unsigned_less [of e, where 'a = nat] by (simp_all add: e_def)
  have ge: "unat k + n \<le> unat e" using assms(3) by (simp add: e_def)
  have "unat (e - k) = unat e - unat k" using ge by (simp add: unat_sub word_le_nat_alt)
  then have "n \<le> unat (top - k - 1 - x)" using ge unfolding e by simp
  then show "frames (top - k) m x = m x" using assms(1) by (simp only: frames_within_def)
  have "unat (k - 1) = unat k - 1" and "0 < unat k"
    using assms(2) by (simp_all add: unat_minus_one unat_gt_0)
  then show "unat k \<le> unat (x - (top - k))"
    unfolding e using ge lt by (auto simp: unat_sub_if_size word_size)
qed

text \<open>One frame of two registers, for the examples.\<close>

definition demo_frames :: stack_use where
  "demo_frames sp m = store64 (store64 m (sp - 16) sp) (sp - 8) 0x40000000"

lemma demo_frames_within: "frames_within 16 demo_frames"
proof -
  have "demo_frames sp m x = m x" if "16 \<le> unat (sp - 1 - x)" for sp m x
  proof -
    define e where "e = sp - 1 - x"
    have x: "x - (sp - 16) = 15 - e" "x - (sp - 8) = 7 - e" by (simp_all add: e_def)
    have "\<not> 15 - e < 8" "\<not> 7 - e < 8"
      using that unsigned_less [of e, where 'a = nat]
      by (simp_all add: e_def [symmetric] word_less_nat_alt unat_sub_if_size word_size)
    then show ?thesis by (simp add: demo_frames_def store64_other_byte x)
  qed
  then show ?thesis by (simp add: frames_within_def)
qed

end
