(* ===== verification/Console.thy ===== *)
theory Console
  imports Memory
begin

text \<open>
  The state of the kernel and its console: \<^verbatim>\<open>src/kernel/drivers/uart.c\<close>,
  \<^verbatim>\<open>src/kernel/utils/kprintf.c\<close> and the two functions of \<^verbatim>\<open>src/kernel/main.c\<close> that join
  them. Every other component prints through \<open>kprintf\<close>; the locale \<open>console_blind\<close> at the end
  says once what printing cannot touch.
\<close>

section \<open>The state of the kernel\<close>

text \<open>
  \<open>fault\<close> names the places where the C code leaves the defined part of the language and the model
  keeps track of it: a variadic read with no argument left (\<open>Missing_vararg\<close>), of an argument of
  another width (\<open>Vararg_width\<close>) or of another kind (\<open>Vararg_kind\<close>), a format string whose end is
  stepped over (\<open>Format_overrun\<close>), signed arithmetic of \<^verbatim>\<open>vprintf\<close> that leaves its type
  (\<open>Int_overflow\<close>), a call through a null function pointer (\<open>Null_call\<close>), a loop that does not
  end (\<open>Diverged\<close>). Loads and stores are total functions of the memory: an access through a
  null pointer or past the end of an object is no fault here, so that an execution without faults
  may still have undefined accesses.

  \<open>va_junk\<close> is the content of the argument slots the caller did not fill, an arbitrary stream:
  what a variadic read that finds no (or a narrower) argument returns on AArch64.
  \<open>mmio_log\<close> is the sequence of 32-bit writes to device registers, oldest first.
\<close>

datatype fault =
    Missing_vararg
  | Vararg_width
  | Vararg_kind
  | Format_overrun
  | Int_overflow
  | Null_call
  | Diverged

datatype dev_putc_ptr = Dev_putc_NULL | Ptr_pl011_putc
datatype dev_getc_ptr = Dev_getc_NULL | Ptr_pl011_getc
datatype con_putc_ptr = Con_putc_NULL | Ptr_uart0_putchar
datatype con_getc_ptr = Con_getc_NULL

record uart_device =
  mmio_base :: u64
  dev_putc :: dev_putc_ptr
  dev_getc :: dev_getc_ptr

record serial =
  con_putc :: con_putc_ptr
  con_getc :: con_getc_ptr

record kernel =
  mem :: memory
  mem_base :: u64
  bitmap :: u64
  total_pages :: u64
  uart0 :: uart_device
  serial_console :: serial
  mmio_log :: "(u64 \<times> u32) list"
  faults :: "fault list"
  va_junk :: "nat \<Rightarrow> u64"

definition add_fault :: "fault \<Rightarrow> kernel \<Rightarrow> kernel" where
  "add_fault f s = s\<lparr>faults := faults s @ [f]\<rparr>"

section \<open>The UART driver\<close>

definition UART_DR :: u64 where
  "UART_DR = 0x00"

definition pl011_putc :: "uart_device \<Rightarrow> char \<Rightarrow> kernel \<Rightarrow> kernel" where
  "pl011_putc dev chr s =
     (let data_reg = mmio_base dev + UART_DR
      in s\<lparr>mmio_log := mmio_log s @ [(data_reg, of_char chr)]\<rparr>)"

definition pl011_init :: "u64 \<Rightarrow> uart_device" where
  "pl011_init base =
     \<lparr>mmio_base = base, dev_putc = Ptr_pl011_putc, dev_getc = Ptr_pl011_getc\<rparr>"

definition uart0_putchar :: "char \<Rightarrow> kernel \<Rightarrow> kernel" where
  "uart0_putchar chr s =
     (case dev_putc (uart0 s) of
        Dev_putc_NULL \<Rightarrow> add_fault Null_call s
      | Ptr_pl011_putc \<Rightarrow> pl011_putc (uart0 s) chr s)"

section \<open>kprintf\<close>

definition set_kprintf_console :: "serial \<Rightarrow> kernel \<Rightarrow> kernel" where
  "set_kprintf_console con s =
     s\<lparr>serial_console := \<lparr>con_putc = con_putc con, con_getc = con_getc con\<rparr>\<rparr>"

text \<open>\<^verbatim>\<open>serial_console.putc(chr)\<close>, a call through the function pointer.\<close>

definition call_putc :: "char \<Rightarrow> kernel \<Rightarrow> kernel" where
  "call_putc chr s =
     (case con_putc (serial_console s) of
        Con_putc_NULL \<Rightarrow> add_fault Null_call s
      | Ptr_uart0_putchar \<Rightarrow> uart0_putchar chr s)"

text \<open>The counter \<^verbatim>\<open>printed\<close> is a 32-bit \<^verbatim>\<open>int\<close>: an addition that leaves its range is undefined.\<close>

definition int_add :: "int \<Rightarrow> int \<Rightarrow> kernel \<Rightarrow> int \<times> kernel" where
  "int_add n k s =
     (if n + k < 2 ^ 31 then (n + k, s) else (n + k - 2 ^ 32, add_fault Int_overflow s))"

text \<open>\<^verbatim>\<open>serial_console.putc(chr); printed++\<close>.\<close>

definition putc_count :: "char \<Rightarrow> int \<Rightarrow> kernel \<Rightarrow> int \<times> kernel" where
  "putc_count chr printed s = int_add printed 1 (call_putc chr s)"

text \<open>\<^verbatim>\<open>for (char *str = buf; *str; str++)\<close> with this body.\<close>

fun puts :: "string \<Rightarrow> int \<Rightarrow> kernel \<Rightarrow> int \<times> kernel" where
  "puts [] printed s = (printed, s)"
| "puts (c # cs) printed s = (let (printed, s) = putc_count c printed s in puts cs printed s)"

subsection \<open>itoa\<close>

text \<open>
  The \<^verbatim>\<open>do ... while\<close> loop writes the digits least significant first. It does not end for
  base 1, so its model returns an option (\<open>None\<close> is not returning); the second loop reverses the
  buffer with two indices. The buffer holds the characters before the terminating NUL.
\<close>

definition digit_char :: "u64 \<Rightarrow> char" where
  "digit_char digit =
     (if digit < 10 then char_of (unat (digit + 48)) else char_of (unat (digit - 10 + 97)))"

partial_function (option) itoa_digits :: "u64 \<Rightarrow> u64 \<Rightarrow> string \<Rightarrow> string option" where
  [code]: "itoa_digits num base buf =
     (let buf' = buf @ [digit_char (num mod base)]; num' = num div base
      in if num' > 0 then itoa_digits num' base buf' else Some buf')"

fun itoa_reverse :: "nat \<Rightarrow> nat \<Rightarrow> string \<Rightarrow> string" where
  "itoa_reverse ptr1 ptr2 buf =
     (if ptr1 < ptr2
      then itoa_reverse (ptr1 + 1) (ptr2 - 1) (buf[ptr1 := buf ! ptr2, ptr2 := buf ! ptr1])
      else buf)"

declare itoa_reverse.simps [simp del]

definition itoa :: "u64 \<Rightarrow> u64 \<Rightarrow> string option" where
  "itoa num base =
     map_option (\<lambda>buf. itoa_reverse 0 (length buf - 1) buf) (itoa_digits num base [])"

subsection \<open>Variadic arguments\<close>

text \<open>
  An argument is what the caller passed: a 64-bit integer, a 32-bit integer, a pointer to data, or
  a string (\<open>None\<close> is the null pointer). \<open>va_arg\<close> reads the next one as a type of its own choice,
  which is undefined if the types are not compatible: a pointer read as an integer of its width
  yields its address in practice, but is a fault all the same.
\<close>

datatype varg = A64 u64 | A32 u32 | APtr u64 | AStr "string option"

definition junk :: "kernel \<Rightarrow> u64 \<times> kernel" where
  "junk s = (va_junk s 0, s\<lparr>va_junk := (\<lambda>n. va_junk s (n + 1))\<rparr>)"

text \<open>\<^verbatim>\<open>va_arg(args, unsigned long)\<close>: the upper half of the slot of a 32-bit argument is
  unspecified.\<close>

fun va_long :: "varg list \<Rightarrow> kernel \<Rightarrow> u64 \<times> varg list \<times> kernel" where
  "va_long [] s = (let (j, s) = junk s in (j, [], add_fault Missing_vararg s))"
| "va_long (A64 v # args) s = (v, args, s)"
| "va_long (A32 v # args) s =
     (let (j, s) = junk s
      in (ucast v OR (j AND NOT (mask 32)), args, add_fault Vararg_width s))"
| "va_long (APtr p # args) s = (p, args, add_fault Vararg_kind s)"
| "va_long (AStr p # args) s = (let (j, s) = junk s in (j, args, add_fault Vararg_kind s))"

text \<open>\<^verbatim>\<open>(char)va_arg(args, int)\<close>.\<close>

fun va_char :: "varg list \<Rightarrow> kernel \<Rightarrow> char \<times> varg list \<times> kernel" where
  "va_char [] s = (let (j, s) = junk s in (char_of (unat j), [], add_fault Missing_vararg s))"
| "va_char (A64 v # args) s = (char_of (unat v), args, add_fault Vararg_width s)"
| "va_char (A32 v # args) s = (char_of (unat v), args, s)"
| "va_char (APtr p # args) s = (char_of (unat p), args, add_fault Vararg_kind s)"
| "va_char (AStr p # args) s =
     (let (j, s) = junk s in (char_of (unat j), args, add_fault Vararg_kind s))"

text \<open>\<^verbatim>\<open>va_arg(args, char *)\<close>, with the null pointer printed as \<^verbatim>\<open>(null)\<close>; what an integer or
  another pointer taken for a string points to is not modelled, only the fault.\<close>

fun va_str :: "varg list \<Rightarrow> kernel \<Rightarrow> string \<times> varg list \<times> kernel" where
  "va_str [] s = ([], [], add_fault Missing_vararg s)"
| "va_str (AStr (Some str) # args) s = (str, args, s)"
| "va_str (AStr None # args) s = (''(null)'', args, s)"
| "va_str (A64 v # args) s = ([], args, add_fault Vararg_kind s)"
| "va_str (A32 v # args) s = ([], args, add_fault Vararg_kind s)"
| "va_str (APtr p # args) s = ([], args, add_fault Vararg_kind s)"

subsection \<open>vprintf\<close>

text \<open>\<^verbatim>\<open>itoa(num, base, buf)\<close> and the loop that prints \<^verbatim>\<open>buf\<close> and counts.\<close>

definition print_num :: "u64 \<Rightarrow> u64 \<Rightarrow> int \<Rightarrow> kernel \<Rightarrow> int \<times> kernel" where
  "print_num num base printed s =
     (case itoa num base of
        None \<Rightarrow> (printed, add_fault Diverged s)
      | Some buf \<Rightarrow> puts buf printed s)"

text \<open>\<^verbatim>\<open>num = -num\<close> for a \<^verbatim>\<open>long\<close>: undefined for the least one.\<close>

definition neg_long :: "u64 \<Rightarrow> kernel \<Rightarrow> u64 \<times> kernel" where
  "neg_long num s = (- num, if num = 0x8000000000000000 then add_fault Int_overflow s else s)"

text \<open>The cases \<^verbatim>\<open>'l'\<close>, \<^verbatim>\<open>'x'\<close> and \<^verbatim>\<open>'p'\<close>: \<open>c\<close> is the character at \<^verbatim>\<open>*ptr\<close> when
  the block is reached.\<close>

definition conv_hex ::
  "char \<Rightarrow> varg list \<Rightarrow> int \<Rightarrow> kernel \<Rightarrow> varg list \<times> int \<times> kernel" where
  "conv_hex c args printed s =
     (let (printed, s) =
            (if c = CHR ''p'' then int_add printed 2 (call_putc CHR ''x'' (call_putc CHR ''0'' s))
             else (printed, s));
          (num, args, s) = va_long args s;
          (printed, s) = print_num num 16 printed s
      in (args, printed, s))"

text \<open>The other cases of the \<^verbatim>\<open>switch\<close>, with \<open>c\<close> the conversion character.\<close>

definition conv ::
  "char \<Rightarrow> varg list \<Rightarrow> int \<Rightarrow> kernel \<Rightarrow> varg list \<times> int \<times> kernel" where
  "conv c args printed s =
     (if c = CHR ''x'' \<or> c = CHR ''p'' then conv_hex c args printed s
      else if c = CHR ''c'' then
        (let (chr, args, s) = va_char args s in (args, putc_count chr printed s))
      else if c = CHR ''s'' then
        (let (str, args, s) = va_str args s in (args, puts str printed s))
      else if c = CHR ''d'' then
        (let (num, args, s) = va_long args s;
             (printed, num, s) =
               (if num <s 0 then
                  (let (printed, s) = putc_count CHR ''-'' printed s in (printed, neg_long num s))
                else (printed, num, s));
             (printed, s) = print_num num 10 printed s
         in (args, printed, s))
      else if c = CHR ''u'' then
        (let (num, args, s) = va_long args s;
             (printed, s) = print_num num 10 printed s
         in (args, printed, s))
      else if c = CHR ''%'' then (args, putc_count CHR ''%'' printed s)
      else (args, int_add printed 2 (call_putc c (call_putc CHR ''%'' s))))"

text \<open>
  The loop over the format, whose end is the terminating NUL. After a final \<^verbatim>\<open>%\<close> or \<^verbatim>\<open>%l\<close>
  the code treats the NUL as the conversion character and then steps over it: the model stops
  there with \<open>Format_overrun\<close>.
\<close>

fun vprintf_loop :: "string \<Rightarrow> varg list \<Rightarrow> int \<Rightarrow> kernel \<Rightarrow> int \<times> kernel" where
  "vprintf_loop [] args printed s = (printed, s)"
| "vprintf_loop (c # ptr) args printed s =
     (if c \<noteq> CHR ''%'' then
        (let (printed, s) =
               (if c = CHR 0x0A then putc_count (CHR 0x0D) printed s else (printed, s));
             (printed, s) = putc_count c printed s
         in vprintf_loop ptr args printed s)
      else
        (case ptr of
           [] \<Rightarrow> (let (args, printed, s) = conv (CHR 0x00) args printed s
                  in (printed, add_fault Format_overrun s))
         | d # ptr \<Rightarrow>
             if d = CHR ''l'' then
               (case ptr of
                  [] \<Rightarrow> (let (args, printed, s) = conv_hex (CHR 0x00) args printed s
                         in (printed, add_fault Format_overrun s))
                | e # ptr \<Rightarrow>
                    (let (args, printed, s) = conv_hex e args printed s
                     in vprintf_loop ptr args printed s))
             else
               (let (args, printed, s) = conv d args printed s
                in vprintf_loop ptr args printed s)))"

definition vprintf :: "string \<Rightarrow> varg list \<Rightarrow> kernel \<Rightarrow> int \<times> kernel" where
  "vprintf format args s =
     (if con_putc (serial_console s) = Con_putc_NULL then (0, s)
      else vprintf_loop format args 0 s)"

definition kprintf :: "string \<Rightarrow> varg list \<Rightarrow> kernel \<Rightarrow> int \<times> kernel" where
  "kprintf format args s = vprintf format args s"

text \<open>A call of \<open>kprintf\<close> whose result the caller drops, as all of them do.\<close>

abbreviation klog :: "string \<Rightarrow> varg list \<Rightarrow> kernel \<Rightarrow> kernel" where
  "klog format args s \<equiv> snd (kprintf format args s)"

end
