(* ===== verification/ConsoleProps.thy ===== *)
theory ConsoleProps
  imports Console
begin

text \<open>
  What the console does: printing changes nothing but the device log, the fault list and the
  argument junk (locale \<open>console_blind\<close>); \<open>itoa\<close> writes the positional numeral in its base and
  never overruns its buffer; and \<open>kprintf\<close> of a format whose conversions match its arguments
  sends exactly the text the pure function \<open>render\<close> describes.
\<close>

section \<open>What printing cannot touch\<close>

locale console_blind =
  fixes view :: "kernel \<Rightarrow> 'v"
  assumes view_log: "view (s\<lparr>mmio_log := l\<rparr>) = view s"
    and view_faults: "view (s\<lparr>faults := fs\<rparr>) = view s"
    and view_junk: "view (s\<lparr>va_junk := j\<rparr>) = view s"
begin

lemma view_add_fault: "view (add_fault f s) = view s"
  by (simp add: add_fault_def view_faults)

lemma view_call_putc: "view (call_putc c s) = view s"
  by (auto simp: call_putc_def uart0_putchar_def pl011_putc_def view_log view_add_fault
      split: con_putc_ptr.splits dev_putc_ptr.splits)

lemma view_int_add: "view (snd (int_add n k s)) = view s"
  by (simp add: int_add_def view_add_fault)

lemma view_putc_count: "view (snd (putc_count c n s)) = view s"
  by (simp add: putc_count_def view_int_add view_call_putc)

lemma view_puts: "view (snd (puts cs n s)) = view s"
  by (induction cs arbitrary: n s) (simp_all add: split_beta view_putc_count)

lemma view_neg_long: "view (snd (neg_long v s)) = view s"
  by (simp add: neg_long_def view_add_fault)

lemma view_va_long: "view (snd (snd (va_long args s))) = view s"
  by (cases "(args, s)" rule: va_long.cases) (simp_all add: junk_def view_add_fault view_junk)

lemma view_va_char: "view (snd (snd (va_char args s))) = view s"
  by (cases "(args, s)" rule: va_char.cases) (simp_all add: junk_def view_add_fault view_junk)

lemma view_va_str: "view (snd (snd (va_str args s))) = view s"
  by (cases "(args, s)" rule: va_str.cases) (simp_all add: view_add_fault)

lemma view_print_num: "view (snd (print_num num base n s)) = view s"
  by (simp add: print_num_def view_add_fault view_puts split: option.split)

lemmas view_emit = view_call_putc view_int_add view_putc_count view_puts view_neg_long
  view_va_long view_va_char view_va_str view_print_num

lemma view_conv_hex: "view (snd (snd (conv_hex c args n s))) = view s"
  by (simp add: conv_hex_def Let_def split_beta view_emit)

lemma view_conv: "view (snd (snd (conv c args n s))) = view s"
  by (simp add: conv_def Let_def split_beta view_emit view_conv_hex)

lemma view_vprintf_loop: "view (snd (vprintf_loop fmt args n s)) = view s"
proof (induction fmt args n s rule: vprintf_loop.induct)
  case (2 c ptr args n s)
  show ?case
  proof (cases "c = CHR ''%''")
    case False
    with "2.IH"(1) [OF _ refl prod.collapse refl prod.collapse] show ?thesis
      by (cases "c = CHR 0x0A") (simp_all add: Let_def split_beta view_emit)
  next
    case percent: True
    show ?thesis
    proof (cases ptr)
      case Nil
      then show ?thesis using percent
        by (simp add: Let_def split_beta view_add_fault view_conv)
    next
      case (Cons d ptr')
      note IH = "2.IH"(2,3) [OF _ Cons]
      show ?thesis
      proof (cases "d = CHR ''l''")
        case False
        with IH(2) [OF _ False refl prod.collapse prod.collapse] percent Cons show ?thesis
          by (simp add: Let_def split_beta view_conv)
      next
        case ell: True
        show ?thesis
        proof (cases ptr')
          case Nil
          with percent Cons ell show ?thesis
            by (simp add: Let_def split_beta view_add_fault view_conv_hex)
        next
          case more: (Cons e ptr'')
          with IH(1) [OF _ ell more refl prod.collapse prod.collapse] percent Cons ell show ?thesis
            by (simp add: Let_def split_beta view_conv_hex)
        qed
      qed
    qed
  qed
qed simp

lemma view_kprintf: "view (snd (kprintf fmt args s)) = view s"
  by (simp add: kprintf_def vprintf_def view_vprintf_loop)

end

interpretation core: console_blind
  "\<lambda>s. (mem s, mem_base s, bitmap s, total_pages s, uart0 s, serial_console s)"
  by unfold_locales simp_all

lemma klog_frame [simp, frame]:
  shows "mem (klog fmt args s) = mem s"
    and "mem_base (klog fmt args s) = mem_base s"
    and "bitmap (klog fmt args s) = bitmap s"
    and "total_pages (klog fmt args s) = total_pages s"
    and "uart0 (klog fmt args s) = uart0 s"
    and "serial_console (klog fmt args s) = serial_console s"
  using core.view_kprintf [of fmt args s] by simp_all

section \<open>itoa writes the positional numeral\<close>

text \<open>The specification: digits \<open>0\<close>--\<open>9\<close>, \<open>a\<close>--\<open>z\<close>, most significant first.\<close>

definition digit_of :: "nat \<Rightarrow> char" where
  "digit_of d = (if d < 10 then char_of (d + 48) else char_of (d - 10 + 97))"

function numeral_in :: "nat \<Rightarrow> nat \<Rightarrow> string" where
  "numeral_in b n =
     (if b < 2 \<or> n < b then [digit_of n] else numeral_in b (n div b) @ [digit_of (n mod b)])"
  by pat_completeness auto
termination
  by (relation "measure snd") auto

declare numeral_in.simps [simp del]

lemma digit_char_of: "unat d < 36 \<Longrightarrow> digit_char d = digit_of (unat d)"
proof -
  assume d: "unat d < 36"
  have "unat (d + 48) = unat d + 48"
    using d by (simp add: unat_word_ariths)
  moreover have "unat (d - 10 + 97) = unat d - 10 + 97" if "\<not> d < 10"
  proof -
    have "unat (d - 10) = unat d - 10"
      using that by (simp add: unat_sub not_less)
    then show ?thesis
      using d by (subst unat_add_no_wrap) simp_all
  qed
  ultimately show ?thesis
    by (simp add: digit_char_def digit_of_def word_less_nat_alt)
qed

lemma itoa_digits_numeral:
  assumes "2 \<le> unat base" and "unat base \<le> 36"
  shows "itoa_digits num base buf = Some (buf @ rev (numeral_in (unat base) (unat num)))"
proof (induction "unat num" arbitrary: num buf rule: less_induct)
  case less
  have "unat (num mod base) < unat base"
    using assms(1) by (simp add: unat_mod)
  with assms(2) have dig: "digit_char (num mod base) = digit_of (unat num mod unat base)"
    by (subst digit_char_of) (simp_all add: unat_mod)
  show ?case
  proof (cases "unat num < unat base")
    case True
    then have "num div base = 0"
      by (simp add: unat_eq_zero [symmetric] unat_div)
    with True dig show ?thesis
      by (subst itoa_digits.simps, subst numeral_in.simps) simp
  next
    case False
    then have pos: "0 < unat num div unat base"
      using assms(1) by (simp add: div_greater_zero_iff)
    then have gt: "num div base > 0"
      by (simp add: word_less_nat_alt unat_div)
    have "unat (num div base) < unat num"
      using assms(1) False by (simp add: unat_div)
    from less [OF this] gt dig False assms(1) show ?thesis
      by (subst itoa_digits.simps, subst numeral_in.simps [of _ "unat num"])
        (simp add: unat_div)
  qed
qed

text \<open>The reversal loop reverses the part of the buffer between its two indices.\<close>

lemma itoa_reverse_mid:
  "mid \<noteq> [] \<Longrightarrow>
   itoa_reverse (length pre) (length pre + length mid - 1) (pre @ mid @ post)
     = pre @ rev mid @ post"
proof (induction "length mid" arbitrary: pre mid post rule: less_induct)
  case less
  obtain x m where mid: "mid = x # m" using less.prems by (cases mid) auto
  show ?case
  proof (cases m rule: rev_cases)
    case Nil
    with mid show ?thesis by (subst itoa_reverse.simps) simp
  next
    case (snoc m' y)
    have swap: "(pre @ mid @ post)[length pre := y, length pre + length m' + 1 := x]
        = (pre @ [y]) @ m' @ (x # post)"
      by (simp add: mid snoc list_update_append)
    have step: "itoa_reverse (length pre) (length pre + length mid - 1) (pre @ mid @ post)
        = itoa_reverse (length pre + 1) (length pre + length m') ((pre @ [y]) @ m' @ (x # post))"
      unfolding swap [symmetric]
      by (subst itoa_reverse.simps) (simp add: mid snoc nth_append)
    show ?thesis
    proof (cases "m' = []")
      case True
      then show ?thesis
        unfolding step by (subst itoa_reverse.simps) (simp add: mid snoc)
    next
      case False
      then show ?thesis
        unfolding step
        using less.hyps [of m' "pre @ [y]" "x # post"] by (simp add: mid snoc)
    qed
  qed
qed

lemma itoa_reverse_all: "buf \<noteq> [] \<Longrightarrow> itoa_reverse 0 (length buf - 1) buf = rev buf"
  using itoa_reverse_mid [of buf "[]" "[]"] by simp

lemma numeral_in_not_Nil [simp]: "numeral_in b n \<noteq> []"
  by (subst numeral_in.simps) simp

lemma itoa_spec:
  "2 \<le> unat base \<Longrightarrow> unat base \<le> 36 \<Longrightarrow>
   itoa num base = Some (numeral_in (unat base) (unat num))"
  using itoa_reverse_all [of "rev (numeral_in (unat base) (unat num))"]
  by (simp add: itoa_def itoa_digits_numeral)

text \<open>
  \<open>itoa\<close> returns for every number in every base from 2 to 36, and the buffer then holds the
  positional numeral of the number in that base.
\<close>

theorem itoa_correct:
  assumes "2 \<le> unat base" and "unat base \<le> 36"
  shows "itoa num base = Some (numeral_in (unat base) (unat num))"
  using assms by (rule itoa_spec)

theorem itoa_correct_witness:
  "(2::nat) \<le> unat (16 :: u64) \<and> unat (16 :: u64) \<le> 36 \<and>
   itoa 48879 16 = Some (numeral_in 16 48879) \<and> numeral_in 16 48879 = ''beef''"
proof -
  have "numeral_in 16 48879 = ''beef''"
    by (simp add: numeral_in.simps digit_of_def char_of_def bit_0)
  then show ?thesis
    using itoa_correct [of 16 48879] by simp
qed

lemma itoa_numeral [simp]:
  shows "itoa num 10 = Some (numeral_in 10 (unat num))"
    and "itoa num 16 = Some (numeral_in 16 (unat num))"
  by (simp_all add: itoa_spec)

lemma length_numeral_in:
  assumes "2 \<le> b"
  shows "n < b ^ Suc k \<Longrightarrow> length (numeral_in b n) \<le> Suc k"
proof (induction k arbitrary: n)
  case 0
  then show ?case by (subst numeral_in.simps) simp
next
  case (Suc k)
  show ?case
  proof (cases "n < b")
    case True
    then show ?thesis by (subst numeral_in.simps) simp
  next
    case False
    have "n div b < b ^ Suc k"
      using Suc.prems by (simp add: less_mult_imp_div_less mult.commute)
    from Suc.IH [OF this] False assms show ?thesis
      by (subst numeral_in.simps) simp
  qed
qed

lemma numeral_fits:
  assumes "n < 18446744073709551616"
  shows "length (numeral_in 10 n) \<le> 20" and "length (numeral_in 16 n) \<le> 16"
  using assms length_numeral_in [of 10 n 19] length_numeral_in [of 16 n 15] by simp_all

text \<open>
  the stack buffer of \<open>vprintf\<close> (64 characters) is large enough for every number in the two
  bases it prints, the terminating NUL included.
\<close>

theorem itoa_fits_buffer:
  assumes "base = 10 \<or> base = 16" and "itoa num base = Some buf"
  shows "length buf + 1 \<le> 21"
  using assms numeral_fits [OF unat_lt_2_64 [of num]] by auto

theorem itoa_fits_buffer_witness:
  "((16::u64) = 10 \<or> (16::u64) = 16) \<and> itoa 0 16 = Some ''0'' \<and> length ''0'' + 1 \<le> (21::nat)"
proof -
  have "numeral_in 16 0 = ''0''"
    by (simp add: numeral_in.simps digit_of_def char_of_def bit_0)
  then have "itoa 0 16 = Some ''0''" by simp
  then show ?thesis using itoa_fits_buffer [of 16 0 "''0''"] by simp
qed

section \<open>kprintf sends the text the format describes\<close>

text \<open>
  \<open>fmt_match fmt args\<close>: every conversion of the format finds an argument of the type it reads,
  \<^verbatim>\<open>%d\<close> not the one \<^verbatim>\<open>long\<close> without a negation, and the format does not end inside a
  conversion. \<open>render\<close> is the text: numbers as numerals (\<^verbatim>\<open>%l\<close> and the character after it
  always stand for hexadecimal), newlines with a carriage return before them, an unknown
  conversion copied. \<open>fmt_ok\<close>: the format matches and the length of the text is an \<^verbatim>\<open>int\<close>.
\<close>

definition is_num_conv :: "char \<Rightarrow> bool" where
  "is_num_conv d \<longleftrightarrow> d \<in> {CHR ''x'', CHR ''p'', CHR ''d'', CHR ''u''}"

fun fmt_match :: "string \<Rightarrow> varg list \<Rightarrow> bool" where
  "fmt_match [] args = True"
| "fmt_match (c # ptr) args =
     (if c \<noteq> CHR ''%'' then fmt_match ptr args
      else case ptr of [] \<Rightarrow> False
      | d # ptr \<Rightarrow>
          if d = CHR ''l'' then
            (case ptr of [] \<Rightarrow> False
             | e # ptr \<Rightarrow> (case args of A64 v # args \<Rightarrow> fmt_match ptr args | _ \<Rightarrow> False))
          else if is_num_conv d then
            (case args of
               A64 v # args \<Rightarrow> (d = CHR ''d'' \<longrightarrow> v \<noteq> 0x8000000000000000) \<and> fmt_match ptr args
             | _ \<Rightarrow> False)
          else if d = CHR ''c'' then
            (case args of A32 v # args \<Rightarrow> fmt_match ptr args | _ \<Rightarrow> False)
          else if d = CHR ''s'' then
            (case args of AStr p # args \<Rightarrow> fmt_match ptr args | _ \<Rightarrow> False)
          else fmt_match ptr args)"

definition hex_text :: "char \<Rightarrow> u64 \<Rightarrow> string" where
  "hex_text c v = (if c = CHR ''p'' then ''0x'' else []) @ numeral_in 16 (unat v)"

definition dec_text :: "char \<Rightarrow> u64 \<Rightarrow> string" where
  "dec_text c v =
     (if c = CHR ''d'' \<and> v <s 0 then CHR ''-'' # numeral_in 10 (unat (- v))
      else numeral_in 10 (unat v))"

definition num_text :: "char \<Rightarrow> u64 \<Rightarrow> string" where
  "num_text c v = (if c = CHR ''x'' \<or> c = CHR ''p'' then hex_text c v else dec_text c v)"

fun render :: "string \<Rightarrow> varg list \<Rightarrow> string" where
  "render [] args = []"
| "render (c # ptr) args =
     (if c \<noteq> CHR ''%'' then (if c = CHR 0x0A then [CHR 0x0D, c] else [c]) @ render ptr args
      else case ptr of [] \<Rightarrow> []
      | d # ptr \<Rightarrow>
          if d = CHR ''l'' then
            (case ptr of [] \<Rightarrow> []
             | e # ptr \<Rightarrow>
                 (case args of A64 v # args \<Rightarrow> hex_text e v @ render ptr args | _ \<Rightarrow> []))
          else if is_num_conv d then
            (case args of A64 v # args \<Rightarrow> num_text d v @ render ptr args | _ \<Rightarrow> [])
          else if d = CHR ''c'' then
            (case args of A32 v # args \<Rightarrow> char_of (unat v) # render ptr args | _ \<Rightarrow> [])
          else if d = CHR ''s'' then
            (case args of AStr p # args \<Rightarrow>
                (case p of None \<Rightarrow> ''(null)'' | Some str \<Rightarrow> str) @ render ptr args
             | _ \<Rightarrow> [])
          else if d = CHR ''%'' then CHR ''%'' # render ptr args
          else CHR ''%'' # d # render ptr args)"

definition fmt_ok :: "string \<Rightarrow> varg list \<Rightarrow> bool" where
  "fmt_ok fmt args \<longleftrightarrow> fmt_match fmt args \<and> int (length (render fmt args)) < 2 ^ 31"

text \<open>The text of a short format with short strings has no such length: a bound to compute.\<close>

fun str_room :: "varg list \<Rightarrow> nat" where
  "str_room [] = 0"
| "str_room (AStr (Some str) # args) = length str + str_room args"
| "str_room (_ # args) = str_room args"

lemma length_num_text: "length (hex_text c v) \<le> 18" "length (num_text c v) \<le> 22"
  using numeral_fits [OF unat_lt_2_64 [of v]] numeral_fits [OF unat_lt_2_64 [of "- v"]]
  by (auto simp: num_text_def hex_text_def dec_text_def)

lemma str_room_Cons: "str_room args \<le> str_room (a # args)"
  by (cases "a # args" rule: str_room.cases) simp_all

lemma length_render: "length (render fmt args) \<le> 22 * length fmt + str_room args"
proof (induction fmt args rule: render.induct)
  case (2 c ptr args)
  show ?case
  proof (cases "c = CHR ''%''")
    case False
    then show ?thesis using "2.IH"(1) by simp
  next
    case percent: True
    show ?thesis
    proof (cases ptr)
      case Nil
      then show ?thesis using percent by simp
    next
      case (Cons d ptr')
      consider "d = CHR ''l''" | "d \<noteq> CHR ''l''" "is_num_conv d"
        | "d \<noteq> CHR ''l''" "\<not> is_num_conv d" "d = CHR ''c''"
        | "d \<noteq> CHR ''l''" "\<not> is_num_conv d" "d \<noteq> CHR ''c''" "d = CHR ''s''"
        | "d \<noteq> CHR ''l''" "\<not> is_num_conv d" "d \<noteq> CHR ''c''" "d \<noteq> CHR ''s''" by blast
      then show ?thesis
      proof cases
        case 1
        then show ?thesis
          using "2.IH"(2) [OF _ Cons 1] percent Cons
            order_trans [OF add_mono [OF length_num_text(1)]]
          by (fastforce split: list.splits varg.splits)
      next
        case 2
        then show ?thesis
          using "2.IH"(3) [OF _ Cons 2] percent Cons
            order_trans [OF add_mono [OF length_num_text(2)]]
          by (fastforce split: list.splits varg.splits)
      next
        case 3
        then show ?thesis
          using "2.IH"(4) [OF _ Cons 3] percent Cons by (fastforce split: list.splits varg.splits)
      next
        case 4
        then show ?thesis
          using "2.IH"(5) [OF _ Cons 4] percent Cons
          by (fastforce split: list.splits varg.splits option.splits)
      next
        case 5
        then show ?thesis using "2.IH"(6,7) [OF _ Cons 5] percent Cons by auto
      qed
    qed
  qed
qed simp

lemma fmt_okI [simp]:
  "fmt_match fmt args \<Longrightarrow> 22 * length fmt + str_room args < 2147483648 \<Longrightarrow> fmt_ok fmt args"
  using length_render [of fmt args] by (simp add: fmt_ok_def)

text \<open>The console as \<open>main\<close> sets it up, and what sending text to it does to the device.\<close>

definition console_up :: "kernel \<Rightarrow> bool" where
  "console_up s \<longleftrightarrow> con_putc (serial_console s) = Ptr_uart0_putchar \<and>
     dev_putc (uart0 s) = Ptr_pl011_putc"

definition send :: "string \<Rightarrow> kernel \<Rightarrow> kernel" where
  "send cs s =
     s\<lparr>mmio_log := mmio_log s @ map (\<lambda>c. (mmio_base (uart0 s) + UART_DR, of_char c)) cs\<rparr>"

lemma console_up_send [simp]: "console_up (send cs s) = console_up s"
  by (simp add: console_up_def send_def)

lemma send_Nil [simp]: "send [] s = s"
  by (simp add: send_def)

lemma send_send [simp]: "send ds (send cs s) = send (cs @ ds) s"
  by (simp add: send_def)

lemma call_putc_send: "console_up s \<Longrightarrow> call_putc c s = send [c] s"
  by (simp add: console_up_def call_putc_def uart0_putchar_def pl011_putc_def send_def)

lemma int_add_ok: "n + k < 2 ^ 31 \<Longrightarrow> int_add n k s = (n + k, s)"
  by (simp add: int_add_def)

lemma putc_count_send:
  "console_up s \<Longrightarrow> n + 1 < 2 ^ 31 \<Longrightarrow> putc_count c n s = (n + 1, send [c] s)"
  by (simp add: putc_count_def int_add_ok call_putc_send)

lemma puts_send:
  "console_up s \<Longrightarrow> n + int (length cs) < 2 ^ 31 \<Longrightarrow> puts cs n s = (n + int (length cs), send cs s)"
  by (induction cs arbitrary: n s) (simp_all add: putc_count_send)

lemma print_num_send:
  assumes "console_up s" and "base = 10 \<or> base = 16"
    and "n + int (length (numeral_in (unat base) (unat v))) < 2 ^ 31"
  shows "print_num v base n s =
    (n + int (length (numeral_in (unat base) (unat v))), send (numeral_in (unat base) (unat v)) s)"
  using assms by (auto simp: print_num_def puts_send)

lemma conv_hex_send:
  "console_up s \<Longrightarrow> n + int (length (hex_text c v)) < 2 ^ 31 \<Longrightarrow> conv_hex c (A64 v # args) n s =
    (args, n + int (length (hex_text c v)), send (hex_text c v) s)"
  by (cases "c = CHR ''p''") (simp_all add: conv_hex_def hex_text_def call_putc_send print_num_send int_add_ok)

lemma conv_num_send:
  assumes "console_up s" and "is_num_conv d" and "d = CHR ''d'' \<longrightarrow> v \<noteq> 0x8000000000000000"
    and "n + int (length (num_text d v)) < 2 ^ 31"
  shows "conv d (A64 v # args) n s =
    (args, n + int (length (num_text d v)), send (num_text d v) s)"
proof -
  consider "d = CHR ''x''" | "d = CHR ''p''" | "d = CHR ''u''" | "d = CHR ''d''" "v <s 0"
    | "d = CHR ''d''" "\<not> v <s 0" using assms(2) by (auto simp: is_num_conv_def)
  then show ?thesis
    using assms(1,3,4)
    by cases (simp_all add: conv_def num_text_def dec_text_def conv_hex_send neg_long_def
        putc_count_send print_num_send)
qed

lemma vprintf_loop_send:
  "console_up s \<Longrightarrow> fmt_match fmt args \<Longrightarrow> n + int (length (render fmt args)) < 2 ^ 31 \<Longrightarrow>
   vprintf_loop fmt args n s = (n + int (length (render fmt args)), send (render fmt args) s)"
proof (induction fmt args n s rule: vprintf_loop.induct)
  case (1 args n s)
  then show ?case by simp
next
  case (2 c ptr args n s)
  show ?case
  proof (cases "c = CHR ''%''")
    case False
    then show ?thesis
      using "2.IH"(1) [OF False refl prod.collapse refl prod.collapse] "2.prems"
      by (cases "c = CHR 0x0A") (simp_all add: putc_count_send)
  next
    case percent: True
    with "2.prems" obtain d ptr' where ptr: "ptr = d # ptr'" by (cases ptr) auto
    show ?thesis
    proof (cases "d = CHR ''l''")
      case True
      with "2.prems" percent ptr obtain e ptr'' v args'
        where "ptr' = e # ptr''" "args = A64 v # args'" and ok: "fmt_match ptr'' args'"
        by (auto split: list.splits varg.splits)
      then show ?thesis
        using "2.IH"(2) "2.prems"(1,3) percent ptr True by (simp add: conv_hex_send)
    next
      case notl: False
      note IH = "2.IH"(3) [OF _ ptr notl _ refl refl]
      consider "is_num_conv d" | "d = CHR ''c''" | "d = CHR ''s''"
        | "\<not> is_num_conv d" "d \<noteq> CHR ''c''" "d \<noteq> CHR ''s''" by blast
      then show ?thesis
      proof cases
        case 1
        with "2.prems" percent ptr notl obtain v args'
          where "args = A64 v # args'" and "fmt_match ptr' args'"
            and "d = CHR ''d'' \<longrightarrow> v \<noteq> 0x8000000000000000"
          by (auto split: list.splits varg.splits)
        then show ?thesis
          using IH "2.prems"(1,3) percent ptr notl 1 by (simp add: conv_num_send)
      next
        case 2
        with "2.prems" percent ptr notl obtain v args'
          where "args = A32 v # args'" and "fmt_match ptr' args'"
          by (auto simp: is_num_conv_def split: list.splits varg.splits)
        then show ?thesis
          using IH "2.prems"(1,3) percent ptr 2
          by (simp add: conv_def is_num_conv_def putc_count_send)
      next
        case 3
        with "2.prems" percent ptr notl obtain p args'
          where "args = AStr p # args'" and "fmt_match ptr' args'"
          by (auto simp: is_num_conv_def split: list.splits varg.splits)
        then show ?thesis
          using IH "2.prems"(1,3) percent ptr 3
          by (cases p) (simp_all add: conv_def is_num_conv_def puts_send del: puts.simps)
      next
        case 4
        define t where "t = (if d = CHR ''%'' then [d] else [CHR ''%'', d])"
        have out: "render (c # ptr) args = t @ render ptr' args"
          using 4 percent ptr notl by (simp add: t_def)
        then have "n + int (length t) < 2 ^ 31" using "2.prems"(3) by simp
        moreover have plain: "d \<noteq> CHR ''x''" "d \<noteq> CHR ''p''" "d \<noteq> CHR ''d''" "d \<noteq> CHR ''u''"
          using 4(1) by (auto simp: is_num_conv_def)
        ultimately have conv: "conv d args n s = (args, n + int (length t), send t s)"
          using 4(2,3) "2.prems"(1)
          by (cases "d = CHR ''%''")
            (simp_all add: t_def conv_def call_putc_send putc_count_send int_add_ok)
        have match: "fmt_match ptr' args" using 4 "2.prems"(2) percent ptr notl by simp
        have "vprintf_loop (c # ptr) args n s = vprintf_loop ptr' args (n + int (length t)) (send t s)"
          using percent ptr notl conv by simp
        also have "\<dots> = (n + int (length t) + int (length (render ptr' args)), send (render ptr' args) (send t s))"
          using IH [OF _ conv [symmetric] _ match] percent out "2.prems"(1,3) by simp
        finally show ?thesis by (simp only: out length_append of_nat_add send_send add.assoc)
      qed
    qed
  qed
qed

lemma kprintf_send:
  "console_up s \<Longrightarrow> fmt_ok fmt args \<Longrightarrow>
   kprintf fmt args s = (int (length (render fmt args)), send (render fmt args) s)"
  by (simp add: kprintf_def vprintf_def vprintf_loop_send console_up_def fmt_ok_def)

lemma klog_send:
  "console_up s \<Longrightarrow> fmt_ok fmt args \<Longrightarrow> klog fmt args s = send (render fmt args) s"
  by (simp add: kprintf_send)

text \<open>
  C21: when the console is set up, the conversions of the format match the arguments in type, no
  \<^verbatim>\<open>%d\<close> gets the least \<^verbatim>\<open>long\<close>, and the text is shorter than \<open>2 ^ 31\<close> characters, \<open>kprintf\<close> sends
  the described text to the data register of the UART, one write a character, returns the number
  of characters sent, and does nothing else; in particular it makes no undefined variadic read and
  no addition or negation in it overflows.
\<close>

theorem kprintf_refines_render:
  assumes "console_up s" and "fmt_ok fmt args"
  shows "kprintf fmt args s = (int (length (render fmt args)), send (render fmt args) s)"
  using assms by (rule kprintf_send)

text \<open>A kernel whose console is set up as \<open>main\<close> does it, for concrete runs.\<close>

definition console_kernel :: kernel where
  "console_kernel =
     \<lparr>mem = (\<lambda>_. 0), mem_base = 0, bitmap = 0, total_pages = 0,
      uart0 = pl011_init 0x09000000,
      serial_console = \<lparr>con_putc = Ptr_uart0_putchar, con_getc = Con_getc_NULL\<rparr>,
      mmio_log = [], faults = [], va_junk = (\<lambda>_. 0)\<rparr>"

lemma console_kernel_up [simp]: "console_up console_kernel"
  by (simp add: console_up_def console_kernel_def pl011_init_def)

theorem kprintf_refines_render_witness:
  "console_up console_kernel \<and> fmt_ok ''n=%u\<newline>'' [A64 7] \<and>
   kprintf ''n=%u\<newline>'' [A64 7] console_kernel = (5, send (''n=7'' @ [CHR 0x0D, CHR 0x0A]) console_kernel)"
proof -
  have ok: "fmt_ok ''n=%u\<newline>'' [A64 7]" by (simp add: is_num_conv_def)
  have "render ''n=%u\<newline>'' [A64 7] = ''n=7'' @ [CHR 0x0D, CHR 0x0A]"
    by (simp add: is_num_conv_def num_text_def dec_text_def numeral_in.simps digit_of_def
        char_of_def bit_0)
  then show ?thesis
    using ok kprintf_refines_render [OF console_kernel_up ok] by simp
qed

text \<open>
  a conversion \<^verbatim>\<open>%l\<close> followed by any character prints the argument in hexadecimal: in
  particular \<^verbatim>\<open>%lu\<close>, which the allocator uses for a byte count, does not print a decimal.
\<close>

theorem kprintf_lu_prints_hex:
  assumes "console_up s"
  shows "kprintf ''%lu'' [A64 v] s =
    (int (length (numeral_in 16 (unat v))), send (numeral_in 16 (unat v)) s)"
  using kprintf_send [OF assms, of "''%lu''" "[A64 v]"] by (simp add: hex_text_def)

theorem kprintf_lu_prints_hex_witness:
  "console_up console_kernel \<and>
   kprintf ''%lu'' [A64 26] console_kernel = (2, send ''1a'' console_kernel)"
proof -
  have "numeral_in 16 26 = ''1a''"
    by (simp add: numeral_in.simps digit_of_def char_of_def bit_0)
  then show ?thesis using kprintf_lu_prints_hex [OF console_kernel_up, of 26] by simp
qed

end
