(* ===== verification/PageAllocator.thy ===== *)
theory PageAllocator
  imports ConsoleProps "HOL-Library.Signed_Division"
begin

text \<open>
  The physical page allocator, \<^verbatim>\<open>src/kernel/allocator/page_allocator.c\<close>: a bitmap with one bit a
  4 KiB page, first-fit search. Its three static variables are fields of \<open>kernel\<close>; the bitmap
  itself is bytes of \<open>mem\<close>, at the address the linker script gives. This theory is the model;
  \<open>BitmapProps\<close> and \<open>AllocatorProps\<close> hold what is proved about it.
\<close>

text \<open>The symbols of the linker script that the C code reads
  (\<^verbatim>\<open>src/include/linker/symblos.h\<close>).\<close>

record linker =
  page_allocator_bit_map_start :: u64
  page_allocator_bit_map_end :: u64
  image_start :: u64
  image_end :: u64

definition PAGE_SIZE :: u64 where
  "PAGE_SIZE = 4096"

text \<open>
  \<^verbatim>\<open>((uint8_t *)ptr - mem_base) / PAGE_SIZE\<close>: a difference of pointers is a signed 64-bit
  integer, and C division truncates towards zero; the quotient is stored in a \<^verbatim>\<open>size_t\<close>.
\<close>

definition page_index :: "u64 \<Rightarrow> u64 \<Rightarrow> u64" where
  "page_index ptr base = word_of_int (sint (ptr - base) sdiv 4096)"

section \<open>Single bits of the bitmap\<close>

text \<open>\<^verbatim>\<open>bitmap[i / 8] & (1 << (i % 8))\<close>, as the \<^verbatim>\<open>uint8_t\<close> it is stored in.\<close>

definition bm_byte :: "u64 \<Rightarrow> kernel \<Rightarrow> u8" where
  "bm_byte i s = mem s (bitmap s + i div 8)"

definition is_used :: "u64 \<Rightarrow> kernel \<Rightarrow> u8" where
  "is_used i s = bm_byte i s AND push_bit (unat (i mod 8)) 1"

text \<open>\<^verbatim>\<open>bitmap[i / 8] |= (1 << (i % 8))\<close> and \<^verbatim>\<open>bitmap[i / 8] &= ~(1 << (i % 8))\<close>.\<close>

definition bm_set :: "u64 \<Rightarrow> kernel \<Rightarrow> kernel" where
  "bm_set i s =
     s\<lparr>mem := (mem s)(bitmap s + i div 8 := bm_byte i s OR push_bit (unat (i mod 8)) 1)\<rparr>"

definition bm_clear :: "u64 \<Rightarrow> kernel \<Rightarrow> kernel" where
  "bm_clear i s =
     s\<lparr>mem := (mem s)(bitmap s + i div 8 := bm_byte i s AND NOT (push_bit (unat (i mod 8)) 1))\<rparr>"

text \<open>\<^verbatim>\<open>bitmap[i] = 0\<close>.\<close>

definition bm_zero_byte :: "u64 \<Rightarrow> kernel \<Rightarrow> kernel" where
  "bm_zero_byte i s = s\<lparr>mem := (mem s)(bitmap s + i := 0)\<rparr>"

section \<open>Initialisation\<close>

definition page_init :: "linker \<Rightarrow> u64 \<Rightarrow> u64 \<Rightarrow> kernel \<Rightarrow> bool \<times> kernel" where
  "page_init lk mem_start mem_size s =
     (let s = klog ''PAGE: Initializing allocator at %p (size: %u bytes)\<newline>''
                [APtr mem_start, A64 mem_size] s;
          start_addr = mem_start;
          aligned_start = (start_addr + (PAGE_SIZE - 1)) AND NOT (PAGE_SIZE - 1);
          s = (if aligned_start \<noteq> start_addr
               then klog ''PAGE: Aligned start to 0x%lx (offset: %lu bytes)\<newline>''
                      [A64 aligned_start, A64 (aligned_start - start_addr)] s
               else s);
          alignment_shift = aligned_start - start_addr
      in if alignment_shift \<ge> mem_size then
           (False, klog ''PAGE ERROR: Alignment shift (%lx bytes) exceeds total memory size (%lx bytes)\<newline>''
                     [A64 alignment_shift, A64 mem_size] s)
         else
           let mem_size = mem_size - alignment_shift;
               s = s\<lparr>mem_base := aligned_start\<rparr>;
               s = s\<lparr>total_pages := mem_size div PAGE_SIZE\<rparr>;
               bitmap_size_bytes = (total_pages s + 7) div 8;
               bitmap_start_addr = page_allocator_bit_map_start lk;
               bitmap_end_addr = page_allocator_bit_map_end lk;
               bitmap_size = bitmap_end_addr - bitmap_start_addr
           in if bitmap_size_bytes > bitmap_size then
                (False, klog ''PAGE ERROR: Bitmap size (%u bytes) exceeds available bitmap memory (%u bytes)\<newline>''
                          [A64 bitmap_size_bytes, A64 bitmap_size] s)
              else
                let s = klog ''PAGE: Total pages: %u, Bitmap requires: %u bytes (%u pages)\<newline>''
                          [A64 (total_pages s), A64 bitmap_size_bytes] s;
                    s = klog ''PAGE: Bit map starts at %lx and ends at %lx\<newline>''
                          [A64 bitmap_start_addr, A64 bitmap_end_addr] s;
                    s = s\<lparr>bitmap := page_allocator_bit_map_start lk\<rparr>;
                    s = for_words 0 bitmap_size_bytes bm_zero_byte s;
                    s = klog ''PAGE: Usable memory starts at 0x%lx\<newline>'' [A64 (mem_base s)] s
                in (True, s))"

section \<open>Reservation\<close>

definition reserve_page :: "u64 \<Rightarrow> u64 \<Rightarrow> kernel \<Rightarrow> bool \<times> kernel" where
  "reserve_page ptr num_pages s =
     (if ptr = 0 \<or> mem_base s = 0 \<or> total_pages s = 0 \<or> bitmap s = 0 then (False, s)
      else
        let start_addr = ptr;
            end_addr = start_addr + num_pages * PAGE_SIZE;
            mem_start = mem_base s;
            mem_end = mem_start + total_pages s * PAGE_SIZE
        in if start_addr < mem_start \<or> end_addr > mem_end then
             (False, klog ''PAGE ERROR: Attempted to reserve out-of-bounds range %p - %p\<newline>''
                       [APtr ptr, A64 end_addr] s)
           else
             let start_index = page_index ptr (mem_base s);
                 s = for_words 0 num_pages (\<lambda>i s. bm_set (start_index + i) s) s;
                 s = klog ''PAGE: Reserved %u pages at %p (index %u)\<newline>''
                       [A64 num_pages, APtr ptr, A64 start_index] s
             in (True, s))"

section \<open>Allocation\<close>

text \<open>\<^verbatim>\<open>for (size_t j = start_index; j < start_index + num_pages; j++)\<close>, marking pages as used.\<close>

definition mark_used :: "u64 \<Rightarrow> u64 \<Rightarrow> kernel \<Rightarrow> kernel" where
  "mark_used start_index num_pages s =
     for_words start_index (start_index + num_pages) bm_set s"

text \<open>The search loop, with its three variables \<^verbatim>\<open>i\<close>, \<^verbatim>\<open>continuous_found\<close> and
  \<^verbatim>\<open>start_index\<close>; the value 0 is \<^verbatim>\<open>NULL\<close>.\<close>

function page_alloc_loop :: "u64 \<Rightarrow> u64 \<Rightarrow> u64 \<Rightarrow> u64 \<Rightarrow> kernel \<Rightarrow> u64 \<times> kernel" where
  "page_alloc_loop num_pages i continuous_found start_index s =
     (if i < total_pages s then
        (if is_used i s = 0 then
           (let start_index = (if continuous_found = 0 then i else start_index);
                continuous_found = continuous_found + 1
            in if continuous_found = num_pages then
                 (let s = mark_used start_index num_pages s;
                      ptr = mem_base s + start_index * PAGE_SIZE;
                      s = klog ''PAGE: Allocated %u pages at %p\<newline>'' [A64 num_pages, APtr ptr] s
                  in (ptr, s))
               else page_alloc_loop num_pages (i + 1) continuous_found start_index s)
         else page_alloc_loop num_pages (i + 1) 0 start_index s)
      else
        (0, klog ''PAGE: Allocation failed. No contiguous block of %u pages found.\<newline>''
              [A64 num_pages] s))"
  by pat_completeness auto
termination
proof (relation "measure (\<lambda>(n, i, c, k, s). unat (total_pages s) - unat i)", goal_cases)
  case 1
  show ?case by simp
next
  case (2 n i c k s)
  then show ?case using unat_add1 [OF 2(1)] by (simp add: word_less_nat_alt)
next
  case (3 n i c k s)
  then show ?case using unat_add1 [OF 3(1)] by (simp add: word_less_nat_alt)
qed

declare page_alloc_loop.simps [simp del]

definition page_alloc :: "u64 \<Rightarrow> kernel \<Rightarrow> u64 \<times> kernel" where
  "page_alloc num_pages s =
     (if num_pages = 0 then (0, s)
      else if num_pages > total_pages s then
        (0, klog ''PAGE: Allocation failed. Request (%u) exceeds total capacity (%u)\<newline>''
              [A64 num_pages, A64 (total_pages s)] s)
      else page_alloc_loop num_pages 0 0 0 s)"

section \<open>Release\<close>

definition page_free :: "u64 \<Rightarrow> u64 \<Rightarrow> kernel \<Rightarrow> kernel" where
  "page_free ptr num_pages s =
     (if ptr = 0 then s
      else if ptr < mem_base s \<or> ptr \<ge> mem_base s + total_pages s * PAGE_SIZE then
        klog ''PAGE ERROR: Attempted to free out-of-bounds pointer %p\<newline>'' [APtr ptr] s
      else
        let start_index = page_index ptr (mem_base s);
            (num_pages, s) =
              (if start_index + num_pages > total_pages s then
                 (total_pages s - start_index,
                  klog ''PAGE WARNING: Free range out of bounds. Truncating %u to %u pages\<newline>''
                    [A64 num_pages, A64 (total_pages s - start_index)] s)
               else (num_pages, s));
            s = klog ''PAGE: Freeing %u pages at %p\<newline>'' [A64 num_pages, APtr ptr] s
        in for_words start_index (start_index + num_pages) bm_clear s)"

section \<open>Status dump\<close>

text \<open>
  \<^verbatim>\<open>for (size_t i = 1; i <= total_pages; i++)\<close> over the tracker \<^verbatim>\<open>start_idx\<close>,
  \<^verbatim>\<open>current_status\<close>. The loop would not end for \<open>2 ^ 64 - 1\<close> pages, so the model has an option
  result.
\<close>

definition page_status :: "u64 \<Rightarrow> kernel \<Rightarrow> u8" where
  "page_status i s = (if is_used i s \<noteq> 0 then 1 else 0)"

partial_function (option) page_dump_loop ::
  "u64 \<Rightarrow> u64 \<Rightarrow> u8 \<Rightarrow> kernel \<Rightarrow> kernel option" where
  [code]: "page_dump_loop i start_idx current_status s =
     (if i \<le> total_pages s then
        (let status = (if i < total_pages s then page_status i s else 0)
         in if status \<noteq> current_status \<or> i = total_pages s then
              (let block_start = mem_base s + start_idx * PAGE_SIZE;
                   block_end = mem_base s + i * PAGE_SIZE;
                   block_size_pages = i - start_idx;
                   s = klog ''  [0x%lx - 0x%lx] %s (%u pages)\<newline>''
                         [A64 block_start, A64 (block_end - 1),
                          AStr (Some (if current_status \<noteq> 0 then ''USED'' else ''FREE'')),
                          A64 block_size_pages] s
               in page_dump_loop (i + 1) i status s)
            else page_dump_loop (i + 1) start_idx current_status s)
      else Some s)"

definition page_dump_status :: "kernel \<Rightarrow> kernel option" where
  "page_dump_status s =
     (if total_pages s = 0 then Some (klog ''Page Allocator: Not initialized\<newline>'' [] s)
      else
        let s = klog ''--- Physical Page Dump ---\<newline>'' [] s;
            s = klog ''Managed Range: 0x%lx - 0x%lx (%u pages)\<newline>''
                  [A64 (mem_base s), A64 (mem_base s + total_pages s * PAGE_SIZE),
                   A64 (total_pages s)] s;
            start_idx = 0;
            current_status = page_status 0 s
        in map_option (klog ''--- End of Dump ---\<newline>'' [])
             (page_dump_loop 1 start_idx current_status s))"

end
