(* ===== verification/BitmapProps.thy ===== *)
theory BitmapProps
  imports PageAllocator
begin

text \<open>
  The allocation bitmap as a set of page numbers. The locale \<open>bit_store\<close> is the interface the
  loops of the allocator need: a test, a set and a clear of single bits. It is interpreted on
  the byte operations of the code.
\<close>

section \<open>The interface: single bits, and loops over them\<close>

locale bit_store =
  fixes test :: "u64 \<Rightarrow> 's \<Rightarrow> bool"
    and put :: "u64 \<Rightarrow> 's \<Rightarrow> 's"
    and clr :: "u64 \<Rightarrow> 's \<Rightarrow> 's"
  assumes test_put: "test i (put j s) \<longleftrightarrow> i = j \<or> test i s"
    and test_clr: "test i (clr j s) \<longleftrightarrow> i \<noteq> j \<and> test i s"
begin

lemma test_put_range: "test i (for_words a b put s) \<longleftrightarrow> (a \<le> i \<and> i < b) \<or> test i s"
proof (induction a s rule: for_words_run_induct [where n = b and f = put])
  case (Done a s)
  then show ?case by (auto simp: for_words_done)
next
  case (Step a s)
  then show ?case by (auto simp: for_words_step test_put word_add1_le_iff)
qed

lemma test_clr_range: "test i (for_words a b clr s) \<longleftrightarrow> \<not> (a \<le> i \<and> i < b) \<and> test i s"
proof (induction a s rule: for_words_run_induct [where n = b and f = clr])
  case (Done a s)
  then show ?case by (auto simp: for_words_done)
next
  case (Step a s)
  then show ?case by (auto simp: for_words_step test_clr word_add1_le_iff)
qed

text \<open>The loop of \<open>reserve_page\<close> counts from 0 and adds the start to each index.\<close>

lemma test_put_offsets:
  "test i (for_words a n (\<lambda>j. put (k + j)) s) \<longleftrightarrow> (\<exists>j. a \<le> j \<and> j < n \<and> i = k + j) \<or> test i s"
proof (induction a s rule: for_words_run_induct [where n = n and f = "\<lambda>j. put (k + j)"])
  case (Done a s)
  then show ?case by (auto simp: for_words_done)
next
  case (Step a s)
  have "(\<exists>j. a \<le> j \<and> j < n \<and> i = k + j) \<longleftrightarrow>
      i = k + a \<or> (\<exists>j. a + 1 \<le> j \<and> j < n \<and> i = k + j)"
    using Step(1) by (auto simp: word_add1_le_iff)
  with Step show ?case by (auto simp: for_words_step test_put)
qed

end

section \<open>The byte operations are such a store\<close>

lemma is_used_bit: "is_used i s \<noteq> 0 \<longleftrightarrow> bit (bm_byte i s) (unat (i mod 8))"
  by (simp add: is_used_def and_exp_eq_0_iff_not_bit)

lemma unat_mod8_less: "unat ((i :: u64) mod 8) < 8"
  by (simp add: unat_mod)

lemma div_mod_8_eqI: "(i :: u64) div 8 = j div 8 \<Longrightarrow> unat (i mod 8) = unat (j mod 8) \<Longrightarrow> i = j"
  by (metis word_unat_eq_iff div_mult_mod_eq)

lemma bm_byte_set:
  "bm_byte i (bm_set j s) =
     (if i div 8 = j div 8 then bm_byte j s OR push_bit (unat (j mod 8)) 1 else bm_byte i s)"
  by (auto simp: bm_byte_def bm_set_def)

lemma bm_byte_clear:
  "bm_byte i (bm_clear j s) =
     (if i div 8 = j div 8 then bm_byte j s AND NOT (push_bit (unat (j mod 8)) 1)
      else bm_byte i s)"
  by (auto simp: bm_byte_def bm_clear_def)

lemma bm_byte_cong: "i div 8 = j div 8 \<Longrightarrow> bm_byte i s = bm_byte j s"
  by (simp add: bm_byte_def)

lemma bit_set_bit8:
  "m < 8 \<Longrightarrow> n < 8 \<Longrightarrow> bit ((b :: u8) OR push_bit m 1) n \<longleftrightarrow> n = m \<or> bit b n"
  "m < 8 \<Longrightarrow> n < 8 \<Longrightarrow> bit ((b :: u8) AND NOT (push_bit m 1)) n \<longleftrightarrow> n \<noteq> m \<and> bit b n"
  by (auto simp: bit_simps)

lemmas bit_set_bit8' = bit_set_bit8 [simplified]

interpretation bm: bit_store "\<lambda>i s. is_used i s \<noteq> 0" bm_set bm_clear
proof unfold_locales
  fix i j s
  show "is_used i (bm_set j s) \<noteq> 0 \<longleftrightarrow> i = j \<or> is_used i s \<noteq> 0"
  proof (cases "i div 8 = j div 8")
    case True
    then have "i = j \<longleftrightarrow> unat (i mod 8) = unat (j mod 8)"
      using div_mod_8_eqI by blast
    then show ?thesis
      by (simp add: is_used_bit bm_byte_set True bm_byte_cong [OF True]
          bit_set_bit8' unat_mod8_less)
  qed (auto simp: is_used_bit bm_byte_set)
  show "is_used i (bm_clear j s) \<noteq> 0 \<longleftrightarrow> i \<noteq> j \<and> is_used i s \<noteq> 0"
  proof (cases "i div 8 = j div 8")
    case True
    then have "i = j \<longleftrightarrow> unat (i mod 8) = unat (j mod 8)"
      using div_mod_8_eqI by blast
    then show ?thesis
      by (simp add: is_used_bit bm_byte_clear True bm_byte_cong [OF True]
          bit_set_bit8' unat_mod8_less)
  qed (auto simp: is_used_bit bm_byte_clear)
qed

lemma bm_frame [simp, frame]:
  shows "mem_base (bm_set i s) = mem_base s" and "mem_base (bm_clear i s) = mem_base s"
    and "bitmap (bm_set i s) = bitmap s" and "bitmap (bm_clear i s) = bitmap s"
    and "total_pages (bm_set i s) = total_pages s"
    and "total_pages (bm_clear i s) = total_pages s"
    and "serial_console (bm_set i s) = serial_console s"
    and "uart0 (bm_set i s) = uart0 s"
  by (simp_all add: bm_set_def bm_clear_def)

lemma is_used_klog [simp, frame]: "is_used i (klog fmt args s) = is_used i s"
  by (simp add: is_used_def bm_byte_def)

end
