(* ===== verification/AllocatorProps.thy ===== *)
theory AllocatorProps
  imports BitmapProps
begin

text \<open>
  What the allocator promises, over the set of used page numbers: well-formedness of its state,
  which every operation keeps; first-fit allocation as a refinement of a list search; exact
  effects of reservation and release; and the bytes each operation may write.
\<close>

section \<open>The state of the allocator\<close>

text \<open>Page numbers are naturals below \<open>total_pages\<close>; the kernel's are 64-bit words.\<close>

definition page_used :: "kernel \<Rightarrow> nat \<Rightarrow> bool" where
  "page_used s k \<longleftrightarrow> k < unat (total_pages s) \<and> is_used (word_of_nat k) s \<noteq> 0"

definition page_addr :: "kernel \<Rightarrow> nat \<Rightarrow> u64" where
  "page_addr s k = mem_base s + word_of_nat k * PAGE_SIZE"

definition bitmap_len :: "kernel \<Rightarrow> nat" where
  "bitmap_len s = (unat (total_pages s) + 7) div 8"

definition in_bitmap :: "kernel \<Rightarrow> u64 \<Rightarrow> bool" where
  "in_bitmap s x \<longleftrightarrow> unat (bitmap s) \<le> unat x \<and> unat x < unat (bitmap s) + bitmap_len s"

text \<open>
  Well-formed: the pool starts on a page boundary, the pool and the bitmap end inside the
  address space, and the pool is smaller than
  the largest pointer difference (\<open>2 ^ 63\<close> bytes).
\<close>

definition alloc_wf :: "kernel \<Rightarrow> bool" where
  "alloc_wf s \<longleftrightarrow> page_aligned (mem_base s) \<and>
     unat (mem_base s) + 4096 * unat (total_pages s) < 2 ^ 64 \<and>
     unat (total_pages s) < 2 ^ 51 \<and>
     unat (bitmap s) + bitmap_len s \<le> 2 ^ 64"

lemma alloc_wf_cong:
  "mem_base s' = mem_base s \<Longrightarrow> total_pages s' = total_pages s \<Longrightarrow> bitmap s' = bitmap s \<Longrightarrow>
   alloc_wf s' = alloc_wf s"
  by (simp add: alloc_wf_def bitmap_len_def)

lemma page_used_klog [simp, frame]: "page_used (klog fmt args s) = page_used s"
  by (rule ext) (simp add: page_used_def)

lemma page_used_less: "page_used s k \<Longrightarrow> k < unat (total_pages s)"
  by (simp add: page_used_def)

lemma alloc_wf_klog [simp, frame]: "alloc_wf (klog fmt args s) = alloc_wf s"
  by (rule alloc_wf_cong) simp_all

lemma unat_word_of_nat_page:
  "alloc_wf s \<Longrightarrow> k \<le> unat (total_pages s) \<Longrightarrow> unat (word_of_nat k :: u64) = k"
  by (simp add: alloc_wf_def unsigned_of_nat take_bit_nat_eq_self)

lemma page_used_index:
  assumes "alloc_wf s" and "page_used s k"
  shows "unat (word_of_nat k :: u64) = k" and "unat (word_of_nat k :: u64) < unat (total_pages s)"
  using page_used_less [OF assms(2)] unat_word_of_nat_page [OF assms(1), of k] by simp_all

lemma unat_page_addr:
  assumes "alloc_wf s" and "k < unat (total_pages s)"
  shows "unat (page_addr s k) = unat (mem_base s) + 4096 * k"
proof -
  have "unat (word_of_nat k * PAGE_SIZE) = k * 4096"
    using assms by (subst unat_mult_no_wrap)
      (simp_all add: unat_word_of_nat_page PAGE_SIZE_def alloc_wf_def)
  then show ?thesis
    using assms by (simp add: page_addr_def unat_add_no_wrap alloc_wf_def)
qed

lemma page_addr_aligned:
  assumes "alloc_wf s" and "k < unat (total_pages s)"
  shows "page_aligned (page_addr s k)"
  using assms by (simp add: page_aligned_dvd unat_page_addr) (simp add: alloc_wf_def page_aligned_dvd)

lemma page_addr_inj:
  assumes "alloc_wf s" and "k < unat (total_pages s)" and "j < unat (total_pages s)"
    and "page_addr s k = page_addr s j"
  shows "k = j"
proof -
  have "unat (mem_base s) + 4096 * k = unat (mem_base s) + 4096 * j"
    unfolding unat_page_addr [OF assms(1,2), symmetric] unat_page_addr [OF assms(1,3), symmetric]
    by (simp only: assms(4))
  then show ?thesis by simp
qed

section \<open>Marking\<close>

lemma page_used_mark:
  assumes "alloc_wf s" and "unat a + unat n \<le> unat (total_pages s)"
  shows "page_used (mark_used a n s) k \<longleftrightarrow>
    page_used s k \<or> (unat a \<le> k \<and> k < unat a + unat n)"
proof -
  have sum: "unat (a + n) = unat a + unat n"
    using assms by (intro unat_add_no_wrap) (simp add: alloc_wf_def)
  have frame: "total_pages (mark_used a n s) = total_pages s"
    unfolding mark_used_def by (rule for_words_frame) simp
  show ?thesis
  proof (cases "k < unat (total_pages s)")
    case True
    then have "unat (word_of_nat k :: u64) = k"
      using assms(1) by (simp add: unat_word_of_nat_page)
    with True show ?thesis
      unfolding page_used_def frame
      by (simp add: mark_used_def bm.test_put_range word_le_nat_alt word_less_nat_alt sum) blast
  next
    case False
    then show ?thesis using assms(2) by (simp add: page_used_def frame)
  qed
qed

lemma mark_used_frame [simp, frame]:
  shows "mem_base (mark_used a n s) = mem_base s"
    and "bitmap (mark_used a n s) = bitmap s"
    and "total_pages (mark_used a n s) = total_pages s"
    and "serial_console (mark_used a n s) = serial_console s"
    and "uart0 (mark_used a n s) = uart0 s"
  unfolding mark_used_def by (rule for_words_frame, simp)+

lemma alloc_wf_mark [simp, frame]: "alloc_wf (mark_used a n s) = alloc_wf s"
  by (rule alloc_wf_cong) simp_all

text \<open>The byte of a page's bit lies in the bitmap, so bit operations write nowhere else.\<close>

lemma bit_byte_in_bitmap:
  assumes "alloc_wf s" and "unat i < unat (total_pages s)"
  shows "in_bitmap s (bitmap s + i div 8)"
proof -
  have "unat (i div 8) < bitmap_len s"
    using assms(2) by (simp add: bitmap_len_def unat_div)
  moreover from this have "unat (bitmap s + i div 8) = unat (bitmap s) + unat (i div 8)"
    using assms(1) by (intro unat_add_no_wrap) (simp add: alloc_wf_def)
  ultimately show ?thesis by (simp add: in_bitmap_def)
qed

lemma mem_bm_outside:
  assumes "alloc_wf s" and "unat i < unat (total_pages s)" and "\<not> in_bitmap s x"
  shows "mem (bm_set i s) x = mem s x" and "mem (bm_clear i s) x = mem s x"
  using bit_byte_in_bitmap [OF assms(1,2)] assms(3)
  by (auto simp: bm_set_def bm_clear_def)

lemma page_used_cong:
  assumes "alloc_wf s" and "\<And>x. in_bitmap s x \<Longrightarrow> mem s' x = mem s x"
    and "bitmap s' = bitmap s" and "total_pages s' = total_pages s"
  shows "page_used s' = page_used s"
proof (rule ext)
  fix k
  show "page_used s' k = page_used s k"
  proof (cases "k < unat (total_pages s)")
    case True
    then have "in_bitmap s (bitmap s + word_of_nat k div 8)"
      using assms(1) by (intro bit_byte_in_bitmap) (simp_all add: unat_word_of_nat_page)
    with assms(2-4) show ?thesis
      by (simp add: page_used_def is_used_def bm_byte_def)
  qed (simp add: page_used_def assms(4))
qed

lemma bit_loop_outside:
  assumes "alloc_wf s" and "\<not> in_bitmap s x"
    and body: "\<And>i t. a \<le> i \<Longrightarrow> i < b \<Longrightarrow>
      \<exists>j. unat j < unat (total_pages s) \<and> (f i t = bm_set j t \<or> f i t = bm_clear j t)"
  shows "mem (for_words a b f s) x = mem s x"
proof -
  let ?P = "\<lambda>t. alloc_wf t \<and> bitmap t = bitmap s \<and> total_pages t = total_pages s \<and> mem t x = mem s x"
  have "?P (for_words a b f s)"
  proof (rule for_words_invariant)
    fix i t
    assume i: "a \<le> i" "i < b" and P: "?P t"
    from body [OF i] obtain j where j: "unat j < unat (total_pages s)"
      and f: "f i t = bm_set j t \<or> f i t = bm_clear j t" by blast
    have "\<not> in_bitmap t x"
      using P assms(2) by (simp add: in_bitmap_def bitmap_len_def)
    then have "mem (f i t) x = mem t x"
      using P j f mem_bm_outside [of t j x] by auto
    moreover have "alloc_wf (f i t) = alloc_wf t"
      using f by (intro alloc_wf_cong) auto
    ultimately show "?P (f i t)"
      using P f by auto
  qed (use assms(1) in simp)
  then show ?thesis by simp
qed

lemma mem_mark_outside:
  assumes "alloc_wf s" and "unat a + unat n \<le> unat (total_pages s)" and "\<not> in_bitmap s x"
  shows "mem (mark_used a n s) x = mem s x"
  unfolding mark_used_def
proof (rule bit_loop_outside [OF assms(1,3)])
  fix i t
  assume "i < a + n"
  moreover have "unat (a + n) = unat a + unat n"
    using assms by (intro unat_add_no_wrap) (simp add: alloc_wf_def)
  ultimately show "\<exists>j. unat j < unat (total_pages s) \<and>
      (bm_set i t = bm_set j t \<or> bm_set i t = bm_clear j t)"
    using assms(2) by (intro exI [of _ i]) (simp add: word_less_nat_alt)
qed

section \<open>First fit\<close>

text \<open>The specification of the search, over any set \<open>u\<close> of used page numbers.\<close>

definition free_run :: "(nat \<Rightarrow> bool) \<Rightarrow> nat \<Rightarrow> nat \<Rightarrow> bool" where
  "free_run u k n \<longleftrightarrow> list_all (\<lambda>j. \<not> u j) [k ..< k + n]"

definition first_fit :: "(nat \<Rightarrow> bool) \<Rightarrow> nat \<Rightarrow> nat \<Rightarrow> nat option" where
  "first_fit u tot n = find (\<lambda>k. free_run u k n) [0 ..< tot + 1 - n]"

lemma free_run_iff: "free_run u k n \<longleftrightarrow> (\<forall>j. k \<le> j \<and> j < k + n \<longrightarrow> \<not> u j)"
  by (auto simp: free_run_def list_all_iff)

lemma first_fit_SomeI:
  assumes "free_run u k n" and "k + n \<le> tot" and "\<And>k'. k' < k \<Longrightarrow> \<not> free_run u k' n"
  shows "first_fit u tot n = Some k"
proof -
  have "[0 ..< tot + 1 - n] ! k = k" and "k < length [0 ..< tot + 1 - n]"
    using assms(2) by simp_all
  then show ?thesis
    unfolding first_fit_def find_Some_iff
    by (intro exI [of _ k]) (use assms in auto)
qed

lemma first_fit_NoneI:
  assumes "\<And>k. k + n \<le> tot \<Longrightarrow> \<not> free_run u k n"
  shows "first_fit u tot n = None"
  using assms by (auto simp: first_fit_def find_None_iff)

lemma first_fit_SomeD:
  assumes "first_fit u tot n = Some k"
  shows "free_run u k n" and "k + n \<le> tot" and "\<And>k'. k' < k \<Longrightarrow> \<not> free_run u k' n"
proof -
  from assms obtain i where i: "i < length [0 ..< tot + 1 - n]"
    "free_run u ([0 ..< tot + 1 - n] ! i) n" "k = [0 ..< tot + 1 - n] ! i"
    "\<forall>j<i. \<not> free_run u ([0 ..< tot + 1 - n] ! j) n"
    unfolding first_fit_def find_Some_iff by blast
  have nth: "[0 ..< tot + 1 - n] ! j = j" if "j \<le> i" for j
    using i(1) that by (subst nth_upt) simp_all
  from i(3) have "k = i" by (simp only: nth)
  then show "free_run u k n" using i(2) by (simp only: nth)
  show "k + n \<le> tot" using i(1) \<open>k = i\<close> by simp
  show "\<not> free_run u k' n" if "k' < k" for k'
    using i(4) nth [of k'] that \<open>k = i\<close> by auto
qed

lemma first_fit_NoneD:
  "first_fit u tot n = None \<Longrightarrow> k + n \<le> tot \<Longrightarrow> \<not> free_run u k n"
  by (auto simp: first_fit_def find_None_iff)

text \<open>What the loop does once the search has found page \<open>k\<close>, and when it finds nothing.\<close>

definition alloc_outcome :: "u64 \<Rightarrow> kernel \<Rightarrow> nat option \<Rightarrow> u64 \<times> kernel" where
  "alloc_outcome n s r =
     (case r of
        None \<Rightarrow> (0, klog ''PAGE: Allocation failed. No contiguous block of %u pages found.\<newline>'' [A64 n] s)
      | Some k \<Rightarrow> (page_addr s k,
          klog ''PAGE: Allocated %u pages at %p\<newline>'' [A64 n, APtr (page_addr s k)]
            (mark_used (word_of_nat k) n s)))"

text \<open>
  The loop invariant: the \<open>c\<close> pages before \<open>i\<close> are free, \<open>start\<close> is the first of them, and
  no run of \<open>n\<close> free pages starts before them.
\<close>

lemma page_alloc_loop_first_fit:
  assumes "unat c < unat n" and "unat c \<le> unat i" and "unat i \<le> unat (total_pages s)"
    and "\<And>j. unat i - unat c \<le> j \<Longrightarrow> j < unat i \<Longrightarrow> \<not> page_used s j"
    and "\<And>k. k < unat i - unat c \<Longrightarrow> \<not> free_run (page_used s) k (unat n)"
    and "c \<noteq> 0 \<Longrightarrow> unat start = unat i - unat c"
  shows "page_alloc_loop n i c start s =
    alloc_outcome n s (first_fit (page_used s) (unat (total_pages s)) (unat n))"
  using assms
proof (induction n i c start s rule: page_alloc_loop.induct)
  case (1 n i c start s)
  show ?case
  proof (cases "i < total_pages s")
    case False
    then have i: "unat i = unat (total_pages s)"
      using "1.prems"(3) by (simp add: word_less_nat_alt)
    have "first_fit (page_used s) (unat (total_pages s)) (unat n) = None"
      by (rule first_fit_NoneI, rule "1.prems"(5)) (use "1.prems"(1) i in linarith)
    with False show ?thesis
      by (subst page_alloc_loop.simps) (simp add: alloc_outcome_def)
  next
    case less: True
    note i1 = unat_add1 [OF less]
    have total: "unat (i + 1) \<le> unat (total_pages s)"
      using less i1 by (simp add: word_less_nat_alt)
    have used: "page_used s (unat i) \<longleftrightarrow> is_used i s \<noteq> 0"
      using less by (simp add: page_used_def word_less_nat_alt)
    show ?thesis
    proof (cases "is_used i s = 0")
      case False
      have "\<not> free_run (page_used s) k (unat n)" if "k < unat (i + 1) - unat (0 :: u64)" for k
      proof (cases "k < unat i - unat c")
        case True
        then show ?thesis by (rule "1.prems"(5))
      next
        case F: False
        then have "k \<le> unat i" and "unat i < k + unat n"
          using that i1 "1.prems"(1,2) by simp_all
        then show ?thesis using used False by (auto simp: free_run_iff)
      qed
      with "1.IH"(2) [OF less False] less False "1.prems"(1) total show ?thesis
        by (subst page_alloc_loop.simps) simp
    next
      case free: True
      let ?start = "if c = 0 then i else start"
      have c1: "unat (c + 1) = Suc (unat c)"
        by (rule unat_add1 [where n = n]) (use "1.prems"(1) in \<open>simp add: word_less_nat_alt\<close>)
      have start: "unat ?start = unat i - unat c"
        using "1.prems"(6) by simp
      have run: "\<not> page_used s j" if "unat i - unat c \<le> j" "j < Suc (unat i)" for j
        using that "1.prems"(4) used free by (cases "j = unat i") auto
      show ?thesis
      proof (cases "c + 1 = n")
        case True
        then have n: "unat n = Suc (unat c)" using c1 by simp
        have "first_fit (page_used s) (unat (total_pages s)) (unat n) = Some (unat ?start)"
        proof (rule first_fit_SomeI)
          show "free_run (page_used s) (unat ?start) (unat n)"
            using run "1.prems"(2) by (auto simp: free_run_iff start n)
          show "unat ?start + unat n \<le> unat (total_pages s)"
            using total i1 "1.prems"(2) by (simp add: start n)
        qed (use "1.prems"(5) start in auto)
        with less free True show ?thesis
          by (subst page_alloc_loop.simps) (simp add: alloc_outcome_def page_addr_def Let_def)
      next
        case False
        have diff: "unat (i + 1) - unat (c + 1) = unat i - unat c"
          by (simp add: c1 i1)
        have rec: "page_alloc_loop n (i + 1) (c + 1) ?start s =
            alloc_outcome n s (first_fit (page_used s) (unat (total_pages s)) (unat n))"
        proof (rule "1.IH"(1) [OF less free refl refl False])
          show "unat (c + 1) < unat n"
            using False c1 "1.prems"(1) by (simp add: word_unat_eq_iff)
          show "unat (c + 1) \<le> unat (i + 1)"
            using "1.prems"(2) by (simp add: c1 i1)
          show "\<not> page_used s j" if "unat (i + 1) - unat (c + 1) \<le> j" "j < unat (i + 1)" for j
            using that diff i1 run by simp
          show "\<not> free_run (page_used s) k (unat n)" if "k < unat (i + 1) - unat (c + 1)" for k
            using that diff "1.prems"(5) by simp
        qed (use total start diff in simp_all)
        show ?thesis
          by (subst page_alloc_loop.simps)
            (simp add: Let_def less free False rec split del: if_split)
      qed
    qed
  qed
qed

lemma page_alloc_first_fit:
  assumes "n \<noteq> 0" and "n \<le> total_pages s"
  shows "page_alloc n s =
    alloc_outcome n s (first_fit (page_used s) (unat (total_pages s)) (unat n))"
proof -
  have "\<not> total_pages s < n" and "0 < unat n"
    using assms by (simp_all add: unat_gt_0 not_less)
  then show ?thesis
    using assms(1) page_alloc_loop_first_fit [of 0 n 0 s 0] by (simp add: page_alloc_def)
qed

section \<open>Allocation\<close>

lemma page_alloc_result:
  assumes "alloc_wf s" and "page_alloc n s = (p, s')" and "p \<noteq> 0"
  obtains k where "first_fit (page_used s) (unat (total_pages s)) (unat n) = Some k"
    and "n \<noteq> 0" and "k + unat n \<le> unat (total_pages s)" and "p = page_addr s k"
    and "s' = klog ''PAGE: Allocated %u pages at %p\<newline>'' [A64 n, APtr p]
      (mark_used (word_of_nat k) n s)"
    and "unat (word_of_nat k :: u64) = k"
proof -
  from assms(2,3) have n: "n \<noteq> 0" "n \<le> total_pages s"
    by (auto simp: page_alloc_def not_less split: if_splits)
  from assms(2,3) obtain k where k: "first_fit (page_used s) (unat (total_pages s)) (unat n) = Some k"
    unfolding page_alloc_first_fit [OF n] by (auto simp: alloc_outcome_def split: option.splits)
  note b = first_fit_SomeD(2) [OF k]
  show thesis
  proof (rule that [OF k n(1) b])
    show "p = page_addr s k"
      using assms(2) unfolding page_alloc_first_fit [OF n] by (simp add: k alloc_outcome_def)
    then show "s' = klog ''PAGE: Allocated %u pages at %p\<newline>'' [A64 n, APtr p]
        (mark_used (word_of_nat k) n s)"
      using assms(2) unfolding page_alloc_first_fit [OF n] by (simp add: k alloc_outcome_def)
    show "unat (word_of_nat k :: u64) = k"
      by (rule unat_word_of_nat_page [OF assms(1) add_leD1 [OF b]])
  qed
qed

lemma page_addr_nonzero:
  assumes "alloc_wf s" and "mem_base s \<noteq> 0" and "k < unat (total_pages s)"
  shows "page_addr s k \<noteq> 0"
proof
  assume "page_addr s k = 0"
  then have "unat (mem_base s) + 4096 * k = 0"
    using unat_page_addr [OF assms(1,3)] by simp
  then show False using assms(2) by (simp add: unat_eq_zero)
qed

lemma page_alloc_null:
  assumes "alloc_wf s" and "mem_base s \<noteq> 0" and "page_alloc n s = (0, s')"
  shows "n = 0 \<or> first_fit (page_used s) (unat (total_pages s)) (unat n) = None"
    and "mem s' = mem s" and "mem_base s' = mem_base s" and "bitmap s' = bitmap s"
    and "total_pages s' = total_pages s"
proof -
  have "(n = 0 \<or> first_fit (page_used s) (unat (total_pages s)) (unat n) = None) \<and>
     mem s' = mem s \<and> mem_base s' = mem_base s \<and> bitmap s' = bitmap s \<and>
     total_pages s' = total_pages s"
  proof (cases "n = 0 \<or> n > total_pages s")
    case True
    moreover have "first_fit (page_used s) (unat (total_pages s)) (unat n) = None"
      if "n > total_pages s"
      using that by (intro first_fit_NoneI) (simp add: word_less_nat_alt)
    ultimately show ?thesis
      using assms(3) by (auto simp: page_alloc_def split: if_splits)
  next
    case False
    then have n: "n \<noteq> 0" "n \<le> total_pages s" by auto
    show ?thesis
    proof (cases "first_fit (page_used s) (unat (total_pages s)) (unat n)")
      case None
      then show ?thesis
        using assms(3) unfolding page_alloc_first_fit [OF n] by (auto simp: alloc_outcome_def)
    next
      case (Some k)
      then have "page_addr s k \<noteq> 0"
        using first_fit_SomeD(2) [OF Some] n(1) assms(1,2)
        by (intro page_addr_nonzero) (auto simp: unat_gt_0 [symmetric])
      then show ?thesis
        using assms(3) Some unfolding page_alloc_first_fit [OF n] by (simp add: alloc_outcome_def)
    qed
  qed
  then show "n = 0 \<or> first_fit (page_used s) (unat (total_pages s)) (unat n) = None"
    and "mem s' = mem s" and "mem_base s' = mem_base s" and "bitmap s' = bitmap s"
    and "total_pages s' = total_pages s" by simp_all
qed

section \<open>Reservation\<close>

lemma sdiv_page_nat: "int d sdiv 4096 = int (d div 4096)"
  by (simp add: signed_divide_int_def zdiv_int sgn_if)

lemma unat_page_index:
  assumes "unat base \<le> unat ptr" and "unat ptr - unat base < 2 ^ 63"
  shows "unat (page_index ptr base) = (unat ptr - unat base) div 4096"
proof -
  let ?d = "unat ptr - unat base"
  have d: "unat (ptr - base) = ?d"
    using assms(1) by (simp add: unat_sub word_le_nat_alt)
  have "uint (ptr - base) = int ?d"
    unfolding uint_nat d ..
  then have "sint (ptr - base) = int ?d"
    using assms(2) signed_take_bit_int_eq_self [of 63 "int ?d"] by (simp add: sint_uint)
  then have "page_index ptr base = word_of_nat (?d div 4096)"
    unfolding page_index_def by (simp only: sdiv_page_nat of_int_of_nat_eq)
  moreover have "?d div 4096 < 2 ^ 64" using assms(2) by simp
  ultimately show ?thesis
    by (simp add: unsigned_of_nat take_bit_nat_eq_self)
qed

text \<open>The range \<open>[ptr, ptr + 4096 n)\<close> is inside the pool, with no wrap-around anywhere.\<close>

definition in_pool :: "kernel \<Rightarrow> u64 \<Rightarrow> nat \<Rightarrow> bool" where
  "in_pool s ptr n \<longleftrightarrow> unat (mem_base s) \<le> unat ptr \<and>
     unat ptr + 4096 * n \<le> unat (mem_base s) + 4096 * unat (total_pages s)"

lemma in_pool_index:
  assumes "alloc_wf s" and "in_pool s ptr n"
  shows "unat (page_index ptr (mem_base s)) = (unat ptr - unat (mem_base s)) div 4096"
    and "n \<noteq> 0 \<Longrightarrow> unat (page_index ptr (mem_base s)) + n \<le> unat (total_pages s)"
    and "unat (page_index ptr (mem_base s)) \<le> unat (total_pages s)"
proof -
  have le: "unat ptr - unat (mem_base s) + 4096 * n \<le> 4096 * unat (total_pages s)"
    and "unat (total_pages s) < 2 ^ 51"
    using assms by (auto simp: in_pool_def alloc_wf_def)
  show index: "unat (page_index ptr (mem_base s)) = (unat ptr - unat (mem_base s)) div 4096"
    using assms(2) le \<open>unat (total_pages s) < 2 ^ 51\<close>
    by (intro unat_page_index) (simp_all add: in_pool_def)
  show "unat (page_index ptr (mem_base s)) \<le> unat (total_pages s)"
    using le unfolding index by simp
  show "unat (page_index ptr (mem_base s)) + n \<le> unat (total_pages s)" if "n \<noteq> 0"
    using le unfolding index by simp
qed

lemma pool_bounds:
  assumes "alloc_wf s"
  shows "unat (total_pages s * PAGE_SIZE) = 4096 * unat (total_pages s)"
    and "unat (mem_base s + total_pages s * PAGE_SIZE) =
      unat (mem_base s) + 4096 * unat (total_pages s)"
proof -
  show *: "unat (total_pages s * PAGE_SIZE) = 4096 * unat (total_pages s)"
    using assms by (subst unat_mult_no_wrap) (simp_all add: alloc_wf_def PAGE_SIZE_def)
  show "unat (mem_base s + total_pages s * PAGE_SIZE) =
      unat (mem_base s) + 4096 * unat (total_pages s)"
    using assms by (subst unat_add_no_wrap) (simp_all add: * alloc_wf_def)
qed

text \<open>The state in which \<open>reserve_page\<close> works at all.\<close>

definition alloc_ready :: "kernel \<Rightarrow> bool" where
  "alloc_ready s \<longleftrightarrow> alloc_wf s \<and> mem_base s \<noteq> 0 \<and> total_pages s \<noteq> 0 \<and> bitmap s \<noteq> 0"

lemma alloc_readyD: "alloc_ready s \<Longrightarrow> alloc_wf s"
  by (simp add: alloc_ready_def)

lemma reserve_page_in_pool:
  assumes "alloc_ready s" and "ptr \<noteq> 0" and "in_pool s ptr (unat n)"
  obtains s' where "reserve_page ptr n s = (True, s')"
    and "\<And>k. page_used s' k \<longleftrightarrow> page_used s k \<or>
      (unat (page_index ptr (mem_base s)) \<le> k \<and>
       k < unat (page_index ptr (mem_base s)) + unat n)"
    and "\<And>x. \<not> in_bitmap s x \<Longrightarrow> mem s' x = mem s x"
    and "mem_base s' = mem_base s" and "bitmap s' = bitmap s" and "total_pages s' = total_pages s"
    and "serial_console s' = serial_console s" and "uart0 s' = uart0 s"
proof -
  let ?idx = "page_index ptr (mem_base s)"
  let ?t = "for_words 0 n (\<lambda>i. bm_set (?idx + i)) s"
  let ?s' = "klog ''PAGE: Reserved %u pages at %p (index %u)\<newline>'' [A64 n, APtr ptr, A64 ?idx] ?t"
  note wf = alloc_readyD [OF assms(1)]
  have n: "unat n < 2 ^ 52" and pn: "unat ptr + 4096 * unat n < 2 ^ 64"
    using assms(3) wf by (simp_all add: in_pool_def alloc_wf_def)
  then have "unat (n * PAGE_SIZE) = 4096 * unat n"
    by (subst unat_mult_no_wrap) (simp_all add: PAGE_SIZE_def)
  then have "unat (ptr + n * PAGE_SIZE) = unat ptr + 4096 * unat n"
    using pn by (subst unat_add_no_wrap) simp_all
  then have bounds: "\<not> ptr < mem_base s"
      "\<not> ptr + n * PAGE_SIZE > mem_base s + total_pages s * PAGE_SIZE"
    using assms(3) pool_bounds [OF wf] by (simp_all add: in_pool_def word_less_nat_alt)
  have run: "reserve_page ptr n s = (True, ?s')"
    using bounds assms(1,2) by (simp add: reserve_page_def alloc_ready_def Let_def)
  have frame: "mem_base ?t = mem_base s" "bitmap ?t = bitmap s" "total_pages ?t = total_pages s"
    "serial_console ?t = serial_console s" "uart0 ?t = uart0 s"
    by (rule for_words_frame, simp)+
  have idx: "unat (?idx + i) = unat ?idx + unat i" "unat (?idx + i) < unat (total_pages s)"
    if "i < n" for i
  proof -
    have "unat ?idx + unat i < unat (total_pages s)"
      using that in_pool_index(2) [OF wf assms(3)] by (simp add: word_less_nat_alt)
    moreover from this show "unat (?idx + i) = unat ?idx + unat i"
      using wf by (intro unat_add_no_wrap) (simp add: alloc_wf_def)
    ultimately show "unat (?idx + i) < unat (total_pages s)" by simp
  qed
  have used: "page_used ?t k \<longleftrightarrow> page_used s k \<or> (unat ?idx \<le> k \<and> k < unat ?idx + unat n)" for k
  proof (cases "k < unat (total_pages s)")
    case True
    then have k: "unat (word_of_nat k :: u64) = k" using wf by (simp add: unat_word_of_nat_page)
    have "(\<exists>j. 0 \<le> j \<and> j < n \<and> word_of_nat k = ?idx + j) \<longleftrightarrow>
        unat ?idx \<le> k \<and> k < unat ?idx + unat n"
    proof
      assume "\<exists>j. 0 \<le> j \<and> j < n \<and> word_of_nat k = ?idx + j"
      then obtain j where "j < n" "word_of_nat k = ?idx + j" by blast
      with k idx(1) have "k = unat ?idx + unat j" by metis
      with \<open>j < n\<close> show "unat ?idx \<le> k \<and> k < unat ?idx + unat n"
        by (simp add: word_less_nat_alt)
    next
      assume R: "unat ?idx \<le> k \<and> k < unat ?idx + unat n"
      let ?j = "word_of_nat (k - unat ?idx) :: u64"
      have j: "unat ?j = k - unat ?idx"
        using True wf by (intro unat_word_of_nat_page [of s]) simp_all
      have lt: "?j < n" unfolding word_less_nat_alt j using R by linarith
      have "unat (?idx + ?j) = unat (word_of_nat k :: u64)"
        unfolding idx(1) [OF lt] j k using R by simp
      then have "word_of_nat k = ?idx + ?j" by (simp only: word_unat_eq_iff)
      with lt show "\<exists>j. 0 \<le> j \<and> j < n \<and> word_of_nat k = ?idx + j" by auto
    qed
    with True show ?thesis
      by (simp add: page_used_def frame bm.test_put_offsets) blast
  next
    case False
    then show ?thesis
      using in_pool_index(2) [OF wf assms(3)] by (auto simp: page_used_def frame)
  qed
  have outside: "mem ?t x = mem s x" if "\<not> in_bitmap s x" for x
    by (rule bit_loop_outside [OF wf that]) (use idx(2) in blast)
  show thesis
    by (rule that [OF run]) (simp_all add: used outside frame)
qed

end
