(* ===== verification/AllocatorContract.thy ===== *)
theory AllocatorContract
  imports AllocatorProps
begin

text \<open>
  The contract of the allocator as its callers see it: release and initialisation, the theorems
  about each operation, the defects of the wrapped and half-initialised cases, and the interface
  \<open>page_source\<close> through which the page tables obtain their memory.
\<close>

section \<open>Release\<close>

lemma clear_loop:
  assumes "alloc_wf s" and "unat b \<le> unat (total_pages s)"
  shows "page_used (for_words a b bm_clear s) k \<longleftrightarrow>
      page_used s k \<and> \<not> (unat a \<le> k \<and> k < unat b)"
    and "\<not> in_bitmap s x \<Longrightarrow> mem (for_words a b bm_clear s) x = mem s x"
proof -
  have frame: "total_pages (for_words a b bm_clear s) = total_pages s"
    by (rule for_words_frame) simp
  show "page_used (for_words a b bm_clear s) k \<longleftrightarrow>
      page_used s k \<and> \<not> (unat a \<le> k \<and> k < unat b)"
  proof (cases "k < unat (total_pages s)")
    case True
    then have "unat (word_of_nat k :: u64) = k"
      using assms(1) by (simp add: unat_word_of_nat_page)
    with True show ?thesis
      unfolding page_used_def frame
      by (simp add: bm.test_clr_range word_le_nat_alt word_less_nat_alt) blast
  qed (simp add: page_used_def frame)
  show "mem (for_words a b bm_clear s) x = mem s x" if "\<not> in_bitmap s x"
  proof (rule bit_loop_outside [OF assms(1) that])
    fix i t
    assume "i < b"
    then show "\<exists>j. unat j < unat (total_pages s) \<and>
        (bm_clear i t = bm_set j t \<or> bm_clear i t = bm_clear j t)"
      using assms(2) by (intro exI [of _ i]) (simp add: word_less_nat_alt)
  qed
qed

lemma in_bitmap_cong:
  "bitmap s' = bitmap s \<Longrightarrow> total_pages s' = total_pages s \<Longrightarrow> in_bitmap s' = in_bitmap s"
  by (rule ext) (simp add: in_bitmap_def bitmap_len_def)

lemma in_bitmap_klog [simp, frame]: "in_bitmap (klog fmt args s) = in_bitmap s"
  by (rule in_bitmap_cong) simp_all

text \<open>Inside the pool, \<open>page_free\<close> is one clearing loop, up to the end of the pool at most.\<close>

lemma page_free_loop:
  assumes "alloc_wf s" and "ptr \<noteq> 0" and "in_pool s ptr 1"
    and "unat (page_index ptr (mem_base s)) + unat n < 2 ^ 64"
  obtains b t where "page_free ptr n s = for_words (page_index ptr (mem_base s)) b bm_clear t"
    and "unat b = min (unat (page_index ptr (mem_base s)) + unat n) (unat (total_pages s))"
    and "\<And>k. page_used t k = page_used s k" and "mem t = mem s" and "alloc_wf t"
    and "in_bitmap t = in_bitmap s"
    and "mem_base t = mem_base s" and "bitmap t = bitmap s" and "total_pages t = total_pages s"
proof -
  let ?idx = "page_index ptr (mem_base s)"
  have idx: "unat ?idx < unat (total_pages s)"
    using in_pool_index(2) [OF assms(1,3)] by simp
  have bounds: "\<not> ptr < mem_base s" "\<not> mem_base s + total_pages s * PAGE_SIZE \<le> ptr"
    using assms(3) pool_bounds [OF assms(1)]
    by (simp_all add: in_pool_def word_less_nat_alt word_le_nat_alt)
  have sum: "unat (?idx + n) = unat ?idx + unat n"
    using assms(4) by (rule unat_add_no_wrap)
  show thesis
  proof (cases "total_pages s < ?idx + n")
    case True
    have b: "unat (total_pages s) = min (unat ?idx + unat n) (unat (total_pages s))"
      using True sum by (simp add: word_less_nat_alt)
    show thesis
      by (rule that [OF _ b, where t = "klog ''PAGE: Freeing %u pages at %p\<newline>''
            [A64 (total_pages s - ?idx), APtr ptr]
            (klog ''PAGE WARNING: Free range out of bounds. Truncating %u to %u pages\<newline>''
              [A64 n, A64 (total_pages s - ?idx)] s)"])
        (use True assms(1,2) bounds in \<open>simp_all add: page_free_def Let_def\<close>)
  next
    case False
    have b: "unat (?idx + n) = min (unat ?idx + unat n) (unat (total_pages s))"
      using False sum by (simp add: word_less_nat_alt)
    show thesis
      by (rule that [OF _ b, where t = "klog ''PAGE: Freeing %u pages at %p\<newline>''
            [A64 n, APtr ptr] s"])
        (use False assms(1,2) bounds in \<open>simp_all add: page_free_def Let_def\<close>)
  qed
qed

lemma page_free_effect:
  assumes "alloc_wf s" and "ptr \<noteq> 0" and "in_pool s ptr 1"
    and "unat (page_index ptr (mem_base s)) + unat n < 2 ^ 64"
  shows "page_used (page_free ptr n s) k \<longleftrightarrow> page_used s k \<and>
      \<not> (unat (page_index ptr (mem_base s)) \<le> k \<and> k < unat (page_index ptr (mem_base s)) + unat n)"
    and "\<not> in_bitmap s x \<Longrightarrow> mem (page_free ptr n s) x = mem s x"
proof -
  obtain b t where run: "page_free ptr n s = for_words (page_index ptr (mem_base s)) b bm_clear t"
    and b: "unat b = min (unat (page_index ptr (mem_base s)) + unat n) (unat (total_pages s))"
    and t: "\<And>k. page_used t k = page_used s k" "mem t = mem s" "alloc_wf t"
      "in_bitmap t = in_bitmap s" "total_pages t = total_pages s"
    using page_free_loop [OF assms] by metis
  have le: "unat b \<le> unat (total_pages t)" using b t by simp
  show "page_used (page_free ptr n s) k \<longleftrightarrow> page_used s k \<and>
      \<not> (unat (page_index ptr (mem_base s)) \<le> k \<and> k < unat (page_index ptr (mem_base s)) + unat n)"
    unfolding run clear_loop(1) [OF t(3) le] t b using page_used_less [of s k] by auto
  show "mem (page_free ptr n s) x = mem s x" if "\<not> in_bitmap s x"
    unfolding run using clear_loop(2) [OF t(3) le, of x] t that by simp
qed

lemma page_free_frame [simp, frame]:
  shows "mem_base (page_free ptr n s) = mem_base s"
    and "bitmap (page_free ptr n s) = bitmap s"
    and "total_pages (page_free ptr n s) = total_pages s"
  by (simp_all add: page_free_def Let_def for_words_frame)

section \<open>Initialisation\<close>

text \<open>The start of the pool, its size, and the number of pages the code computes from a region.\<close>

definition pool_start :: "u64 \<Rightarrow> u64" where
  "pool_start mem_start = (mem_start + (PAGE_SIZE - 1)) AND NOT (PAGE_SIZE - 1)"

definition pool_pages :: "u64 \<Rightarrow> u64 \<Rightarrow> u64" where
  "pool_pages mem_start mem_size =
     (mem_size - (pool_start mem_start - mem_start)) div PAGE_SIZE"

lemma pool_start_simp: "pool_start a = (a + 4095) AND NOT 0xFFF"
  by (simp add: pool_start_def PAGE_SIZE_def)

text \<open>A region the allocator can manage: it ends inside the address space, its first page boundary
  is inside it, and the linker reserved enough bytes for its bitmap.\<close>

definition region_ok :: "linker \<Rightarrow> u64 \<Rightarrow> u64 \<Rightarrow> bool" where
  "region_ok lk start sz \<longleftrightarrow>
     unat start + unat sz < 2 ^ 64 \<and> unat start + 4095 < 2 ^ 64 \<and> unat sz < 2 ^ 63 \<and>
     unat (pool_start start) < unat start + unat sz \<and>
     unat (page_allocator_bit_map_start lk) \<le> unat (page_allocator_bit_map_end lk) \<and>
     (unat (pool_pages start sz) + 7) div 8 \<le>
       unat (page_allocator_bit_map_end lk) - unat (page_allocator_bit_map_start lk)"

lemma bm_zero_byte_sel [simp, frame]:
  shows "mem (bm_zero_byte i s) = (mem s)(bitmap s + i := 0)"
    and "bitmap (bm_zero_byte i s) = bitmap s" and "mem_base (bm_zero_byte i s) = mem_base s"
    and "total_pages (bm_zero_byte i s) = total_pages s"
    and "serial_console (bm_zero_byte i s) = serial_console s"
    and "uart0 (bm_zero_byte i s) = uart0 s"
  by (simp_all add: bm_zero_byte_def)

lemma zero_loop:
  "mem (for_words i n bm_zero_byte s) x =
     (if i \<le> x - bitmap s \<and> x - bitmap s < n then 0 else mem s x)"
proof (induction i s rule: for_words_run_induct
    [where n = n and f = bm_zero_byte])
  case (Done i s)
  then show ?case by (auto simp: for_words_done)
next
  case (Step i s)
  then show ?case by (auto simp: for_words_step word_add1_le_iff)
qed

lemma pool_start_bounds:
  assumes "unat start + 4095 < 2 ^ 64"
  shows "unat start \<le> unat (pool_start start)" and "unat (pool_start start) < unat start + 4096"
    and "page_aligned (pool_start start)"
proof -
  have eq: "unat (pool_start start) = (unat start + 4095) div 4096 * 4096"
    unfolding pool_start_simp by (rule unat_page_ceil [OF assms])
  show "unat start \<le> unat (pool_start start)" unfolding eq by linarith
  show "unat (pool_start start) < unat start + 4096" unfolding eq by linarith
  show "page_aligned (pool_start start)" unfolding pool_start_simp by (rule page_aligned_floor)
qed

lemma region_ok_bounds:
  assumes "region_ok lk start sz"
  shows "unat start \<le> unat (pool_start start)" and "unat (pool_start start) < unat start + unat sz"
    and "unat start + unat sz < 2 ^ 64" and "unat sz < 2 ^ 63"
    and "unat (pool_start start - start) = unat (pool_start start) - unat start"
    and "unat (pool_start start) - unat start < unat sz"
proof -
  show a: "unat start \<le> unat (pool_start start)" "unat (pool_start start) < unat start + unat sz"
    and "unat start + unat sz < 2 ^ 64" and "unat sz < 2 ^ 63"
    using assms pool_start_bounds(1) [of start] by (simp_all add: region_ok_def)
  show "unat (pool_start start - start) = unat (pool_start start) - unat start"
    using a(1) by (simp add: unat_sub word_le_nat_alt)
  show "unat (pool_start start) - unat start < unat sz"
    using a by linarith
qed

lemma unat_pool_pages:
  assumes "region_ok lk start sz"
  shows "unat (pool_pages start sz) =
    (unat start + unat sz - unat (pool_start start)) div 4096"
proof -
  note b = region_ok_bounds [OF assms]
  have "unat (sz - (pool_start start - start)) = unat sz - (unat (pool_start start) - unat start)"
    using b(6) by (subst unat_sub) (simp_all add: word_le_nat_alt b(5))
  also have "\<dots> = unat start + unat sz - unat (pool_start start)"
    using b(1) by linarith
  finally show ?thesis
    by (simp add: pool_pages_def unat_div PAGE_SIZE_def)
qed

text \<open>The state a successful \<open>page_init\<close> leaves.\<close>

definition pool_initialised :: "linker \<Rightarrow> u64 \<Rightarrow> u64 \<Rightarrow> kernel \<Rightarrow> bool" where
  "pool_initialised lk start sz s \<longleftrightarrow>
     mem_base s = pool_start start \<and> total_pages s = pool_pages start sz \<and>
     bitmap s = page_allocator_bit_map_start lk"

lemma pool_initialised_wf:
  assumes "region_ok lk start sz" and "pool_initialised lk start sz s"
  shows "alloc_wf s"
proof -
  note b = region_ok_bounds [OF assms(1)]
  have st: "mem_base s = pool_start start" "total_pages s = pool_pages start sz"
    "bitmap s = page_allocator_bit_map_start lk"
    using assms(2) by (simp_all add: pool_initialised_def)
  have pages: "4096 * unat (total_pages s) \<le> unat start + unat sz - unat (pool_start start)"
    unfolding st unat_pool_pages [OF assms(1)] by simp
  have "unat (page_allocator_bit_map_end lk) < 2 ^ 64"
    using unat_lt_2_64 by simp
  then have bm: "unat (bitmap s) + bitmap_len s \<le> 2 ^ 64"
    using assms(1) unfolding st bitmap_len_def region_ok_def by linarith
  have "unat (mem_base s) + 4096 * unat (total_pages s) < 2 ^ 64"
    unfolding st(1) using pages b(2,3) by linarith
  moreover have "4096 * unat (total_pages s) < 4096 * 2 ^ 51"
    using pages b(1,4) by simp
  moreover have "page_aligned (mem_base s)"
    unfolding st(1) using assms(1) pool_start_bounds(3) by (simp add: region_ok_def)
  ultimately show ?thesis
    using bm by (simp add: alloc_wf_def)
qed

lemma page_init_run:
  assumes "region_ok lk start sz"
  obtains s' where "page_init lk start sz s = (True, s')"
    and "pool_initialised lk start sz s'" and "\<And>k. \<not> page_used s' k"
    and "\<And>x. \<not> in_bitmap s' x \<Longrightarrow> mem s' x = mem s x"
    and "serial_console s' = serial_console s" and "uart0 s' = uart0 s"
proof -
  let ?n = "(pool_pages start sz + 7) div 8"
  let ?bm = "page_allocator_bit_map_start lk"
  note b = region_ok_bounds [OF assms]
  have c1: "\<not> pool_start start - start \<ge> sz"
    using b(6) by (simp add: word_le_nat_alt b(5))
  have "unat start + unat sz - unat (pool_start start) < 4096 * 2 ^ 51"
    using b(1,4) by simp
  then have "unat (pool_pages start sz) < 2 ^ 51"
    unfolding unat_pool_pages [OF assms] by (simp add: div_less_iff_less_mult mult.commute)
  then have len: "unat ?n = (unat (pool_pages start sz) + 7) div 8"
    by (simp add: unat_div unat_add_no_wrap)
  have c2: "\<not> ?n > page_allocator_bit_map_end lk - page_allocator_bit_map_start lk"
    using assms len by (simp add: word_less_nat_alt region_ok_def unat_sub word_le_nat_alt)
  obtain t where t: "mem t = mem s" "mem_base t = pool_start start"
      "total_pages t = pool_pages start sz" "bitmap t = ?bm"
      "serial_console t = serial_console s" "uart0 t = uart0 s"
    and run: "page_init lk start sz s = (True,
      klog ''PAGE: Usable memory starts at 0x%lx\<newline>'' [A64 (pool_start start)]
        (for_words 0 ?n bm_zero_byte t))"
  proof (rule that)
    let ?s1 = "klog ''PAGE: Initializing allocator at %p (size: %u bytes)\<newline>''
      [APtr start, A64 sz] s"
    let ?s2 = "if pool_start start \<noteq> start
      then klog ''PAGE: Aligned start to 0x%lx (offset: %lu bytes)\<newline>''
        [A64 (pool_start start), A64 (pool_start start - start)] ?s1 else ?s1"
    let ?s3 = "?s2\<lparr>mem_base := pool_start start, total_pages := pool_pages start sz\<rparr>"
    let ?s4 = "klog ''PAGE: Total pages: %u, Bitmap requires: %u bytes (%u pages)\<newline>''
      [A64 (total_pages ?s3), A64 ?n] ?s3"
    let ?t = "(klog ''PAGE: Bit map starts at %lx and ends at %lx\<newline>''
      [A64 ?bm, A64 (page_allocator_bit_map_end lk)] ?s4)\<lparr>bitmap := ?bm\<rparr>"
    show "mem ?t = mem s" and "mem_base ?t = pool_start start"
      and "total_pages ?t = pool_pages start sz" and "bitmap ?t = ?bm"
      and "serial_console ?t = serial_console s" and "uart0 ?t = uart0 s"
      by simp_all
    show "page_init lk start sz s = (True,
      klog ''PAGE: Usable memory starts at 0x%lx\<newline>'' [A64 (pool_start start)]
        (for_words 0 ?n bm_zero_byte ?t))"
      using c1 c2
      by (simp add: page_init_def Let_def pool_start_def [symmetric] pool_pages_def [symmetric]
          for_words_frame [where g = mem_base])
  qed
  let ?u = "for_words 0 ?n bm_zero_byte t"
  have frame: "mem_base ?u = mem_base t" "total_pages ?u = total_pages t" "bitmap ?u = bitmap t"
    "serial_console ?u = serial_console t" "uart0 ?u = uart0 t"
    by (rule for_words_frame, simp)+
  have init: "pool_initialised lk start sz ?u"
    by (simp add: pool_initialised_def frame t)
  note wf = pool_initialised_wf [OF assms init]
  have zero: "mem ?u x = (if in_bitmap ?u x then 0 else mem s x)" for x
  proof -
    have "x - ?bm < ?n \<longleftrightarrow> in_bitmap ?u x"
      using wf len
      by (auto simp: in_bitmap_def bitmap_len_def frame t word_less_nat_alt unat_sub_if'
          alloc_wf_def)
    then show ?thesis by (simp add: zero_loop t)
  qed
  have free: "\<not> page_used ?u k" for k
  proof
    assume used: "page_used ?u k"
    then have "in_bitmap ?u (bitmap ?u + word_of_nat k div 8)"
      by (rule bit_byte_in_bitmap [OF wf page_used_index(2) [OF wf]])
    with used show False by (simp add: page_used_def is_used_def bm_byte_def zero)
  qed
  show thesis
    by (rule that [OF run])
      (use init free zero t frame in \<open>simp_all add: pool_initialised_def\<close>)
qed

section \<open>The interface the page tables use\<close>

text \<open>
  A source of pages: \<open>alloc\<close> hands out a page or the null pointer, \<open>owned\<close> are the pages in
  somebody's possession, \<open>reserved\<close> the bytes the source keeps its books in, and \<open>bytes\<close>, \<open>upd\<close>
  read and replace the memory. The laws: a page handed out was not owned, is aligned and holds
  no reserved byte; allocation writes reserved bytes only; and a client that leaves the reserved
  bytes alone cannot disturb the source.
\<close>

locale page_source =
  fixes alloc :: "'s \<Rightarrow> u64 \<times> 's"
    and owned :: "'s \<Rightarrow> u64 \<Rightarrow> bool"
    and inv :: "'s \<Rightarrow> bool"
    and reserved :: "'s \<Rightarrow> u64 \<Rightarrow> bool"
    and bytes :: "'s \<Rightarrow> memory"
    and upd :: "memory \<Rightarrow> 's \<Rightarrow> 's"
  assumes alloc_inv: "inv s \<Longrightarrow> alloc s = (p, s') \<Longrightarrow> inv s'"
    and alloc_fresh: "inv s \<Longrightarrow> alloc s = (p, s') \<Longrightarrow> p \<noteq> 0 \<Longrightarrow> \<not> owned s p"
    and alloc_aligned: "inv s \<Longrightarrow> alloc s = (p, s') \<Longrightarrow> page_aligned p"
    and alloc_owned: "inv s \<Longrightarrow> alloc s = (p, s') \<Longrightarrow>
      owned s' q \<longleftrightarrow> owned s q \<or> (p \<noteq> 0 \<and> q = p)"
    and alloc_public: "inv s \<Longrightarrow> alloc s = (p, s') \<Longrightarrow> p \<noteq> 0 \<Longrightarrow>
      page_no x = page_no p \<Longrightarrow> \<not> reserved s x"
    and alloc_bytes: "inv s \<Longrightarrow> alloc s = (p, s') \<Longrightarrow> \<not> reserved s x \<Longrightarrow> bytes s' x = bytes s x"
    and alloc_reserved: "inv s \<Longrightarrow> alloc s = (p, s') \<Longrightarrow> reserved s' = reserved s"
    and upd_bytes: "bytes (upd m s) = m"
    and upd_reserved: "reserved (upd m s) = reserved s"
    and upd_inv: "inv s \<Longrightarrow> (\<And>x. reserved s x \<Longrightarrow> m x = bytes s x) \<Longrightarrow> inv (upd m s)"
    and upd_owned: "inv s \<Longrightarrow> (\<And>x. reserved s x \<Longrightarrow> m x = bytes s x) \<Longrightarrow>
      owned (upd m s) q = owned s q"
begin

text \<open>
  The pages a client may write: owned, aligned, not null, without reserved bytes.
\<close>

definition usable :: "'s \<Rightarrow> u64 \<Rightarrow> bool" where
  "usable s q \<longleftrightarrow> q \<noteq> 0 \<and> page_aligned q \<and> owned s q \<and>
     (\<forall>x. page_no x = page_no q \<longrightarrow> \<not> reserved s x)"

lemma usable_alloc:
  assumes "inv s" and "alloc s = (p, s')"
  shows "usable s' q \<longleftrightarrow> usable s q \<or> (p \<noteq> 0 \<and> q = p)"
  using alloc_owned [OF assms, of q] alloc_reserved [OF assms] alloc_aligned [OF assms]
    alloc_public [OF assms] by (auto simp: usable_def)

lemma alloc_not_usable: "inv s \<Longrightarrow> alloc s = (p, s') \<Longrightarrow> \<not> usable s p"
  using alloc_fresh by (auto simp: usable_def)

lemma alloc_keeps_usable:
  assumes "inv s" and "alloc s = (p, s')" and "usable s q" and "page_no x = page_no q"
  shows "bytes s' x = bytes s x"
  using alloc_bytes [OF assms(1,2)] assms(3,4) by (simp add: usable_def)

text \<open>Writing to a usable page keeps the source's invariant and everybody's ownership.\<close>

lemma write_usable:
  assumes "inv s" and "usable s q" and "\<And>x. page_no x \<noteq> page_no q \<Longrightarrow> m x = bytes s x"
  shows "inv (upd m s)" and "usable (upd m s) r \<longleftrightarrow> usable s r"
proof -
  have "m x = bytes s x" if "reserved s x" for x
    using assms(2,3) that by (auto simp: usable_def)
  then show "inv (upd m s)" and "usable (upd m s) r \<longleftrightarrow> usable s r"
    using assms(1) by (simp_all add: upd_inv upd_owned upd_reserved usable_def)
qed

text \<open>Two allocations in a row never hand out the same page.\<close>

lemma alloc_distinct:
  assumes "inv s" and "alloc s = (p, s')" and "alloc s' = (q, s'')" and "p \<noteq> 0"
  shows "q \<noteq> p"
proof
  assume "q = p"
  then have "\<not> owned s' p"
    using alloc_fresh [OF alloc_inv [OF assms(1,2)] assms(3)] assms(4) by simp
  then show False using alloc_owned [OF assms(1,2)] assms(4) by simp
qed

end

text \<open>
  The allocator of the code is such a source once the pages its bitmap occupies are reserved,
  which is what \<open>main\<close> does by reserving the kernel image.
\<close>

definition page_hits_bitmap :: "kernel \<Rightarrow> nat \<Rightarrow> bool" where
  "page_hits_bitmap s k \<longleftrightarrow>
     unat (page_addr s k) < unat (bitmap s) + bitmap_len s \<and>
     unat (bitmap s) < unat (page_addr s k) + 4096"

definition bitmap_safe :: "kernel \<Rightarrow> bool" where
  "bitmap_safe s \<longleftrightarrow>
     list_all (\<lambda>k. page_hits_bitmap s k \<longrightarrow> page_used s k) [0 ..< unat (total_pages s)]"

definition page_owned :: "kernel \<Rightarrow> u64 \<Rightarrow> bool" where
  "page_owned s q \<longleftrightarrow> (\<exists>k. page_used s k \<and> q = page_addr s k)"

definition source_inv :: "kernel \<Rightarrow> bool" where
  "source_inv s \<longleftrightarrow> alloc_wf s \<and> mem_base s \<noteq> 0 \<and> bitmap_safe s"

lemma bitmap_safe_iff:
  "bitmap_safe s \<longleftrightarrow> (\<forall>k < unat (total_pages s). page_hits_bitmap s k \<longrightarrow> page_used s k)"
  by (auto simp: bitmap_safe_def list_all_iff)

lemma in_bitmap_hits:
  assumes "page_aligned (page_addr s k)" and "in_bitmap s x"
    and "page_no x = page_no (page_addr s k)"
  shows "page_hits_bitmap s k"
proof -
  obtain q where q: "unat (page_addr s k) = 4096 * q"
    using assms(1) by (auto simp: page_aligned_dvd)
  then have "unat x div 4096 = q"
    using assms(3) by (simp add: page_no_def)
  then have "4096 * q \<le> unat x" and "unat x < 4096 * q + 4096"
    using div_mult_mod_eq [of "unat x" 4096] by simp_all
  then show ?thesis
    using assms(2) q by (simp add: page_hits_bitmap_def in_bitmap_def)
qed

lemma page_addr_cong: "mem_base s' = mem_base s \<Longrightarrow> page_addr s' = page_addr s"
  by (rule ext) (simp add: page_addr_def)

lemma page_hits_cong:
  "mem_base s' = mem_base s \<Longrightarrow> bitmap s' = bitmap s \<Longrightarrow> total_pages s' = total_pages s \<Longrightarrow>
   page_hits_bitmap s' = page_hits_bitmap s"
  by (rule ext) (simp add: page_hits_bitmap_def page_addr_cong [of s' s] bitmap_len_def)

lemma source_inv_grow:
  assumes "source_inv s" and "mem_base s' = mem_base s" and "bitmap s' = bitmap s"
    and "total_pages s' = total_pages s" and "\<And>k. page_used s k \<Longrightarrow> page_used s' k"
  shows "source_inv s'"
proof -
  have "alloc_wf s'" and "mem_base s' \<noteq> 0"
    using assms(1,2) alloc_wf_cong [OF assms(2,4,3)] by (simp_all add: source_inv_def)
  moreover have "bitmap_safe s'"
    using assms(1,5) unfolding source_inv_def bitmap_safe_iff page_hits_cong [OF assms(2,3,4)] assms(4)
    by blast
  ultimately show ?thesis by (simp add: source_inv_def)
qed

text \<open>The effect of allocating, on every field the source is about.\<close>

lemma page_alloc_effect:
  assumes "source_inv s" and "page_alloc n s = (p, s')"
  shows "mem_base s' = mem_base s" and "bitmap s' = bitmap s" and "total_pages s' = total_pages s"
    and "\<not> in_bitmap s x \<Longrightarrow> mem s' x = mem s x"
    and "p = 0 \<Longrightarrow> page_used s' = page_used s"
    and "p \<noteq> 0 \<Longrightarrow> \<exists>k. p = page_addr s k \<and> k + unat n \<le> unat (total_pages s) \<and> n \<noteq> 0 \<and>
      free_run (page_used s) k (unat n) \<and>
      (\<forall>j. page_used s' j \<longleftrightarrow> page_used s j \<or> (k \<le> j \<and> j < k + unat n))"
proof -
  have wf: "alloc_wf s" and base: "mem_base s \<noteq> 0"
    using assms(1) by (simp_all add: source_inv_def)
  have "mem_base s' = mem_base s \<and> bitmap s' = bitmap s \<and> total_pages s' = total_pages s \<and>
    (\<not> in_bitmap s x \<longrightarrow> mem s' x = mem s x) \<and> (p = 0 \<longrightarrow> page_used s' = page_used s) \<and>
    (p \<noteq> 0 \<longrightarrow> (\<exists>k. p = page_addr s k \<and> k + unat n \<le> unat (total_pages s) \<and> n \<noteq> 0 \<and>
      free_run (page_used s) k (unat n) \<and>
      (\<forall>j. page_used s' j \<longleftrightarrow> page_used s j \<or> (k \<le> j \<and> j < k + unat n))))"
  proof (cases "p = 0")
    case True
    have s': "mem s' = mem s" "mem_base s' = mem_base s" "bitmap s' = bitmap s"
      "total_pages s' = total_pages s"
      using page_alloc_null [OF wf base] assms(2) True by auto
    moreover have "page_used s' = page_used s"
      by (rule page_used_cong [OF wf]) (simp_all add: s')
    ultimately show ?thesis using True by simp
  next
    case False
    obtain k where k: "first_fit (page_used s) (unat (total_pages s)) (unat n) = Some k"
      "n \<noteq> 0" "k + unat n \<le> unat (total_pages s)" "p = page_addr s k"
      "s' = klog ''PAGE: Allocated %u pages at %p\<newline>'' [A64 n, APtr p]
        (mark_used (word_of_nat k) n s)" "unat (word_of_nat k :: u64) = k"
      by (rule page_alloc_result [OF wf assms(2) False])
    have le: "unat (word_of_nat k :: u64) + unat n \<le> unat (total_pages s)"
      using k(3,6) by simp
    show ?thesis
      using k False first_fit_SomeD(1) [OF k(1)] mem_mark_outside [OF wf le, of x]
        page_used_mark [OF wf le] by auto
  qed
  then show "mem_base s' = mem_base s" and "bitmap s' = bitmap s"
    and "total_pages s' = total_pages s"
    and "\<not> in_bitmap s x \<Longrightarrow> mem s' x = mem s x"
    and "p = 0 \<Longrightarrow> page_used s' = page_used s"
    and "p \<noteq> 0 \<Longrightarrow> \<exists>k. p = page_addr s k \<and> k + unat n \<le> unat (total_pages s) \<and> n \<noteq> 0 \<and>
      free_run (page_used s) k (unat n) \<and>
      (\<forall>j. page_used s' j \<longleftrightarrow> page_used s j \<or> (k \<le> j \<and> j < k + unat n))"
    by blast+
qed

lemma page_owned_cong:
  "page_used s' = page_used s \<Longrightarrow> mem_base s' = mem_base s \<Longrightarrow> page_owned s' = page_owned s"
  by (rule ext) (simp add: page_owned_def page_addr_cong [of s' s])

lemma page_owned_grow:
  assumes "mem_base s' = mem_base s"
    and "\<And>j. page_used s' j \<longleftrightarrow> page_used s j \<or> j = k"
  shows "page_owned s' q \<longleftrightarrow> page_owned s q \<or> q = page_addr s k"
  using assms by (auto simp: page_owned_def page_addr_cong [of s' s])

lemma upd_keeps_source:
  assumes "source_inv s" and "\<And>x. in_bitmap s x \<Longrightarrow> m x = mem s x"
  shows "source_inv (s\<lparr>mem := m\<rparr>)" and "page_owned (s\<lparr>mem := m\<rparr>) q = page_owned s q"
proof -
  have "page_used (s\<lparr>mem := m\<rparr>) = page_used s"
    by (rule page_used_cong) (use assms in \<open>simp_all add: source_inv_def\<close>)
  then show "source_inv (s\<lparr>mem := m\<rparr>)" and "page_owned (s\<lparr>mem := m\<rparr>) q = page_owned s q"
    using assms(1) page_owned_cong [of "s\<lparr>mem := m\<rparr>" s]
    by (auto intro: source_inv_grow)
qed

text \<open>One page at a time, as \<open>allocate_new_table\<close> asks for it.\<close>

lemma page_alloc_one:
  assumes "source_inv s" and "page_alloc 1 s = (p, s')" and "p \<noteq> 0"
  obtains k where "p = page_addr s k" and "k < unat (total_pages s)" and "\<not> page_used s k"
    and "\<And>j. page_used s' j \<longleftrightarrow> page_used s j \<or> j = k"
proof -
  obtain k where k: "p = page_addr s k" "k + unat (1 :: u64) \<le> unat (total_pages s)"
    "free_run (page_used s) k (unat (1 :: u64))"
    "\<forall>j. page_used s' j \<longleftrightarrow> page_used s j \<or> (k \<le> j \<and> j < k + unat (1 :: u64))"
    using page_alloc_effect(6) [OF assms(1,2,3)] by blast
  show thesis
    by (rule that [OF k(1)]) (use k in \<open>auto simp: free_run_iff\<close>)
qed

interpretation ps: page_source "page_alloc 1" page_owned source_inv in_bitmap mem
  "\<lambda>m s. s\<lparr>mem := m\<rparr>"
proof unfold_locales
  fix s s' :: kernel and p q x :: u64
  assume inv: "source_inv s" and run: "page_alloc 1 s = (p, s')"
  note eff = page_alloc_effect [OF inv run]
  have wf: "alloc_wf s" using inv by (simp add: source_inv_def)
  show "source_inv s'"
    by (rule source_inv_grow [OF inv eff(1-3)]) (use eff(5,6) in \<open>cases "p = 0"; auto\<close>)
  show "\<not> page_owned s p" if nz: "p \<noteq> 0"
  proof
    assume "page_owned s p"
    then obtain j where j: "page_used s j" "p = page_addr s j" by (auto simp: page_owned_def)
    obtain k where k: "p = page_addr s k" "k < unat (total_pages s)" "\<not> page_used s k"
      using page_alloc_one [OF inv run nz] by metis
    have "j = k"
      by (rule page_addr_inj [OF wf page_used_less [OF j(1)] k(2)]) (use j k in simp)
    then show False using j k by simp
  qed
  show "page_aligned p"
  proof (cases "p = 0")
    case False
    then obtain k where "p = page_addr s k" "k < unat (total_pages s)"
      using page_alloc_one [OF inv run] by metis
    then show ?thesis by (simp add: page_addr_aligned [OF wf])
  qed simp
  show "page_owned s' q \<longleftrightarrow> page_owned s q \<or> (p \<noteq> 0 \<and> q = p)"
  proof (cases "p = 0")
    case True
    then show ?thesis using page_owned_cong [OF eff(5) eff(1)] by simp
  next
    case False
    obtain k where "p = page_addr s k" "\<And>j. page_used s' j \<longleftrightarrow> page_used s j \<or> j = k"
      using page_alloc_one [OF inv run False] by metis
    with False page_owned_grow [OF eff(1), of k q] show ?thesis by simp
  qed
  show "\<not> in_bitmap s x" if nz: "p \<noteq> 0" and px: "page_no x = page_no p"
  proof
    assume x: "in_bitmap s x"
    obtain k where k: "p = page_addr s k" "k < unat (total_pages s)" "\<not> page_used s k"
      using page_alloc_one [OF inv run nz] by metis
    have "page_hits_bitmap s k"
      by (rule in_bitmap_hits [OF page_addr_aligned [OF wf k(2)] x])
        (use px k(1) in simp)
    with k inv show False by (simp add: source_inv_def bitmap_safe_iff)
  qed
  show "mem s' x = mem s x" if "\<not> in_bitmap s x"
    using eff(4) [OF that] .
  show "in_bitmap s' = in_bitmap s"
    by (rule in_bitmap_cong [OF eff(2,3)])
next
  fix s :: kernel and m :: memory
  show "mem (s\<lparr>mem := m\<rparr>) = m" by simp
  show "in_bitmap (s\<lparr>mem := m\<rparr>) = in_bitmap s" by (rule in_bitmap_cong) simp_all
next
  fix s :: kernel and m :: memory and q
  assume "source_inv s" and "\<And>x. in_bitmap s x \<Longrightarrow> m x = mem s x"
  then show "source_inv (s\<lparr>mem := m\<rparr>)" and "page_owned (s\<lparr>mem := m\<rparr>) q = page_owned s q"
    by (simp_all add: upd_keeps_source)
qed

lemma source_inv_klog [simp, frame]: "source_inv (klog fmt args s) = source_inv s"
  by (simp add: source_inv_def bitmap_safe_iff page_hits_cong [of "klog fmt args s" s])

lemma page_owned_klog [simp, frame]: "page_owned (klog fmt args s) = page_owned s"
  by (rule page_owned_cong) simp_all

lemma usable_klog [simp, frame]: "ps.usable (klog fmt args s) q = ps.usable s q"
  by (simp add: ps.usable_def)

end
