(* ===== verification/AllocatorTheorems.thy ===== *)
theory AllocatorTheorems
  imports AllocatorContract
begin

text \<open>
  The theorems about the allocator as a client reads them, with the concrete pool they are
  instantiated on, and the corner cases in which the code does not do what it means to.
\<close>

text \<open>
  A pool of 16 pages at \<open>0x40000000\<close> whose bitmap lies in its page 2, which is reserved; the other
  pages are free.
\<close>

definition demo_kernel :: kernel where
  "demo_kernel = console_kernel
     \<lparr>mem := (\<lambda>_. 0)(0x40002000 := 4), mem_base := 0x40000000, bitmap := 0x40002000,
      total_pages := 16\<rparr>"

lemma demo_sel [simp]:
  shows "mem_base demo_kernel = 0x40000000" and "bitmap demo_kernel = 0x40002000"
    and "total_pages demo_kernel = 16" and "mem demo_kernel = (\<lambda>_. 0)(0x40002000 := 4)"
  by (simp_all add: demo_kernel_def)

lemma demo_wf [simp]: "alloc_wf demo_kernel"
  by (simp add: alloc_wf_def bitmap_len_def page_aligned_def)

lemma demo_used: "page_used demo_kernel k \<longleftrightarrow> k = 2"
proof (cases "k < 16")
  case True
  then have "k = 0 \<or> k = 1 \<or> k = 2 \<or> k = 3 \<or> k = 4 \<or> k = 5 \<or> k = 6 \<or> k = 7 \<or> k = 8 \<or> k = 9 \<or>
      k = 10 \<or> k = 11 \<or> k = 12 \<or> k = 13 \<or> k = 14 \<or> k = 15"
    by presburger
  then show ?thesis
    by (elim disjE; simp add: page_used_def is_used_def bm_byte_def)
qed (auto simp: page_used_def)

lemma demo_safe [simp]: "source_inv demo_kernel"
proof -
  have "k = 2" if "k < 16" "page_hits_bitmap demo_kernel k" for k
  proof -
    have "unat (page_addr demo_kernel k) = 0x40000000 + 4096 * k"
      using that(1) by (simp add: unat_page_addr)
    then show ?thesis
      using that(2) by (simp add: page_hits_bitmap_def bitmap_len_def)
  qed
  then show ?thesis
    by (simp add: source_inv_def bitmap_safe_iff demo_used)
qed

lemma demo_alloc: "fst (page_alloc 1 demo_kernel) = 0x40000000"
proof -
  have "first_fit (page_used demo_kernel) 16 1 = Some 0"
    by (rule first_fit_SomeI) (simp_all add: free_run_iff demo_used)
  then show ?thesis
    by (simp add: page_alloc_first_fit alloc_outcome_def page_addr_def)
qed

section \<open>Allocation\<close>

text \<open>
  C7: a non-null result of \<open>page_alloc\<close> is the address of the first page of the lowest run of
  \<open>n\<close> free pages; exactly those pages become used, no other page changes state, no byte outside
  the bitmap is written, and the allocator stays well-formed.
\<close>

theorem page_alloc_success:
  assumes "alloc_wf s" and "page_alloc n s = (p, s')" and "p \<noteq> 0"
  shows "\<exists>k. p = page_addr s k \<and> page_aligned p \<and> k + unat n \<le> unat (total_pages s) \<and>
    (\<forall>j. k \<le> j \<and> j < k + unat n \<longrightarrow> \<not> page_used s j) \<and>
    (\<forall>k' < k. \<exists>j. k' \<le> j \<and> j < k' + unat n \<and> page_used s j) \<and>
    (\<forall>j. page_used s' j \<longleftrightarrow> page_used s j \<or> (k \<le> j \<and> j < k + unat n)) \<and>
    (\<forall>x. \<not> in_bitmap s x \<longrightarrow> mem s' x = mem s x) \<and> alloc_wf s'"
proof -
  obtain k where k: "first_fit (page_used s) (unat (total_pages s)) (unat n) = Some k"
    "n \<noteq> 0" "k + unat n \<le> unat (total_pages s)" "p = page_addr s k"
    "s' = klog ''PAGE: Allocated %u pages at %p\<newline>'' [A64 n, APtr p]
      (mark_used (word_of_nat k) n s)" "unat (word_of_nat k :: u64) = k"
    by (rule page_alloc_result [OF assms])
  have le: "unat (word_of_nat k :: u64) + unat n \<le> unat (total_pages s)"
    using k(3,6) by simp
  have "k < unat (total_pages s)"
    using k(2,3) by (simp add: unat_gt_0 [symmetric])
  then have "page_aligned p"
    unfolding k(4) by (rule page_addr_aligned [OF assms(1)])
  moreover have "\<forall>k' < k. \<exists>j. k' \<le> j \<and> j < k' + unat n \<and> page_used s j"
    using first_fit_SomeD(3) [OF k(1)] by (auto simp: free_run_iff)
  moreover have "\<forall>j. k \<le> j \<and> j < k + unat n \<longrightarrow> \<not> page_used s j"
    using first_fit_SomeD(1) [OF k(1)] by (simp add: free_run_iff)
  moreover have "\<forall>j. page_used s' j \<longleftrightarrow> page_used s j \<or> (k \<le> j \<and> j < k + unat n)"
    by (simp add: k(5,6) page_used_mark [OF assms(1) le])
  moreover have "\<forall>x. \<not> in_bitmap s x \<longrightarrow> mem s' x = mem s x"
    by (simp add: k(5) mem_mark_outside [OF assms(1) le])
  moreover have "alloc_wf s'"
    using assms(1) by (simp add: k(5))
  ultimately show ?thesis
    using k(3,4) by blast
qed

theorem page_alloc_success_witness:
  "alloc_wf demo_kernel \<and> fst (page_alloc 1 demo_kernel) \<noteq> 0 \<and>
   (\<exists>k. (0x40000000 :: u64) = page_addr demo_kernel k \<and>
     (\<forall>j. page_used (snd (page_alloc 1 demo_kernel)) j \<longleftrightarrow> j = 2 \<or> j = k))"
proof -
  have run: "page_alloc 1 demo_kernel = (0x40000000, snd (page_alloc 1 demo_kernel))"
    by (simp add: prod_eq_iff demo_alloc)
  have "k \<le> j \<and> j < k + unat (1 :: u64) \<longleftrightarrow> j = k" for j k :: nat by auto
  then show ?thesis
    using page_alloc_success [OF demo_wf run] run
    by (simp add: demo_used demo_alloc) metis
qed

text \<open>
  C8: \<open>page_alloc\<close> returns the null pointer exactly when nothing was asked for or no run of \<open>n\<close>
  contiguous free pages exists, and then no page changes state: allocation never fails while a
  large enough block is free.
\<close>

theorem page_alloc_null_iff:
  assumes "alloc_wf s" and "mem_base s \<noteq> 0"
  shows "fst (page_alloc n s) = 0 \<longleftrightarrow>
      n = 0 \<or> (\<forall>k. k + unat n \<le> unat (total_pages s) \<longrightarrow>
        (\<exists>j. k \<le> j \<and> j < k + unat n \<and> page_used s j))"
    (is "_ \<longleftrightarrow> ?none")
proof
  assume "fst (page_alloc n s) = 0"
  then have "page_alloc n s = (0, snd (page_alloc n s))" by (simp add: prod_eq_iff)
  from page_alloc_null(1) [OF assms this] show ?none
    using first_fit_NoneD [of "page_used s" "unat (total_pages s)" "unat n"]
    by (auto simp: free_run_iff)
next
  assume none: ?none
  show "fst (page_alloc n s) = 0"
  proof (rule ccontr)
    assume nz: "fst (page_alloc n s) \<noteq> 0"
    obtain k where "first_fit (page_used s) (unat (total_pages s)) (unat n) = Some k" "n \<noteq> 0"
      by (rule page_alloc_result [OF assms(1) surjective_pairing nz])
    then show False
      using none first_fit_SomeD(1,2) by (fastforce simp: free_run_iff)
  qed
qed

theorem page_alloc_null_iff_witness:
  "alloc_wf demo_kernel \<and> mem_base demo_kernel \<noteq> 0 \<and> fst (page_alloc 14 demo_kernel) = 0"
proof -
  have "\<exists>j. k \<le> j \<and> j < k + unat (14 :: u64) \<and> page_used demo_kernel j"
    if "k + unat (14 :: u64) \<le> unat (total_pages demo_kernel)" for k
    using that by (intro exI [of _ 2]) (simp add: demo_used)
  then show ?thesis
    using page_alloc_null_iff [OF demo_wf, of 14] by simp
qed

text \<open>
  with a pool that starts at address 0 the null pointer is ambiguous: when the first pages
  are free, \<open>page_alloc\<close> marks them as used and returns null, which its caller takes for a
  failure.
\<close>

theorem page_alloc_base_zero_leaks:
  assumes "alloc_wf s" and "mem_base s = 0" and "n \<noteq> 0" and "unat n \<le> unat (total_pages s)"
    and "\<And>j. j < unat n \<Longrightarrow> \<not> page_used s j"
  shows "fst (page_alloc n s) = 0 \<and> (\<forall>j < unat n. page_used (snd (page_alloc n s)) j)"
proof -
  have "first_fit (page_used s) (unat (total_pages s)) (unat n) = Some 0"
    by (rule first_fit_SomeI) (use assms in \<open>simp_all add: free_run_iff\<close>)
  moreover have "n \<le> total_pages s"
    using assms(4) by (simp add: word_le_nat_alt)
  ultimately show ?thesis
    using assms(1-4)
    by (simp add: page_alloc_first_fit alloc_outcome_def page_addr_def page_used_mark)
qed

theorem page_alloc_base_zero_leaks_witness:
  "fst (page_alloc 1 (demo_kernel\<lparr>mem_base := 0\<rparr>)) = 0 \<and>
   page_used (snd (page_alloc 1 (demo_kernel\<lparr>mem_base := 0\<rparr>))) 0"
proof -
  let ?s = "demo_kernel\<lparr>mem_base := 0\<rparr>"
  have wf: "alloc_wf ?s"
    by (simp add: alloc_wf_def bitmap_len_def)
  have used: "page_used ?s = page_used demo_kernel"
    by (rule page_used_cong) simp_all
  show ?thesis
    using page_alloc_base_zero_leaks [OF wf, of 1] by (simp add: used demo_used)
qed

section \<open>Reservation\<close>

text \<open>Reservation by addresses: the pages that begin inside the range.\<close>

lemma reserve_page_addresses:
  assumes "alloc_ready s" and "page_aligned ptr" and "ptr \<noteq> 0" and "in_pool s ptr (unat n)"
  obtains s' where "reserve_page ptr n s = (True, s')"
    and "\<And>k. k < unat (total_pages s) \<Longrightarrow> page_used s' k \<longleftrightarrow> page_used s k \<or>
      (unat ptr \<le> unat (page_addr s k) \<and> unat (page_addr s k) < unat ptr + 4096 * unat n)"
    and "\<And>x. \<not> in_bitmap s x \<Longrightarrow> mem s' x = mem s x"
    and "mem_base s' = mem_base s" and "bitmap s' = bitmap s" and "total_pages s' = total_pages s"
    and "serial_console s' = serial_console s" and "uart0 s' = uart0 s"
proof -
  note wf = alloc_readyD [OF assms(1)]
  let ?idx = "unat (page_index ptr (mem_base s))"
  obtain s' where s': "reserve_page ptr n s = (True, s')"
    "\<And>k. page_used s' k \<longleftrightarrow> page_used s k \<or> (?idx \<le> k \<and> k < ?idx + unat n)"
    "\<And>x. \<not> in_bitmap s x \<Longrightarrow> mem s' x = mem s x"
    "mem_base s' = mem_base s" "bitmap s' = bitmap s" "total_pages s' = total_pages s"
    "serial_console s' = serial_console s" "uart0 s' = uart0 s"
    using reserve_page_in_pool [OF assms(1,3,4)] by metis
  have "4096 dvd unat ptr - unat (mem_base s)"
    using assms(2) wf by (simp add: page_aligned_dvd alloc_wf_def)
  then have ptr: "unat ptr = unat (mem_base s) + 4096 * ?idx"
    using in_pool_index(1) [OF wf assms(4)] assms(4) by (simp add: in_pool_def)
  have "?idx \<le> k \<and> k < ?idx + unat n \<longleftrightarrow>
      unat ptr \<le> unat (page_addr s k) \<and> unat (page_addr s k) < unat ptr + 4096 * unat n"
    if "k < unat (total_pages s)" for k
    unfolding ptr unat_page_addr [OF wf that] by auto
  with s' show thesis by (intro that [of s']) simp_all
qed

text \<open>
  C30: reserving a page-aligned range inside the pool succeeds and marks as used exactly the pages
  the range covers, whatever their state before; nothing but bitmap bytes is written.
\<close>

theorem reserve_page_marks:
  assumes "alloc_ready s" and "page_aligned ptr" and "ptr \<noteq> 0" and "in_pool s ptr (unat n)"
  shows "fst (reserve_page ptr n s) \<and>
    (\<forall>k < unat (total_pages s). page_used (snd (reserve_page ptr n s)) k \<longleftrightarrow>
      page_used s k \<or>
      (unat ptr \<le> unat (page_addr s k) \<and> unat (page_addr s k) < unat ptr + 4096 * unat n)) \<and>
    (\<forall>x. \<not> in_bitmap s x \<longrightarrow> mem (snd (reserve_page ptr n s)) x = mem s x)"
proof -
  obtain s' where "reserve_page ptr n s = (True, s')"
    "\<And>k. k < unat (total_pages s) \<Longrightarrow> page_used s' k \<longleftrightarrow> page_used s k \<or>
      (unat ptr \<le> unat (page_addr s k) \<and> unat (page_addr s k) < unat ptr + 4096 * unat n)"
    "\<And>x. \<not> in_bitmap s x \<Longrightarrow> mem s' x = mem s x"
    by (rule reserve_page_addresses [OF assms]) blast
  then show ?thesis by simp
qed

lemma demo_ready [simp]: "alloc_ready demo_kernel"
  by (simp add: alloc_ready_def)

theorem reserve_page_marks_witness:
  "in_pool demo_kernel 0x40005000 (unat (2 :: u64)) \<and>
   fst (reserve_page 0x40005000 2 demo_kernel) \<and>
   page_used (snd (reserve_page 0x40005000 2 demo_kernel)) 6 \<and>
   \<not> page_used (snd (reserve_page 0x40005000 2 demo_kernel)) 7"
proof -
  have pool: "in_pool demo_kernel 0x40005000 (unat (2 :: u64))"
    by (simp add: in_pool_def)
  have al: "page_aligned 0x40005000" by (simp add: page_aligned_def)
  show ?thesis
    using reserve_page_marks [OF demo_ready al _ pool] pool
    by (simp add: demo_used unat_page_addr)
qed

text \<open>
  the bounds check of \<open>reserve_page\<close> is computed with wrap-around: a request for \<open>2 ^ 52\<close>
  pages at the start of the pool has a byte size of 0 modulo \<open>2 ^ 64\<close>, is accepted although it
  is far larger than the pool, and sets bits for page numbers that do not exist.
\<close>

theorem reserve_page_overflow_accepted:
  assumes "alloc_ready s"
  shows "fst (reserve_page (mem_base s) (2 ^ 52) s) \<and>
    (\<forall>i < 2 ^ 52. is_used i (snd (reserve_page (mem_base s) (2 ^ 52) s)) \<noteq> 0)"
proof -
  have sz: "(2 ^ 52 :: u64) * PAGE_SIZE = 0" by (simp add: PAGE_SIZE_def)
  have "\<not> mem_base s > mem_base s + total_pages s * PAGE_SIZE"
    using pool_bounds [OF alloc_readyD [OF assms]] by (simp add: word_less_nat_alt)
  moreover have "page_index (mem_base s) (mem_base s) = 0" by (simp add: page_index_def)
  ultimately have run: "reserve_page (mem_base s) (2 ^ 52) s =
      (True, klog ''PAGE: Reserved %u pages at %p (index %u)\<newline>''
        [A64 (2 ^ 52), APtr (mem_base s), A64 0] (for_words 0 (2 ^ 52) (\<lambda>i. bm_set (0 + i)) s))"
    using assms sz by (simp add: reserve_page_def alloc_ready_def Let_def)
  show ?thesis
    unfolding run by (simp add: bm.test_put_offsets del: add_0) (simp only: add_0, blast)
qed

theorem reserve_page_overflow_accepted_witness:
  "fst (reserve_page 0x40000000 (2 ^ 52) demo_kernel)"
  using reserve_page_overflow_accepted [OF demo_ready] by simp

section \<open>Release\<close>

text \<open>
  C14: \<open>page_free\<close> of a pointer into the pool makes free exactly the pages of the range that
  are inside the pool (a range that runs past the end is cut there), and writes nothing but
  bitmap bytes.
\<close>

theorem page_free_clears:
  assumes "alloc_wf s" and "page_aligned ptr" and "ptr \<noteq> 0" and "in_pool s ptr 1"
    and "unat ptr + 4096 * unat n < 2 ^ 64"
  shows "(\<forall>k < unat (total_pages s). page_used (page_free ptr n s) k \<longleftrightarrow> page_used s k \<and>
      \<not> (unat ptr \<le> unat (page_addr s k) \<and> unat (page_addr s k) < unat ptr + 4096 * unat n)) \<and>
    (\<forall>x. \<not> in_bitmap s x \<longrightarrow> mem (page_free ptr n s) x = mem s x)"
proof -
  let ?idx = "unat (page_index ptr (mem_base s))"
  have "4096 dvd unat ptr - unat (mem_base s)"
    using assms(1,2) by (simp add: page_aligned_dvd alloc_wf_def)
  then have ptr: "unat ptr = unat (mem_base s) + 4096 * ?idx"
    using in_pool_index(1) [OF assms(1,4)] assms(4) by (simp add: in_pool_def)
  have sum: "?idx + unat n < 2 ^ 64"
    using assms(5) ptr by linarith
  have "?idx \<le> k \<and> k < ?idx + unat n \<longleftrightarrow>
      unat ptr \<le> unat (page_addr s k) \<and> unat (page_addr s k) < unat ptr + 4096 * unat n"
    if "k < unat (total_pages s)" for k
    unfolding ptr unat_page_addr [OF assms(1) that] by auto
  then show ?thesis
    by (simp add: page_free_effect [OF assms(1,3,4) sum])
qed

theorem page_free_clears_witness:
  "in_pool demo_kernel 0x40002000 1 \<and> page_used demo_kernel 2 \<and>
   \<not> page_used (page_free 0x40002000 100 demo_kernel) 2"
proof -
  have "in_pool demo_kernel 0x40002000 1" by (simp add: in_pool_def)
  moreover have "page_aligned 0x40002000" by (simp add: page_aligned_def)
  ultimately show ?thesis
    using page_free_clears [OF demo_wf, of "0x40002000" 100]
    by (simp add: demo_used unat_page_addr)
qed

lemma alloc_ptr_index:
  assumes "alloc_wf s" and "k < unat (total_pages s)"
  shows "in_pool s (page_addr s k) 1" and "unat (page_index (page_addr s k) (mem_base s)) = k"
proof -
  show pool: "in_pool s (page_addr s k) 1"
    using assms(2) by (simp add: in_pool_def unat_page_addr [OF assms])
  show "unat (page_index (page_addr s k) (mem_base s)) = k"
    using in_pool_index(1) [OF assms(1) pool] by (simp add: unat_page_addr [OF assms])
qed

text \<open>
  C22: freeing what was just allocated, with the size it was allocated with, restores the set
  of used pages.
\<close>

theorem page_alloc_free_roundtrip:
  assumes "source_inv s" and "page_alloc n s = (p, s')" and "p \<noteq> 0"
  shows "page_used (page_free p n s') = page_used s"
proof (rule ext)
  fix j
  have wf: "alloc_wf s" using assms(1) by (simp add: source_inv_def)
  note eff = page_alloc_effect [OF assms(1,2)]
  have wf': "alloc_wf s'" using wf alloc_wf_cong [OF eff(1,3,2)] by simp
  obtain k where k: "p = page_addr s k" "k + unat n \<le> unat (total_pages s)" "n \<noteq> 0"
    "free_run (page_used s) k (unat n)"
    "\<And>j. page_used s' j \<longleftrightarrow> page_used s j \<or> (k \<le> j \<and> j < k + unat n)"
    using eff(6) [OF assms(3)] by blast
  have lt: "k < unat (total_pages s')"
    using k(2,3) eff(3) by (simp add: unat_gt_0 [symmetric])
  have p: "p = page_addr s' k" using k(1) by (simp add: page_addr_cong [OF eff(1)])
  have idx: "unat (page_index p (mem_base s')) = k" and pool: "in_pool s' p 1"
    unfolding p by (rule alloc_ptr_index [OF wf' lt])+
  have "unat (page_index p (mem_base s')) + unat n < 2 ^ 64"
    using wf k(2) idx by (simp add: alloc_wf_def)
  from page_free_effect(1) [OF wf' assms(3) pool this, of j]
  show "page_used (page_free p n s') j = page_used s j"
    using k(4,5) unfolding idx by (auto simp: free_run_iff)
qed

theorem page_alloc_free_roundtrip_witness:
  "fst (page_alloc 1 demo_kernel) \<noteq> 0 \<and>
   page_used (page_free (fst (page_alloc 1 demo_kernel)) 1 (snd (page_alloc 1 demo_kernel)))
     = page_used demo_kernel"
  using page_alloc_free_roundtrip [OF demo_safe surjective_pairing, of 1]
  by (simp add: demo_alloc)

text \<open>
  the truncation test of \<open>page_free\<close> adds with wrap-around: for a page count whose sum
  with the page number is exactly \<open>2 ^ 64\<close> the range is taken to be in bounds and the loop frees
  no page at all, where it should free everything up to the end of the pool.
\<close>

theorem page_free_overflow_frees_nothing:
  assumes "alloc_wf s" and "ptr \<noteq> 0" and "in_pool s ptr 1"
    and "page_index ptr (mem_base s) \<noteq> 0"
  shows "page_used (page_free ptr (- page_index ptr (mem_base s)) s) = page_used s"
proof -
  let ?idx = "page_index ptr (mem_base s)"
  have bounds: "\<not> ptr < mem_base s" "\<not> mem_base s + total_pages s * PAGE_SIZE \<le> ptr"
    using assms(3) pool_bounds [OF assms(1)]
    by (simp_all add: in_pool_def word_less_nat_alt word_le_nat_alt)
  have "page_free ptr (- ?idx) s =
      klog ''PAGE: Freeing %u pages at %p\<newline>'' [A64 (- ?idx), APtr ptr] s"
    using assms(2) bounds by (simp add: page_free_def Let_def for_words_done)
  then show ?thesis by simp
qed

theorem page_free_overflow_frees_nothing_witness:
  "page_index 0x40002000 (mem_base demo_kernel) = 2 \<and>
   page_used (page_free 0x40002000 (- 2) demo_kernel) 2"
proof -
  have pool: "in_pool demo_kernel 0x40002000 1" by (simp add: in_pool_def)
  have "unat (page_index 0x40002000 (mem_base demo_kernel)) = unat (2 :: u64)"
    using in_pool_index(1) [OF demo_wf pool] by simp
  then have idx: "page_index 0x40002000 (mem_base demo_kernel) = 2"
    by (simp only: word_unat_eq_iff)
  then show ?thesis
    using page_free_overflow_frees_nothing [OF demo_wf _ pool] by (simp add: demo_used)
qed

section \<open>Initialisation\<close>

text \<open>
  C29: on a region the allocator can manage \<open>page_init\<close> succeeds. The pool then starts at the
  first page boundary of the region and ends inside it, every page is free, the state is
  well-formed, and only bytes of the bitmap were written.
\<close>

theorem page_init_establishes:
  assumes "region_ok lk start sz"
  shows "\<exists>s'. page_init lk start sz s = (True, s') \<and> alloc_wf s' \<and>
    unat start \<le> unat (mem_base s') \<and> unat (mem_base s') < unat start + 4096 \<and>
    unat (mem_base s') + 4096 * unat (total_pages s') \<le> unat start + unat sz \<and>
    unat start + unat sz < unat (mem_base s') + 4096 * (unat (total_pages s') + 1) \<and>
    bitmap s' = page_allocator_bit_map_start lk \<and>
    (\<forall>k. \<not> page_used s' k) \<and> (\<forall>x. \<not> in_bitmap s' x \<longrightarrow> mem s' x = mem s x)"
proof -
  obtain s' where s': "page_init lk start sz s = (True, s')" "pool_initialised lk start sz s'"
    "\<And>k. \<not> page_used s' k" "\<And>x. \<not> in_bitmap s' x \<Longrightarrow> mem s' x = mem s x"
    using page_init_run [OF assms] by metis
  have st: "mem_base s' = pool_start start" "total_pages s' = pool_pages start sz"
    "bitmap s' = page_allocator_bit_map_start lk"
    using s'(2) by (simp_all add: pool_initialised_def)
  let ?d = "unat start + unat sz - unat (pool_start start)"
  have lt: "unat (pool_start start) < unat start + unat sz"
    by (rule region_ok_bounds(2) [OF assms])
  have "4096 * (?d div 4096) \<le> ?d" and "?d < 4096 * (?d div 4096 + 1)" by simp_all
  then have "unat (mem_base s') + 4096 * unat (total_pages s') \<le> unat start + unat sz"
    and "unat start + unat sz < unat (mem_base s') + 4096 * (unat (total_pages s') + 1)"
    unfolding st unat_pool_pages [OF assms] using lt by linarith+
  moreover have "unat start \<le> unat (mem_base s')" "unat (mem_base s') < unat start + 4096"
    unfolding st using assms by (simp_all add: pool_start_bounds region_ok_def)
  ultimately show ?thesis
    using s' st(3) pool_initialised_wf [OF assms s'(2)] by blast
qed

text \<open>The linker symbols as the linker script lays them out, with an image of \<open>0x20000\<close> bytes,
  and the memory of a small machine.\<close>

definition demo_linker :: linker where
  "demo_linker = \<lparr>page_allocator_bit_map_start = 0x40004000,
     page_allocator_bit_map_end = 0x40014000, image_start = 0x40000000, image_end = 0x40020000\<rparr>"

lemma demo_region: "region_ok demo_linker 0x40000000 0x8000000"
  by (simp add: region_ok_def demo_linker_def pool_pages_def pool_start_def PAGE_SIZE_def)

theorem page_init_establishes_witness:
  "region_ok demo_linker 0x40000000 0x8000000 \<and>
   fst (page_init demo_linker 0x40000000 0x8000000 console_kernel)"
  using page_init_establishes [OF demo_region, of console_kernel] demo_region by auto

text \<open>
  when the region needs a larger bitmap than the linker reserved, \<open>page_init\<close> fails but
  leaves the base and the page count of the region in place next to the old bitmap pointer: a
  first call leaves a null bitmap with a non-zero page count, which \<open>page_alloc\<close>, unlike
  \<open>reserve_page\<close>, does not check.
\<close>

theorem page_init_failure_half_initialised:
  assumes "sz > pool_start start - start"
    and "(pool_pages start sz + 7) div 8 >
      page_allocator_bit_map_end lk - page_allocator_bit_map_start lk"
  shows "\<not> fst (page_init lk start sz s) \<and>
    mem_base (snd (page_init lk start sz s)) = pool_start start \<and>
    total_pages (snd (page_init lk start sz s)) = pool_pages start sz \<and>
    bitmap (snd (page_init lk start sz s)) = bitmap s"
proof -
  have "\<not> sz \<le> pool_start start - start" using assms(1) by (simp add: not_le)
  then show ?thesis
    using assms(2)
    by (simp add: page_init_def Let_def pool_start_def [symmetric] pool_pages_def [symmetric])
qed

theorem page_init_failure_half_initialised_witness:
  "\<not> fst (page_init demo_linker 0x40000000 0x100000000 console_kernel) \<and>
   total_pages (snd (page_init demo_linker 0x40000000 0x100000000 console_kernel)) = 0x100000 \<and>
   bitmap (snd (page_init demo_linker 0x40000000 0x100000000 console_kernel)) = 0"
  using page_init_failure_half_initialised [of "0x40000000" "0x100000000" demo_linker console_kernel]
  by (simp add: pool_start_def pool_pages_def PAGE_SIZE_def demo_linker_def console_kernel_def)

end
