(* ===== verification/DumpProps.thy ===== *)
theory DumpProps
  imports AllocatorTheorems
begin

text \<open>
  The status dump of the allocator: it stops, and the text it sends lists the maximal runs of used
  and of free pages, in order, without gaps.
\<close>

section \<open>Runs\<close>

text \<open>The maximal runs of equal elements of a list, as triples (first index, index after the last,
  element); the scan is at index \<open>i\<close>, in a run of \<open>cur\<close> that began at \<open>start\<close>.\<close>

fun runs_from :: "bool \<Rightarrow> nat \<Rightarrow> nat \<Rightarrow> bool list \<Rightarrow> (nat \<times> nat \<times> bool) list" where
  "runs_from cur start i [] = [(start, i, cur)]"
| "runs_from cur start i (b # bs) =
     (if b = cur then runs_from cur start (Suc i) bs
      else (start, i, cur) # runs_from b i (Suc i) bs)"

fun runs :: "bool list \<Rightarrow> (nat \<times> nat \<times> bool) list" where
  "runs [] = []"
| "runs (b # bs) = runs_from b 0 1 bs"

text \<open>Laid end to end the runs give back the list; each is non-empty, starts where the one before
  ends, and differs from it.\<close>

definition expand_run :: "nat \<times> nat \<times> bool \<Rightarrow> bool list" where
  "expand_run r = (case r of (a, b, u) \<Rightarrow> replicate (b - a) u)"

fun chained :: "nat \<Rightarrow> (nat \<times> nat \<times> bool) list \<Rightarrow> bool" where
  "chained k [] = True"
| "chained k ((a, b, u) # rs) =
     (a = k \<and> a < b \<and> (case rs of [] \<Rightarrow> True | (_, _, v) # _ \<Rightarrow> v \<noteq> u) \<and> chained b rs)"

lemma runs_from_expand:
  "start \<le> i \<Longrightarrow> concat (map expand_run (runs_from cur start i bs)) = replicate (i - start) cur @ bs"
proof (induction cur start i bs rule: runs_from.induct)
  case (2 cur start i b bs)
  then show ?case
    by (cases "b = cur") (simp_all add: expand_run_def Suc_diff_le replicate_app_Cons_same)
qed (simp add: expand_run_def)

lemma runs_from_head: "\<exists>e rs. runs_from cur start i bs = (start, e, cur) # rs"
  by (induction cur start i bs rule: runs_from.induct) auto

lemma runs_from_chained: "start < i \<Longrightarrow> chained start (runs_from cur start i bs)"
proof (induction cur start i bs rule: runs_from.induct)
  case (2 cur start i b bs)
  obtain e rs where "runs_from b i (Suc i) bs = (i, e, b) # rs"
    using runs_from_head by blast
  with 2 show ?case by auto
qed simp

lemma runs_expand: "concat (map expand_run (runs bs)) = bs"
  by (cases bs) (simp_all add: runs_from_expand)

lemma runs_chained: "chained 0 (runs bs)"
  by (cases bs) (simp_all add: runs_from_chained)

section \<open>The dump\<close>

lemma send_frame [simp, frame]:
  shows "mem (send cs s) = mem s" and "mem_base (send cs s) = mem_base s"
    and "bitmap (send cs s) = bitmap s" and "total_pages (send cs s) = total_pages s"
    and "uart0 (send cs s) = uart0 s" and "serial_console (send cs s) = serial_console s"
    and "faults (send cs s) = faults s"
  by (simp_all add: send_def)

lemma is_used_send [simp, frame]: "is_used i (send cs s) = is_used i s"
  by (simp add: is_used_def bm_byte_def)

definition dump_line :: "u64 \<Rightarrow> nat \<times> nat \<times> bool \<Rightarrow> string" where
  "dump_line base r = (case r of (a, b, u) \<Rightarrow>
     render ''  [0x%lx - 0x%lx] %s (%u pages)\<newline>''
       [A64 (base + word_of_nat a * PAGE_SIZE), A64 (base + word_of_nat b * PAGE_SIZE - 1),
        AStr (Some (if u then ''USED'' else ''FREE'')), A64 (word_of_nat b - word_of_nat a)])"

lemma dump_line_fmt:
  "fmt_ok ''  [0x%lx - 0x%lx] %s (%u pages)\<newline>''
     [A64 a, A64 b, AStr (Some (if u then ''USED'' else ''FREE'')), A64 c]"
  by (cases u) (simp_all add: is_num_conv_def)

lemma klog_dump_line:
  assumes "console_up s" and "word_of_nat a = x" and "word_of_nat b = y"
  shows "klog ''  [0x%lx - 0x%lx] %s (%u pages)\<newline>''
      [A64 (base + x * PAGE_SIZE), A64 (base + y * PAGE_SIZE - 1),
       AStr (Some (if u then ''USED'' else ''FREE'')), A64 (y - x)] s =
    send (dump_line base (a, b, u)) s"
  unfolding klog_send [OF assms(1) dump_line_fmt] dump_line_def prod.case assms(2,3) ..

lemma page_dump_done: "\<not> i \<le> total_pages s \<Longrightarrow> page_dump_loop i start cur s = Some s"
  by (subst page_dump_loop.simps) simp

lemma page_dump_block:
  assumes "console_up s" and "i \<le> total_pages s"
    and "status \<noteq> cur \<or> i = total_pages s"
    and "status = (if i < total_pages s then page_status i s else 0)"
    and "cur = (if c then 1 else 0)"
  shows "page_dump_loop i start cur s =
    page_dump_loop (i + 1) i status (send (dump_line (mem_base s) (unat start, unat i, c)) s)"
proof -
  note line = klog_dump_line [OF assms(1), of "unat start" start "unat i" i "mem_base s" c, simplified]
  have "(if cur \<noteq> 0 then ''USED'' else ''FREE'') = (if c then ''USED'' else ''FREE'')"
    using assms(5) by simp
  then show ?thesis
    using assms(2-4) by (subst page_dump_loop.simps) (simp only: Let_def if_True line)
qed

text \<open>The loop, over the used bits of the pages from \<open>i\<close> on.\<close>

lemma page_dump_loop_runs:
  assumes "alloc_wf s" and "console_up s" and "unat i + length bs = unat (total_pages s)"
    and "bs = map (page_used s) [unat i ..< unat (total_pages s)]"
    and "cur = (if c then 1 else 0)" and "unat start \<le> unat i"
  shows "page_dump_loop i start cur s =
    Some (send (concat (map (dump_line (mem_base s)) (runs_from c (unat start) (unat i) bs))) s)"
  using assms
proof (induction bs arbitrary: i start cur c s)
  case Nil
  then have i: "i = total_pages s" by (simp add: word_unat_eq_iff)
  have "unat i < 2 ^ 51" using Nil.prems(1) i by (simp add: alloc_wf_def)
  then have "unat (i + 1) = unat i + 1" by (subst unat_add_no_wrap) simp_all
  then have over: "\<not> i + 1 \<le> total_pages s" by (simp add: i word_le_nat_alt)
  have "page_dump_loop i start cur s = page_dump_loop (i + 1) i 0
      (send (dump_line (mem_base s) (unat start, unat i, c)) s)"
    by (rule page_dump_block) (use i Nil.prems(2,5) in simp_all)
  then show ?case
    using over by (simp add: page_dump_done)
next
  case (Cons b bs)
  have less: "i < total_pages s" using Cons.prems(3) by (simp add: word_less_nat_alt)
  have up: "[unat i ..< unat (total_pages s)] = unat i # [Suc (unat i) ..< unat (total_pages s)]"
    using less by (simp add: word_less_nat_alt upt_conv_Cons)
  have b: "b = page_used s (unat i)" and
    bs: "bs = map (page_used s) [unat (i + 1) ..< unat (total_pages s)]"
    using Cons.prems(4) unat_add1 [OF less] by (simp_all add: up)
  have used: "b \<longleftrightarrow> is_used i s \<noteq> 0"
    using less by (simp add: b page_used_def word_less_nat_alt)
  have len: "unat (i + 1) + length bs = unat (total_pages s)"
    using Cons.prems(3) unat_add1 [OF less] by simp
  have neq: "i \<noteq> total_pages s" using less by simp
  have st: "page_status i s = (if b then 1 else 0)" by (simp add: page_status_def used)
  show ?case
  proof (cases "b = c")
    case True
    have "page_dump_loop (i + 1) start cur s = Some (send (concat (map (dump_line (mem_base s))
        (runs_from c (unat start) (unat (i + 1)) bs))) s)"
      by (rule Cons.IH [OF Cons.prems(1,2) len bs Cons.prems(5)])
        (use Cons.prems(6) unat_add1 [OF less] in simp)
    then show ?thesis
      using less neq True Cons.prems(5)
      by (subst page_dump_loop.simps) (simp add: st unat_add1 [OF less])
  next
    case False
    let ?s = "send (dump_line (mem_base s) (unat start, unat i, c)) s"
    have wf: "alloc_wf ?s = alloc_wf s" by (rule alloc_wf_cong) simp_all
    have pu: "page_used ?s = page_used s" by (rule ext) (simp add: page_used_def)
    have "page_dump_loop (i + 1) i (if b then 1 else 0) ?s =
        Some (send (concat (map (dump_line (mem_base s)) (runs_from b (unat i) (unat (i + 1)) bs))) ?s)"
      using Cons.IH [of ?s "i + 1" "if b then 1 else 0" b i] Cons.prems(1,2) len bs unat_add1 [OF less]
      by (simp add: wf pu)
    moreover have "page_dump_loop i start cur s = page_dump_loop (i + 1) i (if b then 1 else 0) ?s"
      by (rule page_dump_block) (use less neq False Cons.prems(2,5) st in simp_all)
    ultimately show ?thesis
      using False by (simp add: unat_add1 [OF less])
  qed
qed

definition used_map :: "kernel \<Rightarrow> bool list" where
  "used_map s = map (page_used s) [0 ..< unat (total_pages s)]"

definition dump_head :: "kernel \<Rightarrow> string" where
  "dump_head s =
     render ''--- Physical Page Dump ---\<newline>'' [] @
     render ''Managed Range: 0x%lx - 0x%lx (%u pages)\<newline>''
       [A64 (mem_base s), A64 (mem_base s + total_pages s * PAGE_SIZE), A64 (total_pages s)]"

lemma page_dump_status_lines:
  assumes "alloc_wf s" and "total_pages s \<noteq> 0" and "console_up s"
  shows "\<exists>rs. page_dump_status s = Some (send (dump_head s @
      concat (map (dump_line (mem_base s)) rs) @ render ''--- End of Dump ---\<newline>'' []) s) \<and>
    concat (map expand_run rs) = map (page_used s) [0 ..< unat (total_pages s)] \<and> chained 0 rs"
proof -
  let ?s = "send (dump_head s) s"
  have wf: "alloc_wf ?s" using assms(1) by (subst alloc_wf_cong [of _ s]) simp_all
  have pu: "page_used ?s = page_used s" by (rule ext) (simp add: page_used_def)
  have pos: "0 < unat (total_pages s)" using assms(2) by (simp add: unat_gt_0)
  then have up: "[0 ..< unat (total_pages s)] = 0 # [1 ..< unat (total_pages s)]"
    by (simp add: upt_conv_Cons)
  let ?bs = "map (page_used s) [1 ..< unat (total_pages s)]"
  have c: "page_status 0 s = (if page_used s 0 then 1 else 0)"
    using pos by (simp add: page_status_def page_used_def)
  have up_s: "console_up ?s" using assms(3) by simp
  have "page_dump_loop 1 0 (page_status 0 s) ?s = Some (send (concat (map (dump_line (mem_base s))
      (runs_from (page_used s 0) 0 1 ?bs))) ?s)"
    using page_dump_loop_runs [OF wf up_s, of 1 ?bs "page_status 0 s" "page_used s 0" 0] pos
    by (simp add: pu c)
  moreover have ok: "fmt_ok ''--- Physical Page Dump ---\<newline>'' []"
    "fmt_ok ''Managed Range: 0x%lx - 0x%lx (%u pages)\<newline>'' [A64 x, A64 y, A64 z]"
    "fmt_ok ''--- End of Dump ---\<newline>'' []" for x y z
    by (simp_all add: is_num_conv_def)
  moreover have "page_status 0 (send cs s) = page_status 0 s" for cs
    by (simp add: page_status_def)
  ultimately have "page_dump_status s = Some (send (dump_head s @
      concat (map (dump_line (mem_base s)) (runs (used_map s))) @
      render ''--- End of Dump ---\<newline>'' []) s)"
    using assms(2,3)
    by (simp add: page_dump_status_def klog_send dump_head_def used_map_def up del: render.simps fmt_match.simps)
  then show ?thesis
    using runs_expand [of "used_map s"] runs_chained [of "used_map s"] unfolding used_map_def by blast
qed

text \<open>
  C35: on a well-formed, non-empty pool the dump terminates, changes nothing but the output, and
  prints one line for each maximal run of equally used pages.
\<close>

theorem page_dump_status_runs:
  assumes "alloc_wf s" and "total_pages s \<noteq> 0" and "console_up s"
  shows "\<exists>rs. page_dump_status s = Some (send (dump_head s @
      concat (map (dump_line (mem_base s)) rs) @ render ''--- End of Dump ---\<newline>'' []) s) \<and>
    concat (map expand_run rs) = map (page_used s) [0 ..< unat (total_pages s)] \<and> chained 0 rs"
  by (rule page_dump_status_lines [OF assms])

theorem page_dump_status_runs_witness:
  "\<exists>s'. page_dump_status demo_kernel = Some s' \<and> mem s' = mem demo_kernel"
proof -
  have "console_up demo_kernel" by (simp add: demo_kernel_def console_up_def console_kernel_def
      pl011_init_def)
  from page_dump_status_runs [OF demo_wf _ this] obtain cs where
    "page_dump_status demo_kernel = Some (send cs demo_kernel)" by auto
  then show ?thesis by (simp del: demo_sel)
qed

end
