(* ===== verification/Fdt.thy ===== *)
theory Fdt
  imports DumpProps
begin

text \<open>
  The device tree, \<^verbatim>\<open>src/kernel/fdt/fdt.c\<close>. The library \<^verbatim>\<open>libfdt\<close> is not part of the
  repository: its functions and error codes are the fields of the record \<open>libfdt\<close>, a parameter of
  every definition here. They read the blob in memory and change nothing. A C \<^verbatim>\<open>int\<close> that only
  these functions produce is an \<open>int\<close>.
\<close>

section \<open>The interface of libfdt\<close>

record libfdt =
  fdt_check_header :: "memory \<Rightarrow> u64 \<Rightarrow> int"
  fdt_path_offset :: "memory \<Rightarrow> u64 \<Rightarrow> string \<Rightarrow> int"
  fdt_address_cells :: "memory \<Rightarrow> u64 \<Rightarrow> int \<Rightarrow> int"
  fdt_size_cells :: "memory \<Rightarrow> u64 \<Rightarrow> int \<Rightarrow> int"
  fdt_node_offset_by_prop_value :: "memory \<Rightarrow> u64 \<Rightarrow> int \<Rightarrow> string \<Rightarrow> string \<Rightarrow> int \<Rightarrow> int"
  fdt_getprop :: "memory \<Rightarrow> u64 \<Rightarrow> int \<Rightarrow> string \<Rightarrow> u64 \<times> int"
  fdt32_to_cpu :: "u32 \<Rightarrow> u32"
  FDT_ERR_BADMAGIC :: int
  FDT_ERR_BADVERSION :: int
  FDT_ERR_BADSTATE :: int
  FDT_ERR_INTERNAL :: int

section \<open>Validation\<close>

definition check_fdt :: "libfdt \<Rightarrow> u64 \<Rightarrow> kernel \<Rightarrow> bool \<times> kernel" where
  "check_fdt lib ptr s =
     (if ptr = 0 then (False, klog ''FDT Error: null DTB address\<newline>'' [] s)
      else
        let err = fdt_check_header lib (mem s) ptr
        in if err = 0 then (True, klog ''Valid fdt\<newline>'' [] s)
           else if err = - FDT_ERR_BADMAGIC lib then
             (False, klog ''FDT Error: Bad magic number\<newline>'' [] s)
           else if err = - FDT_ERR_BADVERSION lib then
             (False, klog ''FDT Error: Unsupported FDT version\<newline>'' [] s)
           else if err = - FDT_ERR_BADSTATE lib then
             (False, klog ''FDT Error: Bad state\<newline>'' [] s)
           else (False, klog ''FDT Error: Unknown error code %d\<newline>'' [A32 (word_of_int err)] s))"

section \<open>The memory map\<close>

definition MAX_MEM_REGIONS :: nat where
  "MAX_MEM_REGIONS = 16"

record memory_region =
  region_base :: u64
  region_size :: u64

text \<open>The array of regions is a list of \<open>MAX_MEM_REGIONS\<close> elements, of any initial content.\<close>

record memory_map =
  regions :: "memory_region list"
  region_count :: int

text \<open>\<^verbatim>\<open>sizeof(fdt32_t)\<close>, and the cell at index \<open>j\<close> of an array of cells.\<close>

definition cell_at :: "memory \<Rightarrow> u64 \<Rightarrow> u64 \<Rightarrow> u32" where
  "cell_at m ptr j = load32 m (ptr + 4 * j)"

text \<open>\<^verbatim>\<open>for (j = 0; j < n; j++) acc = (acc << 32) | fdt32_to_cpu(ptr[first + j])\<close>, from 0.\<close>

definition read_cells :: "libfdt \<Rightarrow> memory \<Rightarrow> u64 \<Rightarrow> u64 \<Rightarrow> u64 \<Rightarrow> u64" where
  "read_cells lib m ptr first n =
     for_words 0 n (\<lambda>j acc. push_bit 32 acc OR ucast (fdt32_to_cpu lib (cell_at m ptr (first + j)))) 0"

text \<open>\<^verbatim>\<open>regions[k] = r\<close>. A store past the end of the array shows as a longer list.\<close>

definition put_region :: "nat \<Rightarrow> memory_region \<Rightarrow> memory_region list \<Rightarrow> memory_region list" where
  "put_region k r rs = (if k < length rs then rs[k := r] else rs @ [r])"

text \<open>The body of the loop over the entries of one \<^verbatim>\<open>reg\<close> property; a full map stops it.\<close>

definition read_entry ::
  "libfdt \<Rightarrow> memory \<Rightarrow> u64 \<Rightarrow> int \<Rightarrow> int \<Rightarrow> u64 \<Rightarrow> memory_map \<Rightarrow> memory_map" where
  "read_entry lib m reg address_cell size_cell i mmap =
     (if region_count mmap \<ge> int MAX_MEM_REGIONS then mmap
      else
        let ptr = reg + 4 * (i * word_of_int (address_cell + size_cell));
            base = read_cells lib m ptr 0 (word_of_int address_cell);
            size = read_cells lib m ptr (word_of_int address_cell) (word_of_int size_cell)
        in if size > 0 then
             mmap\<lparr>regions := put_region (nat (region_count mmap))
                     \<lparr>region_base = base, region_size = size\<rparr> (regions mmap),
                  region_count := region_count mmap + 1\<rparr>
           else mmap)"

text \<open>
  The loop over the memory nodes. Nothing in this code bounds it: whether it ends is up to the
  offsets libfdt returns, so not returning is \<open>None\<close>.
\<close>

definition memory_value :: string where
  "memory_value = ''memory'' @ [CHR 0x00]"

partial_function (option) get_mem_loop ::
  "libfdt \<Rightarrow> u64 \<Rightarrow> int \<Rightarrow> int \<Rightarrow> int \<Rightarrow> memory_map \<Rightarrow> kernel \<Rightarrow> (int \<times> memory_map \<times> kernel) option"
where
  [code]: "get_mem_loop lib fdt address_cell size_cell node mmap s =
     (let node = fdt_node_offset_by_prop_value lib (mem s) fdt node ''device_type'' memory_value 7
      in if \<not> node \<ge> 0 then Some (0, mmap, s)
         else
           let (reg, len) = fdt_getprop lib (mem s) fdt node ''reg''
           in if reg = 0 \<or> len \<le> 0 then get_mem_loop lib fdt address_cell size_cell node mmap s
              else
                let entry_size = word_of_int (address_cell + size_cell) * 4 :: u64
                in if word_of_int len < entry_size \<or> word_of_int len mod entry_size \<noteq> 0 then
                     Some (- FDT_ERR_BADSTATE lib, mmap,
                      klog ''FDT Error: memory \"reg\" length %d is not a multiple of entry size %zu\<newline>''
                        [A32 (word_of_int len), A64 entry_size] s)
                   else
                     let num_entries = word_of_int len div entry_size;
                         mmap = for_words 0 num_entries
                                  (read_entry lib (mem s) reg address_cell size_cell) mmap
                     in get_mem_loop lib fdt address_cell size_cell node mmap s)"

definition get_mem ::
  "libfdt \<Rightarrow> u64 \<Rightarrow> memory_map option \<Rightarrow> kernel \<Rightarrow> (int \<times> memory_map option \<times> kernel) option"
where
  "get_mem lib fdt mmap s =
     (case mmap of
        None \<Rightarrow> Some (- FDT_ERR_INTERNAL lib, mmap, s)
      | Some mm \<Rightarrow>
          if fdt = 0 then Some (- FDT_ERR_INTERNAL lib, mmap, s)
          else
            let node = -1;
                mm = mm\<lparr>region_count := 0\<rparr>;
                root = fdt_path_offset lib (mem s) fdt ''/''
            in if root < 0 then Some (root, Some mm, s)
               else
                 let address_cell = fdt_address_cells lib (mem s) fdt root;
                     size_cell = fdt_size_cells lib (mem s) fdt root
                 in if address_cell < 1 \<or> address_cell > 2 \<or> size_cell < 1 \<or> size_cell > 2 then
                      Some (- FDT_ERR_BADSTATE lib, Some mm,
                        klog ''FDT Error: unsupported address/size cell counts %d/%d\<newline>''
                          [A32 (word_of_int address_cell), A32 (word_of_int size_cell)] s)
                    else
                      map_option (\<lambda>(r, mm, s). (r, Some mm, s))
                        (get_mem_loop lib fdt address_cell size_cell node mm s))"

end
