(* ===== verification/FdtProps.thy ===== *)
theory FdtProps
  imports Fdt
begin

text \<open>
  What \<open>get_mem\<close> computes: the first sixteen non-empty entries of the memory nodes, in the order
  libfdt enumerates them; that the array of regions is never overrun; and when it returns at all.
\<close>

section \<open>The abstract memory map\<close>

text \<open>The regions filled so far, and the shape every step keeps.\<close>

definition mapped :: "memory_map \<Rightarrow> memory_region list" where
  "mapped mm = take (nat (region_count mm)) (regions mm)"

definition mm_ok :: "memory_map \<Rightarrow> bool" where
  "mm_ok mm \<longleftrightarrow> length (regions mm) = MAX_MEM_REGIONS \<and>
     0 \<le> region_count mm \<and> region_count mm \<le> int MAX_MEM_REGIONS"

text \<open>
  The number that \<open>n\<close> big-endian cells at \<open>p\<close> stand for, the first cell most significant; entry
  \<open>i\<close> of a \<^verbatim>\<open>reg\<close> property, an address of \<open>ac\<close> cells followed by a size of \<open>sc\<close> cells; and the
  entries of a memory node. The counts are converted to 64 bits as in the code.
\<close>

definition cells_value :: "libfdt \<Rightarrow> memory \<Rightarrow> u64 \<Rightarrow> nat \<Rightarrow> nat" where
  "cells_value lib m p n =
     (\<Sum>j<n. unat (fdt32_to_cpu lib (load32 m (p + 4 * word_of_nat j))) * (2 ^ 32) ^ (n - 1 - j))"

definition reg_entry :: "libfdt \<Rightarrow> memory \<Rightarrow> int \<Rightarrow> int \<Rightarrow> u64 \<Rightarrow> u64 \<Rightarrow> memory_region" where
  "reg_entry lib m ac sc reg i =
     (let ptr = reg + 4 * (i * word_of_int (ac + sc))
      in \<lparr>region_base = word_of_nat (cells_value lib m ptr (unat (word_of_int ac :: u64))),
          region_size = word_of_nat
            (cells_value lib m (ptr + 4 * word_of_int ac) (unat (word_of_int sc :: u64)))\<rparr>)"

definition node_ok :: "libfdt \<Rightarrow> memory \<Rightarrow> u64 \<Rightarrow> int \<Rightarrow> int \<Rightarrow> bool" where
  "node_ok lib m fdt cells node =
     (let (reg, len) = fdt_getprop lib m fdt node ''reg''
      in reg = 0 \<or> len \<le> 0 \<or> len < 2 ^ 31 \<and> len mod (4 * cells) = 0)"

definition node_entries :: "libfdt \<Rightarrow> memory \<Rightarrow> u64 \<Rightarrow> int \<Rightarrow> int \<Rightarrow> int \<Rightarrow> memory_region list" where
  "node_entries lib m fdt ac sc node =
     (let (reg, len) = fdt_getprop lib m fdt node ''reg''
      in if reg = 0 \<or> len \<le> 0 then []
         else map (\<lambda>i. reg_entry lib m ac sc reg (word_of_nat i)) [0 ..< nat (len div (4 * (ac + sc)))])"

text \<open>The memory nodes libfdt finds after a node, in order.\<close>

definition next_memory_node :: "libfdt \<Rightarrow> memory \<Rightarrow> u64 \<Rightarrow> int \<Rightarrow> int" where
  "next_memory_node lib m fdt node =
     fdt_node_offset_by_prop_value lib m fdt node ''device_type'' memory_value 7"

fun node_chain :: "libfdt \<Rightarrow> memory \<Rightarrow> u64 \<Rightarrow> int \<Rightarrow> int list \<Rightarrow> bool" where
  "node_chain lib m fdt node [] \<longleftrightarrow> next_memory_node lib m fdt node < 0"
| "node_chain lib m fdt node (k # ks) \<longleftrightarrow>
     next_memory_node lib m fdt node = k \<and> 0 \<le> k \<and> node_chain lib m fdt k ks"

text \<open>Appending regions as far as they fit, without the empty ones.\<close>

definition add_regions :: "memory_region list \<Rightarrow> memory_region list \<Rightarrow> memory_region list" where
  "add_regions xs ys = take MAX_MEM_REGIONS (xs @ filter (\<lambda>r. region_size r > 0) ys)"

lemma add_regions_add [simp]: "add_regions (add_regions xs ys) zs = add_regions xs (ys @ zs)"
proof -
  have "take n (take n as @ bs) = take n (as @ bs)" for n and as bs :: "memory_region list"
    by (cases "length as \<le> n") simp_all
  then show ?thesis by (simp only: add_regions_def filter_append append_assoc [symmetric])
qed

lemma mapped_take: "mm_ok mm \<Longrightarrow> take MAX_MEM_REGIONS (mapped mm) = mapped mm"
  by (rule take_all) (auto simp: mapped_def mm_ok_def)

lemma add_regions_Nil: "mm_ok mm \<Longrightarrow> add_regions (mapped mm) [] = mapped mm"
  by (simp add: add_regions_def mapped_take)

section \<open>The entries of one property\<close>

lemma cells_value_0 [simp]: "cells_value lib m p 0 = 0"
  by (simp add: cells_value_def)

lemma cells_value_Suc [simp]: "cells_value lib m p (Suc n) = cells_value lib m p n * 2 ^ 32 +
    unat (fdt32_to_cpu lib (load32 m (p + 4 * word_of_nat n)))"
proof -
  have "(2 ^ 32 :: nat) ^ (n - j) = (2 ^ 32) ^ (n - 1 - j) * 2 ^ 32" if "j < n" for j
    using that by (metis Suc_diff_1 diff_commute power_Suc2 zero_less_diff)
  then show ?thesis
    by (simp add: cells_value_def sum_distrib_right mult.assoc)
qed

lemma cells_value_2: "cells_value lib m p 2 =
    unat (fdt32_to_cpu lib (load32 m p)) * 2 ^ 32 + unat (fdt32_to_cpu lib (load32 m (p + 4)))"
  by (simp only: numeral_2_eq_2 cells_value_Suc) simp

lemma join_cells: "push_bit 32 (acc :: u64) OR ucast (c :: u32) = acc * 2 ^ 32 + word_of_nat (unat c)"
proof -
  have "push_bit 32 acc AND ucast c = 0"
    by (rule bit_eqI) (auto simp: bit_simps dest: bit_imp_le_length)
  then have "push_bit 32 acc OR ucast c = push_bit 32 acc + ucast c"
    by (simp add: disjunctive_add_eq_or)
  then show ?thesis by (simp add: push_bit_eq_mult)
qed

lemma read_cells_value:
  "read_cells lib m ptr first n = word_of_nat (cells_value lib m (ptr + 4 * first) (unat n))"
proof -
  have "fold (\<lambda>k acc. push_bit 32 acc OR
      ucast (fdt32_to_cpu lib (cell_at m ptr (first + word_of_nat k)))) [0 ..< k] 0 =
    (word_of_nat (cells_value lib m (ptr + 4 * first) k) :: u64)" for k
    by (induction k) (simp_all add: join_cells cell_at_def algebra_simps)
  then show ?thesis by (simp add: read_cells_def for_words_fold)
qed

lemma read_entry_mapped:
  assumes "mm_ok mm"
  shows "mm_ok (read_entry lib m reg ac sc i mm)"
    and "mapped (read_entry lib m reg ac sc i mm) = add_regions (mapped mm) [reg_entry lib m ac sc reg i]"
proof -
  have "mm_ok (read_entry lib m reg ac sc i mm) \<and>
    mapped (read_entry lib m reg ac sc i mm) = add_regions (mapped mm) [reg_entry lib m ac sc reg i]"
  proof (cases "region_count mm \<ge> int MAX_MEM_REGIONS")
    case True
    then show ?thesis
      using assms by (simp add: read_entry_def mapped_def mm_ok_def add_regions_def)
  next
    case False
    let ?k = "nat (region_count mm)"
    have k: "?k < MAX_MEM_REGIONS" "?k < length (regions mm)" "nat (region_count mm + 1) = Suc ?k"
      "length (mapped mm) = ?k"
      using assms False by (auto simp: mm_ok_def mapped_def)
    have "take (Suc ?k) ((regions mm)[?k := r]) = mapped mm @ [r]" for r
      using k(2) by (simp add: mapped_def take_Suc_conv_app_nth)
    then show ?thesis
      using assms False k
      by (simp add: read_entry_def reg_entry_def read_cells_value put_region_def Let_def mm_ok_def
          add_regions_def)
        (simp add: mapped_def)
  qed
  then show "mm_ok (read_entry lib m reg ac sc i mm)"
    and "mapped (read_entry lib m reg ac sc i mm) = add_regions (mapped mm) [reg_entry lib m ac sc reg i]" by blast+
qed

lemma read_entries_mapped:
  assumes "mm_ok mm"
  shows "mm_ok (for_words 0 n (read_entry lib m reg ac sc) mm)"
    and "mapped (for_words 0 n (read_entry lib m reg ac sc) mm) = add_regions (mapped mm)
      (map (\<lambda>i. reg_entry lib m ac sc reg (word_of_nat i)) [0 ..< unat n])"
proof -
  have "mm_ok (fold (\<lambda>k. read_entry lib m reg ac sc (word_of_nat k)) ks mm) \<and>
    mapped (fold (\<lambda>k. read_entry lib m reg ac sc (word_of_nat k)) ks mm) =
      add_regions (mapped mm) (map (\<lambda>i. reg_entry lib m ac sc reg (word_of_nat i)) ks)" for ks
    using assms
  proof (induction ks arbitrary: mm)
    case Nil
    then show ?case by (simp add: add_regions_Nil)
  next
    case (Cons k ks)
    note r = read_entry_mapped [OF Cons.prems, of lib m reg ac sc "word_of_nat k"]
    show ?case using Cons.IH [OF r(1)] r(2) by simp
  qed
  then show "mm_ok (for_words 0 n (read_entry lib m reg ac sc) mm)"
    and "mapped (for_words 0 n (read_entry lib m reg ac sc) mm) = add_regions (mapped mm)
      (map (\<lambda>i. reg_entry lib m ac sc reg (word_of_nat i)) [0 ..< unat n])"
    by (simp_all add: for_words_fold)
qed

section \<open>The loop over the nodes\<close>

lemma entry_size_nat:
  fixes len cells :: int
  assumes "0 < len" and "len < 2 ^ 31" and "0 < cells" and "cells \<le> 4"
  shows "unat (word_of_int len :: u64) = nat len"
    and "unat (word_of_int cells * 4 :: u64) = nat (4 * cells)"
    and "unat (word_of_int len div (word_of_int cells * 4) :: u64) = nat (len div (4 * cells))"
    and "word_of_int len < (word_of_int cells * 4 :: u64) \<longleftrightarrow> len < 4 * cells"
    and "word_of_int len mod (word_of_int cells * 4 :: u64) \<noteq> 0 \<longleftrightarrow> len mod (4 * cells) \<noteq> 0"
proof -
  have u: "uint (word_of_int len :: u64) = len" "uint (word_of_int cells :: u64) = cells"
    using assms by (simp_all add: uint_word_of_int_eq take_bit_int_eq_self)
  have u4: "uint (word_of_int cells * 4 :: u64) = 4 * cells"
    using assms(3,4) by (simp add: uint_word_ariths u)
  show "unat (word_of_int len :: u64) = nat len"
    and "unat (word_of_int cells * 4 :: u64) = nat (4 * cells)"
    by (simp_all add: unat_eq_nat_uint u u4)
  show "unat (word_of_int len div (word_of_int cells * 4) :: u64) = nat (len div (4 * cells))"
    by (simp add: unat_eq_nat_uint uint_div u u4)
  show "word_of_int len < (word_of_int cells * 4 :: u64) \<longleftrightarrow> len < 4 * cells"
    by (simp add: word_less_def u u4)
  have "uint (word_of_int len mod (word_of_int cells * 4) :: u64) = len mod (4 * cells)"
    by (simp add: uint_mod u u4)
  then show "word_of_int len mod (word_of_int cells * 4 :: u64) \<noteq> 0 \<longleftrightarrow> len mod (4 * cells) \<noteq> 0"
    by (metis uint_0_iff)
qed

text \<open>One turn of the loop on a well-formed node.\<close>

lemma get_mem_loop_step:
  assumes "mm_ok mm" and "1 \<le> ac" "ac \<le> 2" "1 \<le> sc" "sc \<le> 2"
    and "next_memory_node lib (mem s) fdt node = k" "0 \<le> k" "node_ok lib (mem s) fdt (ac + sc) k"
  obtains mm' where "get_mem_loop lib fdt ac sc node mm s = get_mem_loop lib fdt ac sc k mm' s"
    and "mm_ok mm'" and "mapped mm' = add_regions (mapped mm) (node_entries lib (mem s) fdt ac sc k)"
proof -
  obtain reg len where p: "fdt_getprop lib (mem s) fdt k ''reg'' = (reg, len)"
    by (cases "fdt_getprop lib (mem s) fdt k ''reg''")
  show thesis
  proof (cases "reg = 0 \<or> len \<le> 0")
    case True
    then show ?thesis
      using assms p add_regions_Nil [OF assms(1)]
      by (intro that [of mm])
        (subst get_mem_loop.simps, auto simp: next_memory_node_def node_entries_def)
  next
    case False
    have len: "0 < len" "len < 2 ^ 31" "len mod (4 * (ac + sc)) = 0" "0 < ac + sc" "ac + sc \<le> 4"
      using False assms p by (auto simp: node_ok_def)
    note e = entry_size_nat [OF len(1,2,4,5)]
    have "4 * (ac + sc) \<le> len"
      using len by (metis dvd_imp_le_int abs_of_pos dvd_eq_mod_eq_0 less_le zdvd_imp_le)
    then have guard: "\<not> (word_of_int len < (word_of_int (ac + sc) * 4 :: u64) \<or>
        word_of_int len mod (word_of_int (ac + sc) * 4 :: u64) \<noteq> 0)"
      using len(3) unfolding e(4,5) by simp
    let ?mm = "for_words 0 (word_of_int len div (word_of_int (ac + sc) * 4))
        (read_entry lib (mem s) reg ac sc) mm"
    note r = read_entries_mapped [OF assms(1), of "word_of_int len div (word_of_int (ac + sc) * 4)"
        lib "mem s" reg ac sc, unfolded e(3)]
    have "get_mem_loop lib fdt ac sc node mm s = get_mem_loop lib fdt ac sc k ?mm s"
      using False guard assms(6,7) p
      by (subst get_mem_loop.simps) (simp add: next_memory_node_def Let_def del: of_int_add)
    then show ?thesis
      by (rule that [OF _ r(1)]) (use False p r(2) in \<open>simp add: node_entries_def\<close>)
  qed
qed

lemma get_mem_loop_nodes:
  assumes "mm_ok mm" and "1 \<le> ac" "ac \<le> 2" "1 \<le> sc" "sc \<le> 2"
    and "node_chain lib (mem s) fdt node ks"
    and "list_all (node_ok lib (mem s) fdt (ac + sc)) ks"
  shows "\<exists>mm'. get_mem_loop lib fdt ac sc node mm s = Some (0, mm', s) \<and> mm_ok mm' \<and>
    mapped mm' = add_regions (mapped mm) (concat (map (node_entries lib (mem s) fdt ac sc) ks))"
  using assms
proof (induction ks arbitrary: node mm)
  case Nil
  then show ?case
    using add_regions_Nil [OF Nil.prems(1)] by (subst get_mem_loop.simps) (auto simp: next_memory_node_def)
next
  case (Cons k ks)
  from Cons.prems obtain mm' where s1: "get_mem_loop lib fdt ac sc node mm s = get_mem_loop lib fdt ac sc k mm' s"
    "mm_ok mm'" "mapped mm' = add_regions (mapped mm) (node_entries lib (mem s) fdt ac sc k)"
    by (auto elim: get_mem_loop_step)
  show ?case
    using Cons.IH [OF s1(2) Cons.prems(2-5), of k] Cons.prems(6,7) by (simp add: s1)
qed

end
