(* ===== verification/FdtTheorems.thy ===== *)
theory FdtTheorems
  imports FdtProps
begin

text \<open>
  The theorems about the device tree code, and a concrete libfdt and blob they are instantiated on.
\<close>

text \<open>The blob at \<open>fdt\<close> describes the regions \<open>rs\<close>: the root has one or two cells for addresses
  and sizes, and \<open>rs\<close> are the first non-empty entries of its well-formed memory nodes.\<close>

definition fdt_describes :: "libfdt \<Rightarrow> memory \<Rightarrow> u64 \<Rightarrow> memory_region list \<Rightarrow> bool" where
  "fdt_describes lib m fdt rs \<longleftrightarrow>
     (let root = fdt_path_offset lib m fdt ''/'';
          ac = fdt_address_cells lib m fdt root;
          sc = fdt_size_cells lib m fdt root
      in fdt \<noteq> 0 \<and> 0 \<le> root \<and> 1 \<le> ac \<and> ac \<le> 2 \<and> 1 \<le> sc \<and> sc \<le> 2 \<and>
         (\<exists>ks. node_chain lib m fdt (-1) ks \<and> list_all (node_ok lib m fdt (ac + sc)) ks \<and>
           rs = take MAX_MEM_REGIONS (filter (\<lambda>r. region_size r > 0)
                  (concat (map (node_entries lib m fdt ac sc) ks)))))"

lemma get_mem_describes:
  assumes "fdt_describes lib (mem s) fdt rs" and "length (regions mm) = MAX_MEM_REGIONS"
  shows "\<exists>mm'. get_mem lib fdt (Some mm) s = Some (0, Some mm', s) \<and>
    region_count mm' = int (length rs) \<and> take (length rs) (regions mm') = rs"
proof -
  let ?root = "fdt_path_offset lib (mem s) fdt ''/''"
  let ?ac = "fdt_address_cells lib (mem s) fdt ?root"
  let ?sc = "fdt_size_cells lib (mem s) fdt ?root"
  let ?mm = "mm\<lparr>region_count := 0\<rparr>"
  from assms(1) obtain ks where cells: "fdt \<noteq> 0" "0 \<le> ?root" "1 \<le> ?ac" "?ac \<le> 2" "1 \<le> ?sc" "?sc \<le> 2"
    and ks: "node_chain lib (mem s) fdt (-1) ks" "list_all (node_ok lib (mem s) fdt (?ac + ?sc)) ks"
    and rs: "rs = take MAX_MEM_REGIONS (filter (\<lambda>r. region_size r > 0)
        (concat (map (node_entries lib (mem s) fdt ?ac ?sc) ks)))"
    by (auto simp: fdt_describes_def Let_def)
  have ok: "mm_ok ?mm" and empty: "mapped ?mm = []"
    using assms(2) by (simp_all add: mm_ok_def mapped_def)
  obtain mm' where run: "get_mem_loop lib fdt ?ac ?sc (-1) ?mm s = Some (0, mm', s)"
    and mm': "mm_ok mm'" "mapped mm' = rs"
    using get_mem_loop_nodes [OF ok cells(3-6) ks]
    by (auto simp: empty rs add_regions_def)
  have "region_count mm' = int (length rs)"
    using mm' by (auto simp: mapped_def mm_ok_def)
  moreover have "get_mem lib fdt (Some mm) s = Some (0, Some mm', s)"
    using cells run by (simp add: get_mem_def Let_def)
  ultimately show ?thesis using mm'(2) by (auto simp: mapped_def)
qed

text \<open>
  C23: on a blob whose memory nodes are well formed, \<open>get_mem\<close> returns 0 and fills the map with the
  first sixteen entries of non-zero size, in the order of the nodes and of the entries in each;
  the address and the size of an entry are the numbers in base \<open>2^32\<close> that its one or two cells
  stand for, most significant cell first.
\<close>

theorem get_mem_regions:
  assumes "fdt_describes lib (mem s) fdt rs" and "length (regions mm) = MAX_MEM_REGIONS"
  shows "\<exists>mm'. get_mem lib fdt (Some mm) s = Some (0, Some mm', s) \<and>
    region_count mm' = int (length rs) \<and> take (length rs) (regions mm') = rs"
  by (rule get_mem_describes [OF assms])

text \<open>
  A libfdt that knows one blob: one memory node, at offset 8, with a 16-byte \<^verbatim>\<open>reg\<close> property at
  \<open>fdt + 0x100\<close>; the error codes and the byte swap are those of the library.
\<close>

definition demo_lib :: libfdt where
  "demo_lib =
     \<lparr>fdt_check_header = (\<lambda>m p. 0), fdt_path_offset = (\<lambda>m p path. 0),
      fdt_address_cells = (\<lambda>m p n. 2), fdt_size_cells = (\<lambda>m p n. 2),
      fdt_node_offset_by_prop_value = (\<lambda>m p n name v len. if n < 8 then 8 else -1),
      fdt_getprop = (\<lambda>m p n name. (p + 0x100, 16)),
      fdt32_to_cpu = (\<lambda>w. push_bit 24 w OR (push_bit 8 w AND 0xFF0000) OR
        (drop_bit 8 w AND 0xFF00) OR drop_bit 24 w),
      FDT_ERR_BADMAGIC = 9, FDT_ERR_BADVERSION = 10, FDT_ERR_BADSTATE = 7, FDT_ERR_INTERNAL = 13\<rparr>"

lemma demo_lib_sel [simp]:
  "fdt_check_header demo_lib m p = 0" "fdt_path_offset demo_lib m p path = 0"
  "fdt_address_cells demo_lib m p n = 2" "fdt_size_cells demo_lib m p n = 2"
  "fdt_node_offset_by_prop_value demo_lib m p n name v len = (if n < 8 then 8 else -1)"
  "fdt_getprop demo_lib m p n name = (p + 0x100, 16)" "FDT_ERR_BADSTATE demo_lib = 7"
  "fdt32_to_cpu demo_lib w = push_bit 24 w OR (push_bit 8 w AND 0xFF0000) OR
     (drop_bit 8 w AND 0xFF00) OR drop_bit 24 w"
  by (simp_all add: demo_lib_def)

text \<open>The blob, at \<open>0x48000000\<close>: 128 MiB from \<open>0x40000000\<close>; the boot arguments are at
  \<open>0x40013000\<close>.\<close>

definition demo_blob :: memory where
  "demo_blob = (\<lambda>_. 0)(0x48000104 := 0x40, 0x4800010C := 0x08, 0x40013003 := 0x48)"

definition demo_region_list :: "memory_region list" where
  "demo_region_list = [\<lparr>region_base = 0x40000000, region_size = 0x8000000\<rparr>]"

lemma demo_entry:
  "reg_entry demo_lib demo_blob 2 2 0x48000100 0 = \<lparr>region_base = 0x40000000, region_size = 0x8000000\<rparr>"
  by (simp add: reg_entry_def cells_value_2 load32_def demo_blob_def)

lemma demo_describes: "fdt_describes demo_lib demo_blob 0x48000000 demo_region_list"
proof -
  have "node_entries demo_lib demo_blob 0x48000000 2 2 8 = demo_region_list"
    by (simp add: node_entries_def demo_entry demo_region_list_def)
  then show ?thesis
    unfolding fdt_describes_def Let_def
    by (simp add: node_ok_def next_memory_node_def demo_region_list_def MAX_MEM_REGIONS_def)
      (rule exI [of _ "[8]"], simp add: node_ok_def next_memory_node_def)
qed

definition demo_map0 :: memory_map where
  "demo_map0 = \<lparr>regions = replicate 16 \<lparr>region_base = 0, region_size = 0\<rparr>, region_count = 99\<rparr>"

lemma demo_map0_len: "length (regions demo_map0) = MAX_MEM_REGIONS"
  by (simp add: demo_map0_def MAX_MEM_REGIONS_def)

theorem get_mem_regions_witness:
  "\<exists>mm'. get_mem demo_lib 0x48000000 (Some demo_map0) (console_kernel\<lparr>mem := demo_blob\<rparr>) =
      Some (0, Some mm', console_kernel\<lparr>mem := demo_blob\<rparr>) \<and> region_count mm' = 1"
  using get_mem_regions [of demo_lib "console_kernel\<lparr>mem := demo_blob\<rparr>" "0x48000000"
      demo_region_list demo_map0] demo_describes demo_map0_len
  by (simp add: demo_region_list_def) blast

section \<open>Bounds and termination\<close>

lemma list_all_add_regions:
  "list_all (\<lambda>r. region_size r > 0) xs \<Longrightarrow> list_all (\<lambda>r. region_size r > 0) (add_regions xs ys)"
  by (auto simp: add_regions_def list_all_iff dest: in_set_takeD)

definition mm_inv :: "memory_map \<Rightarrow> bool" where
  "mm_inv mm \<longleftrightarrow> mm_ok mm \<and> list_all (\<lambda>r. region_size r > 0) (mapped mm)"

lemma read_entries_inv:
  "mm_inv mm \<Longrightarrow> mm_inv (for_words 0 n (read_entry lib m reg ac sc) mm)"
  using read_entries_mapped [of mm n lib m reg ac sc]
  by (simp add: mm_inv_def list_all_add_regions)

lemma get_mem_loop_inv:
  assumes "get_mem_loop lib fdt ac sc node mm s = Some res"
  shows "mm_inv mm \<longrightarrow> mm_inv (fst (snd res))"
proof (rule get_mem_loop.raw_induct
    [where P = "\<lambda>lib fdt ac sc node mm s res. mm_inv mm \<longrightarrow> mm_inv (fst (snd res))", OF _ assms])
  fix self :: "libfdt \<Rightarrow> u64 \<Rightarrow> int \<Rightarrow> int \<Rightarrow> int \<Rightarrow> memory_map \<Rightarrow> kernel \<Rightarrow>
      (int \<times> memory_map \<times> kernel) option"
    and lib :: libfdt and fdt ac sc node mm and s :: kernel and res
  assume rec: "\<And>lib fdt ac sc node mm s res. self lib fdt ac sc node mm s = Some res \<Longrightarrow>
      mm_inv mm \<longrightarrow> mm_inv (fst (snd res))"
  let ?node = "fdt_node_offset_by_prop_value lib (mem s) fdt node ''device_type'' memory_value 7"
  obtain reg len where p: "fdt_getprop lib (mem s) fdt ?node ''reg'' = (reg, len)"
    by (cases "fdt_getprop lib (mem s) fdt ?node ''reg''")
  assume run: "(let node = ?node
      in if \<not> node \<ge> 0 then Some (0, mm, s)
         else
           let (reg, len) = fdt_getprop lib (mem s) fdt node ''reg''
           in if reg = 0 \<or> len \<le> 0 then self lib fdt ac sc node mm s
              else
                let entry_size = word_of_int (ac + sc) * 4 :: u64
                in if word_of_int len < entry_size \<or> word_of_int len mod entry_size \<noteq> 0 then
                     Some (- FDT_ERR_BADSTATE lib, mm,
                      klog ''FDT Error: memory \"reg\" length %d is not a multiple of entry size %zu\<newline>''
                        [A32 (word_of_int len), A64 entry_size] s)
                   else
                     let num_entries = word_of_int len div entry_size;
                         mmap = for_words 0 num_entries (read_entry lib (mem s) reg ac sc) mm
                     in self lib fdt ac sc node mmap s) = Some res"
  show "mm_inv mm \<longrightarrow> mm_inv (fst (snd res))"
  proof
    assume inv: "mm_inv mm"
    show "mm_inv (fst (snd res))"
      using run p inv rec read_entries_inv [OF inv]
      by (auto simp: Let_def split: if_splits)
  qed
qed

text \<open>
  C25: whatever libfdt returns, \<open>get_mem\<close> writes only inside the array of sixteen regions and
  counts at most sixteen, each of non-zero size.
\<close>

theorem get_mem_bounds:
  assumes "get_mem lib fdt (Some mm) s = Some (r, Some mm', s')"
    and "length (regions mm) = MAX_MEM_REGIONS" and "fdt \<noteq> 0"
  shows "length (regions mm') = 16 \<and> 0 \<le> region_count mm' \<and> region_count mm' \<le> 16 \<and>
    (\<forall>k < nat (region_count mm'). region_size (regions mm' ! k) \<noteq> 0)"
proof -
  have 0: "mm_inv (mm\<lparr>region_count := 0\<rparr>)"
    using assms(2) by (simp add: mm_inv_def mm_ok_def mapped_def)
  have "mm_inv mm'"
    using assms(1,3) 0 get_mem_loop_inv [of lib fdt _ _ "-1" "mm\<lparr>region_count := 0\<rparr>" s]
    by (auto simp: get_mem_def Let_def split: if_splits)
  then have ok: "length (regions mm') = 16" "0 \<le> region_count mm'" "region_count mm' \<le> 16"
    and pos: "\<And>k. k < length (mapped mm') \<Longrightarrow> region_size (mapped mm' ! k) > 0"
    by (simp_all add: mm_inv_def mm_ok_def MAX_MEM_REGIONS_def list_all_length)
  have "region_size (regions mm' ! k) \<noteq> 0" if "k < nat (region_count mm')" for k
    using pos [of k] that ok by (auto simp: mapped_def)
  with ok show ?thesis by blast
qed

theorem get_mem_bounds_witness:
  "\<exists>mm'. get_mem demo_lib 0x48000000 (Some demo_map0) (console_kernel\<lparr>mem := demo_blob\<rparr>) =
      Some (0, Some mm', console_kernel\<lparr>mem := demo_blob\<rparr>) \<and> region_count mm' \<le> 16"
proof -
  obtain mm' where "get_mem demo_lib 0x48000000 (Some demo_map0) (console_kernel\<lparr>mem := demo_blob\<rparr>) =
      Some (0, Some mm', console_kernel\<lparr>mem := demo_blob\<rparr>)"
    using get_mem_describes [of demo_lib "console_kernel\<lparr>mem := demo_blob\<rparr>" "0x48000000"
      demo_region_list demo_map0] demo_describes demo_map0_len by auto
  with get_mem_bounds [OF this demo_map0_len] show ?thesis by auto
qed

text \<open>
  C24: \<open>get_mem\<close> returns when libfdt enumerates nodes as it documents: each search finds a node
  at a larger offset than the one it started from, inside the blob, or reports an error.
\<close>

theorem get_mem_terminates:
  assumes "\<And>n. next_memory_node lib (mem s) fdt n < 0 \<or>
      (n < next_memory_node lib (mem s) fdt n \<and> next_memory_node lib (mem s) fdt n < bound)"
  shows "get_mem lib fdt mm s \<noteq> None"
proof -
  have loop: "get_mem_loop lib fdt ac sc node mm s \<noteq> None" for ac sc node mm
  proof (induction "nat (bound - node)" arbitrary: node mm rule: less_induct)
    case less
    let ?next = "next_memory_node lib (mem s) fdt node"
    have IH: "get_mem_loop lib fdt ac sc ?next mm' s \<noteq> None" if "0 \<le> ?next" for mm'
      using assms [of node] that by (intro less) auto
    obtain reg len where p: "fdt_getprop lib (mem s) fdt ?next ''reg'' = (reg, len)"
      by (cases "fdt_getprop lib (mem s) fdt ?next ''reg''")
    show ?case
      by (subst get_mem_loop.simps, fold next_memory_node_def)
        (use IH p in \<open>auto simp: Let_def\<close>)
  qed
  show ?thesis
  proof (cases mm)
    case (Some mm0)
    let ?root = "fdt_path_offset lib (mem s) fdt ''/''"
    obtain res where "get_mem_loop lib fdt (fdt_address_cells lib (mem s) fdt ?root)
        (fdt_size_cells lib (mem s) fdt ?root) (-1) (mm0\<lparr>region_count := 0\<rparr>) s = Some res"
      using loop by blast
    then show ?thesis by (cases res) (simp add: Some get_mem_def Let_def)
  qed (simp add: get_mem_def)
qed

theorem get_mem_terminates_witness:
  "get_mem demo_lib 0x48000000 (Some demo_map0) console_kernel \<noteq> None"
  by (rule get_mem_terminates [where bound = 9]) (simp add: next_memory_node_def)

text \<open>
  cell counts other than one and two are refused: \<open>get_mem\<close> reports \<open>FDT_ERR_BADSTATE\<close> and
  leaves the map empty.
\<close>

theorem get_mem_rejects_cells:
  assumes "fdt \<noteq> 0" and "0 \<le> fdt_path_offset lib (mem s) fdt ''/''"
    and "fdt_address_cells lib (mem s) fdt (fdt_path_offset lib (mem s) fdt ''/'') \<notin> {1, 2} \<or>
      fdt_size_cells lib (mem s) fdt (fdt_path_offset lib (mem s) fdt ''/'') \<notin> {1, 2}"
  shows "\<exists>s'. get_mem lib fdt (Some mm) s =
      Some (- FDT_ERR_BADSTATE lib, Some (mm\<lparr>region_count := 0\<rparr>), s') \<and> mem s' = mem s"
proof -
  let ?root = "fdt_path_offset lib (mem s) fdt ''/''"
  have "fdt_address_cells lib (mem s) fdt ?root < 1 \<or> fdt_address_cells lib (mem s) fdt ?root > 2 \<or>
      fdt_size_cells lib (mem s) fdt ?root < 1 \<or> fdt_size_cells lib (mem s) fdt ?root > 2"
    using assms(3) by auto
  then show ?thesis using assms(1,2) by (simp add: get_mem_def Let_def)
qed

theorem get_mem_rejects_cells_witness:
  "\<exists>s'. get_mem (demo_lib\<lparr>fdt_size_cells := \<lambda>m p n. 0\<rparr>) 0x48000000 (Some demo_map0) console_kernel =
     Some (-7, Some (demo_map0\<lparr>region_count := 0\<rparr>), s')"
  using get_mem_rejects_cells [of "0x48000000" "demo_lib\<lparr>fdt_size_cells := \<lambda>m p n. 0\<rparr>" console_kernel
      demo_map0] by auto

section \<open>Messages\<close>

text \<open>
  the console has no \<^verbatim>\<open>%z\<close>: the conversion \<^verbatim>\<open>%zu\<close>, which \<open>get_mem\<close> uses for the
  entry size, is copied to the output and consumes no argument.
\<close>

theorem kprintf_zu_copied:
  assumes "console_up s"
  shows "kprintf ''%zu'' [A64 v] s = (3, send ''%zu'' s)"
  using kprintf_send [OF assms, of "''%zu''" "[A64 v]"] by (simp add: is_num_conv_def)

theorem kprintf_zu_copied_witness:
  "kprintf ''%zu'' [A64 16] console_kernel = (3, send ''%zu'' console_kernel)"
  by (rule kprintf_zu_copied [OF console_kernel_up])

text \<open>
  \<^verbatim>\<open>%d\<close> reads a 64-bit \<^verbatim>\<open>long\<close>; given a C \<^verbatim>\<open>int\<close>, as \<open>check_fdt\<close>, \<open>get_mem\<close> and
  \<open>print_memory_map\<close> do, it reads 32 bits the caller did not define. When those are zero a
  negative number is printed as a large positive one.
\<close>

theorem kprintf_d_reads_long:
  assumes "console_up s" and "va_junk s 0 AND NOT (mask 32) = 0"
  shows "mmio_log (snd (kprintf ''%d'' [A32 v] s)) =
      mmio_log (send (numeral_in 10 (unat v)) s) \<and>
    faults (snd (kprintf ''%d'' [A32 v] s)) = faults s @ [Vararg_width]"
proof -
  let ?w = "ucast v :: u64"
  define s1 where "s1 = add_fault Vararg_width (snd (junk s))"
  have up: "console_up s1" using assms(1) by (simp add: s1_def console_up_def add_fault_def junk_def)
  have va: "va_long [A32 v] s = (?w, [], s1)"
    using assms(2) by (simp add: junk_def s1_def)
  have u: "unat ?w = unat v" using unsigned_less [of v, where 'a = nat] by (simp add: unsigned_ucast_eq take_bit_nat_eq_self)
  have "\<not> ?w <s 0"
  proof -
    have v: "uint v < 4294967296" using unsigned_less [of v, where 'a = int] by simp
    then have "uint ?w = uint v" by (simp add: unsigned_ucast_eq take_bit_int_eq_self)
    moreover have "- 9223372036854775808 \<le> uint v" using uint_ge_0 [of v] by linarith
    ultimately have "sint ?w = uint v"
      using v signed_take_bit_int_eq_self [of 63 "uint v"] by (simp add: sint_uint)
    then show ?thesis by (simp add: word_sless_alt)
  qed
  then have "kprintf ''%d'' [A32 v] s =
      (int (length (numeral_in 10 (unat v))), send (numeral_in 10 (unat v)) s1)"
    using assms(1) up va numeral_fits(1) [OF unat_lt_2_64 [of ?w]]
    by (simp add: kprintf_def vprintf_def conv_def print_num_send u console_up_def [of s])
  then show ?thesis by (simp add: send_def s1_def add_fault_def junk_def)
qed

theorem kprintf_d_reads_long_witness:
  "mmio_log (snd (kprintf ''%d'' [A32 0xFFFFFFFF] console_kernel)) =
   mmio_log (send (numeral_in 10 4294967295) console_kernel)"
  using kprintf_d_reads_long [of console_kernel "0xFFFFFFFF"]
  by (simp add: console_kernel_def console_up_def pl011_init_def)

end
