(* ===== verification/PageTable.thy ===== *)
theory PageTable
  imports AllocatorContract
begin

text \<open>
  The page tables, \<^verbatim>\<open>src/include/page_table/page_table.h\<close> and
  \<^verbatim>\<open>src/kernel/page_table/page_table.c\<close>: the 64-bit descriptor as a union of its value and
  its bit-fields, the four-level mapping routine, which allocates missing tables, and the dump of
  a whole tree. A \<^verbatim>\<open>page_table_entry_t *\<close> is the address of the entry in \<open>mem\<close>.
\<close>

section \<open>Descriptors\<close>

text \<open>The bit-fields in the order of the struct, least significant first, with their widths.\<close>

datatype pte_field =
  Valid | Table | Ignored_7_2 | Nlta_51_50 | Access_flag | Ignored_11 | Nlta_47_12 | Nlta_49_48 |
  Res0_50 | Ignored_51 | Protected_attr | Ignored_58_53 | Pxn_table | Xn_table | Ap_table | Ns_table

definition pte_layout :: "(pte_field \<times> nat) list" where
  "pte_layout =
     [(Valid, 1), (Table, 1), (Ignored_7_2, 6), (Nlta_51_50, 2), (Access_flag, 1), (Ignored_11, 1),
      (Nlta_47_12, 36), (Nlta_49_48, 2), (Res0_50, 1), (Ignored_51, 1), (Protected_attr, 1),
      (Ignored_58_53, 6), (Pxn_table, 1), (Xn_table, 1), (Ap_table, 2), (Ns_table, 1)]"

text \<open>The struct is packed: a field starts where the one before it ends.\<close>

fun layout_offset :: "(pte_field \<times> nat) list \<Rightarrow> pte_field \<Rightarrow> nat" where
  "layout_offset [] f = 0"
| "layout_offset ((g, w) # l) f = (if g = f then 0 else w + layout_offset l f)"

fun layout_width :: "(pte_field \<times> nat) list \<Rightarrow> pte_field \<Rightarrow> nat" where
  "layout_width [] f = 0"
| "layout_width ((g, w) # l) f = (if g = f then w else layout_width l f)"

definition pte_off :: "pte_field \<Rightarrow> nat" where
  "pte_off f = layout_offset pte_layout f"

definition pte_width :: "pte_field \<Rightarrow> nat" where
  "pte_width f = layout_width pte_layout f"

text \<open>Reading and assigning a bit-field of the value \<open>v\<close>.\<close>

definition pte_get :: "pte_field \<Rightarrow> u64 \<Rightarrow> u64" where
  "pte_get f v = take_bit (pte_width f) (drop_bit (pte_off f) v)"

definition pte_put :: "pte_field \<Rightarrow> u64 \<Rightarrow> u64 \<Rightarrow> u64" where
  "pte_put f x v =
     (v AND NOT (push_bit (pte_off f) (mask (pte_width f)))) OR
     push_bit (pte_off f) (take_bit (pte_width f) x)"

datatype aptable_values =
  APTABLE_EL0_NO_RESTRICTION_EL1_NO_RESTRICTION
| APTABLE_EL0_NO_WRITE_EL1_NO_WRITE
| APTABLE_EL0_NO_ACCESS_EL1_NO_RESTRICTION
| APTABLE_EL0_NO_ACCESS_EL1_NO_WRITE

fun aptable_code :: "aptable_values \<Rightarrow> u64" where
  "aptable_code APTABLE_EL0_NO_RESTRICTION_EL1_NO_RESTRICTION = 0b00"
| "aptable_code APTABLE_EL0_NO_WRITE_EL1_NO_WRITE = 0b01"
| "aptable_code APTABLE_EL0_NO_ACCESS_EL1_NO_RESTRICTION = 0b10"
| "aptable_code APTABLE_EL0_NO_ACCESS_EL1_NO_WRITE = 0b11"

record page_permissions =
  perm_read :: bool
  perm_write :: bool
  perm_execute :: bool

definition PAGE_SHIFT :: nat where
  "PAGE_SHIFT = 12"

definition IDX_MASK :: u64 where
  "IDX_MASK = 0x1FF"

definition KERNEL_BASE_VA :: u64 where
  "KERNEL_BASE_VA = 0x0"

definition PTRS_PER_TABLE :: u64 where
  "PTRS_PER_TABLE = 512"

section \<open>Entries in memory\<close>

text \<open>\<^verbatim>\<open>&table->entries[i]\<close>, and a read-modify-write of the entry at an address.\<close>

definition entry_addr :: "u64 \<Rightarrow> u64 \<Rightarrow> u64" where
  "entry_addr tab i = tab + 8 * i"

definition entry_value :: "u64 \<Rightarrow> kernel \<Rightarrow> u64" where
  "entry_value entry s = load64 (mem s) entry"

definition modify_entry :: "(u64 \<Rightarrow> u64) \<Rightarrow> u64 \<Rightarrow> kernel \<Rightarrow> kernel" where
  "modify_entry f entry s = s\<lparr>mem := store64 (mem s) entry (f (entry_value entry s))\<rparr>"

definition set_page_table_entry_address :: "u64 \<Rightarrow> u64 \<Rightarrow> kernel \<Rightarrow> kernel" where
  "set_page_table_entry_address entry addr s =
     (let addr_mask = 0xFFFFFFFFF000
      in modify_entry (pte_put Nlta_47_12 (drop_bit PAGE_SHIFT (addr AND addr_mask))) entry s)"

text \<open>\<^verbatim>\<open>get_page_table_entry_address\<close>, a function of the value of the entry.\<close>

definition get_page_table_entry_address :: "u64 \<Rightarrow> u64" where
  "get_page_table_entry_address v = push_bit PAGE_SHIFT (pte_get Nlta_47_12 v)"

definition va_to_pa :: "u64 \<Rightarrow> u64" where
  "va_to_pa v_addr = v_addr - KERNEL_BASE_VA"

definition pa_to_va :: "u64 \<Rightarrow> u64" where
  "pa_to_va p_addr = KERNEL_BASE_VA + p_addr"

definition set_next_level_table :: "u64 \<Rightarrow> u64 \<Rightarrow> kernel \<Rightarrow> kernel" where
  "set_next_level_table entry next_table_addr s =
     (let s = set_page_table_entry_address entry next_table_addr s;
          s = modify_entry (pte_put Valid 1) entry s;
          s = modify_entry (pte_put Table 1) entry s
      in s)"

definition zero_entry :: "u64 \<Rightarrow> u64 \<Rightarrow> kernel \<Rightarrow> kernel" where
  "zero_entry tab i s = modify_entry (\<lambda>_. 0) (entry_addr tab i) s"

definition page_table_init :: "u64 \<Rightarrow> kernel \<Rightarrow> kernel" where
  "page_table_init tab s = for_words 0 PTRS_PER_TABLE (zero_entry tab) s"

definition allocate_new_table :: "u64 \<Rightarrow> kernel \<Rightarrow> bool \<times> kernel" where
  "allocate_new_table entry s =
     (let (new_table, s) = page_alloc 1 s
      in if new_table = 0 then (False, klog ''Failed to allocate new page table\<newline>'' [] s)
         else
           let s = page_table_init new_table s;
               phys_addr = va_to_pa new_table;
               s = set_next_level_table entry phys_addr s
           in (True, s))"

definition get_next_level_table :: "u64 \<Rightarrow> kernel \<Rightarrow> u64 \<times> kernel" where
  "get_next_level_table entry s =
     (let (ok, s) =
            (if pte_get Valid (entry_value entry s) = 0 then allocate_new_table entry s
             else (True, s))
      in if \<not> ok then (0, s)
         else (pa_to_va (get_page_table_entry_address (entry_value entry s)), s))"

section \<open>Mapping a page\<close>

text \<open>The assignments to the level 3 entry, in the code's order.\<close>

definition write_leaf :: "u64 \<Rightarrow> u64 \<Rightarrow> page_permissions \<Rightarrow> kernel \<Rightarrow> kernel" where
  "write_leaf entry phy_addr perms s =
     (let s = modify_entry (\<lambda>_. 0) entry s;
          s = set_page_table_entry_address entry phy_addr s;
          s = modify_entry (pte_put Valid 1) entry s;
          s = modify_entry (pte_put Table 1) entry s;
          s = (if perm_execute perms then
                 (let s = modify_entry (pte_put Xn_table 0) entry s
                  in modify_entry (pte_put Pxn_table 0) entry s)
               else
                 (let s = modify_entry (pte_put Xn_table 1) entry s
                  in modify_entry (pte_put Pxn_table 1) entry s));
          s = (if perm_write perms then
                 modify_entry (pte_put Ap_table
                   (aptable_code APTABLE_EL0_NO_RESTRICTION_EL1_NO_RESTRICTION)) entry s
               else
                 modify_entry (pte_put Ap_table
                   (aptable_code APTABLE_EL0_NO_WRITE_EL1_NO_WRITE)) entry s);
          s = (if \<not> perm_read perms then
                 modify_entry (pte_put Ap_table
                   (aptable_code APTABLE_EL0_NO_ACCESS_EL1_NO_WRITE)) entry s
               else s)
      in s)"

definition level_idx :: "nat \<Rightarrow> u64 \<Rightarrow> u64" where
  "level_idx start_bit v_addr = drop_bit start_bit v_addr AND IDX_MASK"

definition map_page :: "u64 \<Rightarrow> u64 \<Rightarrow> u64 \<Rightarrow> page_permissions \<Rightarrow> kernel \<Rightarrow> bool \<times> kernel" where
  "map_page root v_addr phy_addr perms s =
     (if phy_addr AND 0xFFF \<noteq> 0 then
        (False, klog ''Error: Physical address 0x%lx is not page aligned\<newline>'' [A64 phy_addr] s)
      else
        let l0_idx = level_idx 39 v_addr;
            l1_idx = level_idx 30 v_addr;
            l2_idx = level_idx 21 v_addr;
            l3_idx = level_idx 12 v_addr;
            (level1, s) = get_next_level_table (entry_addr root l0_idx) s
        in if level1 = 0 then
             (False, klog ''Failed to get level 1 page table for VA 0x%lx\<newline>'' [A64 v_addr] s)
           else
             let (level2, s) = get_next_level_table (entry_addr level1 l1_idx) s
             in if level2 = 0 then
                  (False, klog ''Failed to get level 2 page table for VA 0x%lx\<newline>'' [A64 v_addr] s)
                else
                  let (level3, s) = get_next_level_table (entry_addr level2 l2_idx) s
                  in if level3 = 0 then
                       (False, klog ''Failed to get level 3 page table for VA 0x%lx\<newline>'' [A64 v_addr] s)
                     else (True, write_leaf (entry_addr level3 l3_idx) phy_addr perms s))"

section \<open>Dumping the tree\<close>

text \<open>What is printed for one mapped page.\<close>

definition dump_leaf :: "u64 \<Rightarrow> u64 \<Rightarrow> kernel \<Rightarrow> kernel" where
  "dump_leaf partial_v_addr e s =
     (let phys_addr = get_page_table_entry_address e;
          s = klog ''VA 0x%lx -> PA 0x%lx [Flags: 0x%lx]''
                [A64 partial_v_addr, A64 phys_addr, A64 (e AND 0xFFF)] s;
          s = (if pte_get Xn_table e \<noteq> 0 then klog '' XN'' [] s else s);
          s = (if pte_get Pxn_table e \<noteq> 0 then klog '' PXN'' [] s else s);
          ap = pte_get Ap_table e;
          s = (if ap = aptable_code APTABLE_EL0_NO_RESTRICTION_EL1_NO_RESTRICTION
               then klog '' RW(EL0) RW(EL1)'' [] s
               else if ap = aptable_code APTABLE_EL0_NO_WRITE_EL1_NO_WRITE
               then klog '' RO(EL0) RO(EL1)'' [] s
               else if ap = aptable_code APTABLE_EL0_NO_ACCESS_EL1_NO_RESTRICTION
               then klog '' NO-ACCESS(EL0) RW(EL1)'' [] s
               else if ap = aptable_code APTABLE_EL0_NO_ACCESS_EL1_NO_WRITE
               then klog '' NO-ACCESS(EL0) RO(EL1)'' [] s
               else s)
      in klog ''\<newline>'' [] s)"

text \<open>
  \<open>dump_memory_map_recursive\<close> at level \<open>3 - d\<close>: the recursion goes down one level until level 3.
  The code passes the address of its local copy of a valid entry to \<open>get_next_level_table\<close>, which
  then only decodes the address.
\<close>

definition partial_va :: "nat \<Rightarrow> u64 \<Rightarrow> u64 \<Rightarrow> u64" where
  "partial_va d i v_addr_prefix =
     (let level_shift = 9 * d + 12; level_mask = push_bit level_shift IDX_MASK
      in push_bit level_shift i OR (v_addr_prefix AND NOT level_mask))"

primrec dump_memory_map_recursive :: "nat \<Rightarrow> u64 \<Rightarrow> u64 \<Rightarrow> kernel \<Rightarrow> kernel" where
  "dump_memory_map_recursive 0 root v_addr_prefix s =
     for_words 0 512
       (\<lambda>i s. let entry = entry_value (entry_addr root i) s
              in if pte_get Valid entry = 0 then s
                 else dump_leaf (partial_va 0 i v_addr_prefix) entry s) s"
| "dump_memory_map_recursive (Suc d) root v_addr_prefix s =
     for_words 0 512
       (\<lambda>i s. let entry = entry_value (entry_addr root i) s
              in if pte_get Valid entry = 0 then s
                 else dump_memory_map_recursive d (pa_to_va (get_page_table_entry_address entry))
                        (partial_va (Suc d) i v_addr_prefix) s) s"

definition dump_memory_map :: "u64 \<Rightarrow> kernel \<Rightarrow> kernel" where
  "dump_memory_map root s =
     (let s = klog ''--- Memory Map Dump Start ---\<newline>'' [] s;
          s = dump_memory_map_recursive 3 root 0 s;
          s = klog ''--- Memory Map Dump End ---\<newline>'' [] s
      in s)"

end
