(* ===== verification/PteProps.thy ===== *)
theory PteProps
  imports PageTable
begin

text \<open>
  The bit-fields of a descriptor: the laws of one field, and of two different ones, as locales
  interpreted on every field of the layout; and the value the code builds for a table and for a
  page descriptor.
\<close>

section \<open>The interface of a bit-field\<close>

locale bitfield =
  fixes get :: "u64 \<Rightarrow> u64" and put :: "u64 \<Rightarrow> u64 \<Rightarrow> u64" and width :: nat
  assumes get_put: "get (put x v) = take_bit width x"
    and put_put: "put y (put x v) = put y v"
    and put_get: "put (get v) v = v"
begin

lemma get_put_small: "take_bit width x = x \<Longrightarrow> get (put x v) = x"
  by (simp add: get_put)

lemma put_same: "take_bit width x = x \<Longrightarrow> put x v = v \<longleftrightarrow> get v = x"
  by (metis get_put_small put_get)

end

locale bitfield_pair = f: bitfield get1 put1 width1 + g: bitfield get2 put2 width2
  for get1 put1 width1 get2 put2 width2 +
  assumes get_other: "get1 (put2 x v) = get1 v"
    and put_commute: "put1 x (put2 y v) = put2 y (put1 x v)"

section \<open>The layout\<close>

lemma pte_off_simps [simp]:
  "pte_off Valid = 0" "pte_off Table = 1" "pte_off Ignored_7_2 = 2" "pte_off Nlta_51_50 = 8"
  "pte_off Access_flag = 10" "pte_off Ignored_11 = 11" "pte_off Nlta_47_12 = 12"
  "pte_off Nlta_49_48 = 48" "pte_off Res0_50 = 50" "pte_off Ignored_51 = 51"
  "pte_off Protected_attr = 52" "pte_off Ignored_58_53 = 53" "pte_off Pxn_table = 59"
  "pte_off Xn_table = 60" "pte_off Ap_table = 61" "pte_off Ns_table = 63"
  by (simp_all add: pte_off_def pte_layout_def)

lemma pte_width_simps [simp]:
  "pte_width Valid = 1" "pte_width Table = 1" "pte_width Ignored_7_2 = 6"
  "pte_width Nlta_51_50 = 2" "pte_width Access_flag = 1" "pte_width Ignored_11 = 1"
  "pte_width Nlta_47_12 = 36" "pte_width Nlta_49_48 = 2" "pte_width Res0_50 = 1"
  "pte_width Ignored_51 = 1" "pte_width Protected_attr = 1" "pte_width Ignored_58_53 = 6"
  "pte_width Pxn_table = 1" "pte_width Xn_table = 1" "pte_width Ap_table = 2"
  "pte_width Ns_table = 1"
  by (simp_all add: pte_width_def pte_layout_def)

definition field_bit :: "pte_field \<Rightarrow> nat \<Rightarrow> bool" where
  "field_bit f n \<longleftrightarrow> pte_off f \<le> n \<and> n < pte_off f + pte_width f"

lemma field_bit_less: "field_bit f n \<Longrightarrow> n < 64"
  by (cases f) (simp_all add: field_bit_def)

lemma pte_off_width: "pte_off f + pte_width f \<le> 64"
  by (cases f) simp_all

lemma bit_pte_get: "bit (pte_get f v) n \<longleftrightarrow> n < pte_width f \<and> bit v (pte_off f + n)"
  by (simp add: pte_get_def bit_simps add.commute)

lemma bit_pte_put:
  "bit (pte_put f x v) n \<longleftrightarrow> (if field_bit f n then bit x (n - pte_off f) else bit v n)"
proof (cases "n < 64")
  case True
  then show ?thesis
    by (auto simp: pte_put_def field_bit_def bit_simps)
next
  case False
  then have "\<not> field_bit f n" using field_bit_less by blast
  then show ?thesis using False by (auto dest: bit_imp_le_length)
qed

text \<open>Every bit belongs to at most one field.\<close>

lemma field_bit_unique: "field_bit f n \<Longrightarrow> field_bit g n \<Longrightarrow> f = g"
  by (cases f; cases g; simp add: field_bit_def)

text \<open>The fields in the order of the struct make a finite type the evaluator can search.\<close>

instantiation pte_field :: enum
begin

definition enum_pte_field :: "pte_field list" where
  "enum_pte_field = map fst pte_layout"

definition enum_all_pte_field :: "(pte_field \<Rightarrow> bool) \<Rightarrow> bool" where
  "enum_all_pte_field P = list_all P (map fst pte_layout)"

definition enum_ex_pte_field :: "(pte_field \<Rightarrow> bool) \<Rightarrow> bool" where
  "enum_ex_pte_field P = list_ex P (map fst pte_layout)"

instance
proof
  show univ: "(UNIV :: pte_field set) = set enum_class.enum"
  proof (rule UNIV_eq_I)
    show "f \<in> set enum_class.enum" for f :: pte_field
      by (cases f) (simp_all add: enum_pte_field_def pte_layout_def)
  qed
  show "distinct (enum_class.enum :: pte_field list)"
    by (simp add: enum_pte_field_def pte_layout_def)
  show "enum_class.enum_all P = Ball UNIV P" "enum_class.enum_ex P = Bex UNIV P"
    for P :: "pte_field \<Rightarrow> bool"
    using univ by (simp_all add: enum_all_pte_field_def enum_ex_pte_field_def enum_pte_field_def
        list_all_iff list_ex_iff)
qed

end

text \<open>The struct is packed without a gap: every bit of the 64 belongs to exactly one field.\<close>

lemma pte_fields_cover: "\<forall>n \<in> {0 ..< 64}. \<exists>f. field_bit f n"
  by code_simp

lemma pte_fields_partition: "n < 64 \<Longrightarrow> \<exists>!f. field_bit f n"
  using pte_fields_cover field_bit_unique by (metis atLeastLessThan_iff le0)

interpretation pte: bitfield "pte_get f" "pte_put f" "pte_width f" for f
proof unfold_locales
  fix x y v
  show "pte_get f (pte_put f x v) = take_bit (pte_width f) x"
    by (rule bit_word_eqI)
      (auto simp: bit_pte_get bit_pte_put field_bit_def bit_simps)
  show "pte_put f y (pte_put f x v) = pte_put f y v"
    by (rule bit_word_eqI) (simp add: bit_pte_put)
  show "pte_put f (pte_get f v) v = v"
    by (rule bit_word_eqI) (auto simp: bit_pte_put bit_pte_get field_bit_def)
qed

lemma pte_get_other: "f \<noteq> g \<Longrightarrow> pte_get f (pte_put g x v) = pte_get f v"
proof (rule bit_word_eqI)
  fix n
  assume "f \<noteq> g"
  have "field_bit f (pte_off f + n)" if "n < pte_width f"
    using that by (simp add: field_bit_def)
  with \<open>f \<noteq> g\<close> show "bit (pte_get f (pte_put g x v)) n = bit (pte_get f v) n"
    using field_bit_unique by (auto simp: bit_pte_get bit_pte_put)
qed

lemma pte_put_commute: "f \<noteq> g \<Longrightarrow> pte_put f x (pte_put g y v) = pte_put g y (pte_put f x v)"
  by (rule bit_word_eqI) (auto simp: bit_pte_put dest: field_bit_unique)

interpretation addr_vs_perm: bitfield_pair
  "pte_get Nlta_47_12" "pte_put Nlta_47_12" "pte_width Nlta_47_12"
  "pte_get Ap_table" "pte_put Ap_table" "pte_width Ap_table"
  by unfold_locales (simp_all add: pte_get_other pte_put_commute)

end
