(* ===== verification/TableTree.thy ===== *)
theory TableTree
  imports PteProps
begin

text \<open>
  A tree of tables in a store: what a path of indices leads to, and how writing one slot changes
  what every path leads to. The interface of the store is a locale with one law, that slots of
  good tables are independent; it is interpreted on the 64-bit entries of page-aligned tables in
  the byte memory. The tree has \<open>depth\<close> levels of links below the root.
\<close>

section \<open>Paths\<close>

primrec descend :: "('t \<Rightarrow> 'i \<Rightarrow> 't option) \<Rightarrow> 't \<Rightarrow> 'i list \<Rightarrow> 't option" where
  "descend nx t [] = Some t"
| "descend nx t (i # p) = (case nx t i of None \<Rightarrow> None | Some u \<Rightarrow> descend nx u p)"

lemma descend_append:
  "descend nx t (p @ q) = (case descend nx t p of None \<Rightarrow> None | Some u \<Rightarrow> descend nx u q)"
  by (induction p arbitrary: t) (simp_all split: option.splits)

lemma descend_snoc:
  "descend nx t (p @ [j]) = (case descend nx t p of None \<Rightarrow> None | Some u \<Rightarrow> nx u j)"
  by (simp add: descend_append split: option.splits)

text \<open>A valid path, and a tree in which no two valid paths lead to the same table.\<close>

definition vpath :: "nat \<Rightarrow> ('i \<Rightarrow> bool) \<Rightarrow> 'i list \<Rightarrow> bool" where
  "vpath n idx p \<longleftrightarrow> length p \<le> n \<and> list_all idx p"

definition no_sharing :: "nat \<Rightarrow> ('i \<Rightarrow> bool) \<Rightarrow> ('t \<Rightarrow> 'i \<Rightarrow> 't option) \<Rightarrow> 't \<Rightarrow> bool" where
  "no_sharing n idx nx root \<longleftrightarrow> (\<forall>p q t. vpath n idx p \<longrightarrow> vpath n idx q \<longrightarrow>
     descend nx root p = Some t \<longrightarrow> descend nx root q = Some t \<longrightarrow> p = q)"

lemma vpath_snoc: "vpath n idx (p @ [i]) \<longleftrightarrow> Suc (length p) \<le> n \<and> list_all idx p \<and> idx i"
  by (auto simp: vpath_def)

lemma vpath_Nil [simp]: "vpath n idx []"
  by (simp add: vpath_def)

lemma vpath_butlast: "vpath n idx (p @ [i]) \<Longrightarrow> vpath n idx p"
  and vpath_last: "vpath n idx (p @ [i]) \<Longrightarrow> idx i"
  by (simp_all add: vpath_def)

lemma no_sharingD:
  "no_sharing n idx nx root \<Longrightarrow> descend nx root p = Some t \<Longrightarrow> descend nx root q = Some t \<Longrightarrow>
   vpath n idx p \<Longrightarrow> vpath n idx q \<Longrightarrow> p = q"
  by (simp add: no_sharing_def)

text \<open>What a path leads to depends only on the links of the tables above its end.\<close>

lemma descend_cong:
  assumes "\<And>q u j. vpath n idx (q @ [j]) \<Longrightarrow> descend nx root q = Some u \<Longrightarrow> nx' u j = nx u j"
    and "vpath n idx p"
  shows "descend nx' root p = descend nx root p"
  using assms(2)
proof (induction p rule: rev_induct)
  case (snoc j q)
  then have "descend nx' root q = descend nx root q" by (blast dest: vpath_butlast)
  with assms(1) [OF snoc.prems] show ?case
    by (simp add: descend_snoc split: option.splits)
qed simp

section \<open>The interface of a table store\<close>

locale table_store =
  fixes entry :: "'m \<Rightarrow> 't \<Rightarrow> 'i \<Rightarrow> 'e"
    and put :: "'m \<Rightarrow> 't \<Rightarrow> 'i \<Rightarrow> 'e \<Rightarrow> 'm"
    and child :: "'e \<Rightarrow> 't option"
    and good :: "'t \<Rightarrow> bool"
    and idx :: "'i \<Rightarrow> bool"
    and none :: 'e
    and depth :: nat
  assumes entry_put: "good t \<Longrightarrow> good u \<Longrightarrow> idx i \<Longrightarrow> idx j \<Longrightarrow>
      entry (put m t i e) u j = (if u = t \<and> j = i then e else entry m u j)"
    and child_none: "child none = None"
begin

abbreviation at :: "'m \<Rightarrow> 't \<Rightarrow> 'i list \<Rightarrow> 't option" where
  "at m \<equiv> descend (\<lambda>t i. child (entry m t i))"

abbreviation look :: "'m \<Rightarrow> 't \<Rightarrow> 'i list \<Rightarrow> 'i \<Rightarrow> 'e" where
  "look m root p i \<equiv> (case at m root p of None \<Rightarrow> none | Some t \<Rightarrow> entry m t i)"

abbreviation tree :: "'m \<Rightarrow> 't \<Rightarrow> bool" where
  "tree m root \<equiv> no_sharing depth idx (\<lambda>t i. child (entry m t i)) root \<and>
     (\<forall>p t. vpath depth idx p \<longrightarrow> at m root p = Some t \<longrightarrow> good t)"

text \<open>Two stores agree on the tables of a tree; a table outside the tree without entries.\<close>

abbreviation agree :: "'m \<Rightarrow> 'm \<Rightarrow> 't \<Rightarrow> bool" where
  "agree m m' root \<equiv> (\<forall>p t i. vpath depth idx p \<longrightarrow> at m root p = Some t \<longrightarrow> idx i \<longrightarrow>
     entry m' t i = entry m t i)"

abbreviation fresh :: "'m \<Rightarrow> 't \<Rightarrow> 't \<Rightarrow> bool" where
  "fresh m root n \<equiv> good n \<and> (\<forall>j. idx j \<longrightarrow> entry m n j = none) \<and>
     (\<forall>q. vpath depth idx q \<longrightarrow> at m root q \<noteq> Some n)"

text \<open>A write of the same bytes everywhere the tree looks changes nothing.\<close>

lemma at_cong:
  assumes "agree m m' root"
    and "vpath depth idx q"
  shows "at m' root q = at m root q"
proof (rule descend_cong [OF _ assms(2)])
  fix r u j
  assume r: "vpath depth idx (r @ [j])" "at m root r = Some u"
  then have "entry m' u j = entry m u j"
    using assms(1) vpath_butlast [OF r(1)] vpath_last [OF r(1)] by blast
  then show "child (entry m' u j) = child (entry m u j)" by simp
qed

lemma tree_cong:
  assumes "agree m m' root"
    and "tree m root"
  shows "tree m' root"
  using assms(2) at_cong [OF assms(1)] unfolding no_sharing_def by metis

lemma look_cong:
  assumes "agree m m' root"
    and "vpath depth idx q" and "idx i"
  shows "look m' root q i = look m root q i"
  using at_cong [OF assms(1,2)] assms by (simp split: option.splits)

text \<open>Linking the empty table \<open>n\<close>, which the tree did not hold, into a slot without a child.\<close>

lemma at_link:
  assumes tree: "tree m root" and p: "at m root p = Some t" "vpath depth idx (p @ [i])"
    and free: "child (entry m t i) = None"
    and new: "fresh m root n" "child e = Some n"
    and q: "vpath depth idx q"
  shows "at (put m t i e) root q = (if q = p @ [i] then Some n else at m root q)"
  using q
proof (induction q rule: rev_induct)
  case (snoc j q)
  then have vq: "vpath depth idx q" and j: "idx j" by (blast dest: vpath_butlast vpath_last)+
  have vp: "vpath depth idx p" and i: "idx i" using p(2) by (blast dest: vpath_butlast vpath_last)+
  have gt: "good t" using tree p(1) vp by blast
  have none_at: "at m root (p @ [i]) = None" by (simp add: descend_snoc p(1) free)
  note IH = snoc.IH [OF vq]
  show ?case
  proof (cases "q = p @ [i]")
    case True
    have "t \<noteq> n" and gn: "good n" and "entry m n j = none" using new(1) vp p(1) j by blast+
    then have "child (entry (put m t i e) n j) = None"
      using entry_put [OF gt gn i j] child_none by simp
    moreover have "at m root (q @ [j]) = None" by (subst descend_snoc) (simp add: True none_at)
    moreover have "q @ [j] \<noteq> p @ [i]" using True by simp
    ultimately show ?thesis
      using IH True by (subst descend_snoc) simp
  next
    case False
    show ?thesis
    proof (cases "at m root q")
      case None
      then show ?thesis using IH False p(1) by (auto simp: descend_snoc)
    next
      case (Some u)
      have gu: "good u" using tree Some vq by blast
      have same: "u = t \<longleftrightarrow> q = p"
        using tree Some p(1) no_sharingD [OF _ Some _ vq vp] by auto
      show ?thesis
        using IH False Some entry_put [OF gt gu i j, of m e] new(2) same
        by (simp add: descend_snoc)
    qed
  qed
qed (simp add: p)

lemma tree_link:
  assumes tree: "tree m root" and p: "at m root p = Some t" "vpath depth idx (p @ [i])"
    and free: "child (entry m t i) = None"
    and new: "fresh m root n" "child e = Some n"
  shows "tree (put m t i e) root"
proof -
  note at = at_link [OF assms]
  have good: "good u" if "vpath depth idx q" "at (put m t i e) root q = Some u" for q u
    using that tree new(1) at [OF that(1)] by (metis option.inject)
  have "q = q'"
    if "vpath depth idx q" "vpath depth idx q'"
      "at (put m t i e) root q = Some u" "at (put m t i e) root q' = Some u" for q q' u
    using that at [OF that(1)] at [OF that(2)] new(1) no_sharingD [OF conjunct1 [OF tree]]
    by (metis option.inject)
  with good show ?thesis by (auto simp: no_sharing_def)
qed

text \<open>Full paths see the same entries after a link as before.\<close>

lemma look_link:
  assumes tree: "tree m root" and p: "at m root p = Some t" "vpath depth idx (p @ [i])"
    and free: "child (entry m t i) = None"
    and new: "fresh m root n" "child e = Some n"
    and q: "vpath depth idx q" "length q = depth" and j: "idx j"
  shows "look (put m t i e) root q j = look m root q j"
proof -
  have vp: "vpath depth idx p" and i: "idx i" using p(2) by (blast dest: vpath_butlast vpath_last)+
  have gt: "good t" using tree p(1) vp by blast
  note at = at_link [OF tree p free new q(1)]
  show ?thesis
  proof (cases "q = p @ [i]")
    case True
    have "at m root q = None" unfolding True by (simp add: descend_snoc p(1) free)
    moreover have "t \<noteq> n" and gn: "good n" and "entry m n j = none" using new(1) vp p(1) j by blast+
    ultimately show ?thesis
      using at True entry_put [OF gt gn i j] by simp
  next
    case False
    have "length p \<noteq> depth" using p(2) by (simp add: vpath_snoc)
    then have "u \<noteq> t" if "at m root q = Some u" for u
      using that tree p(1) no_sharingD [OF _ that _ q(1) vp] q(2) by auto
    then show ?thesis
      using at False entry_put [OF gt _ i j] tree q(1) by (auto split: option.splits)
  qed
qed

text \<open>Writing an entry of a table at full depth: one lookup changes, no path does.\<close>

lemma at_leaf:
  assumes tree: "tree m root" and p: "at m root p = Some t" "vpath depth idx p" "length p = depth"
    and i: "idx i" and q: "vpath depth idx q"
  shows "at (put m t i e) root q = at m root q"
proof (rule descend_cong [OF _ q])
  fix r u j
  assume r: "vpath depth idx (r @ [j])" "at m root r = Some u"
  have vr: "vpath depth idx r" using r(1) by (rule vpath_butlast)
  have "r \<noteq> p" using r(1) p(3) by (auto simp: vpath_snoc)
  then have "u \<noteq> t" using tree r p no_sharingD [OF _ r(2) _ vr p(2)] by auto
  moreover have "good t" and "good u" using tree p r vr by blast+
  ultimately show "child (entry (put m t i e) u j) = child (entry m u j)"
    using entry_put [of t u i j m e] i vpath_last [OF r(1)] by simp
qed

lemma tree_leaf:
  assumes "tree m root" and "at m root p = Some t" "vpath depth idx p" "length p = depth"
    and "idx i"
  shows "tree (put m t i e) root"
  using assms(1) at_leaf [OF assms] unfolding no_sharing_def by metis

lemma look_leaf:
  assumes tree: "tree m root" and p: "at m root p = Some t" "vpath depth idx p" "length p = depth"
    and i: "idx i" and q: "vpath depth idx q" and j: "idx j"
  shows "look (put m t i e) root q j = (if q = p \<and> j = i then e else look m root q j)"
proof -
  have gt: "good t" using tree p by blast
  have "u = t \<longleftrightarrow> q = p" if "at m root q = Some u" for u
    using that tree p(1) no_sharingD [OF _ that _ q p(2)] by auto
  then show ?thesis
    using at_leaf [OF tree p i q] entry_put [OF gt _ i j] tree q p(1)
    by (auto split: option.splits)
qed

end

end
