(* ===== verification/PageTableProps.thy ===== *)
theory PageTableProps
  imports TableTree
begin

text \<open>
  Page tables in the byte memory: where the slots of a table lie, the tree of tables below a root,
  the translation of an address by the walk the hardware makes, and the invariant of the memory
  manager: the tables form a tree of distinct pages the allocator has handed out, so that neither
  a table nor the allocation bitmap is ever overwritten through another.
\<close>

section \<open>Slots\<close>

abbreviation idx9 :: "u64 \<Rightarrow> bool" where
  "idx9 i \<equiv> i < 512"

lemma unat_idx9: "idx9 i \<Longrightarrow> unat i < 512"
  by (simp add: word_less_nat_alt)

lemma unat_entry_off: "idx9 i \<Longrightarrow> unat (8 * i :: u64) = 8 * unat i"
  by (subst unat_mult_no_wrap) (use unat_idx9 [of i] in simp_all)

lemma entry_addr_page:
  assumes "page_aligned t" and "idx9 i" and "k < 8"
  shows "page_no (entry_addr t i + k) = page_no t"
    and "page_off (entry_addr t i + k) = 8 * unat i + unat k"
proof -
  have k: "unat k < 8" using assms(3) by (simp add: word_less_nat_alt)
  have sum: "unat (8 * i + k) = 8 * unat i + unat k"
    using unat_idx9 [OF assms(2)] k
    by (subst unat_add_no_wrap) (simp_all add: unat_entry_off [OF assms(2)])
  have "unat (8 * i + k) < 4096"
    using unat_idx9 [OF assms(2)] k by (simp add: sum)
  from page_no_plus [OF assms(1) this]
  show "page_no (entry_addr t i + k) = page_no t"
    and "page_off (entry_addr t i + k) = 8 * unat i + unat k"
    by (simp_all add: entry_addr_def sum add.assoc)
qed

text \<open>The bytes of slot \<open>i\<close> of the table at \<open>t\<close>.\<close>

lemma in_slot_iff:
  assumes "page_aligned t" and "idx9 i"
  shows "x - entry_addr t i < 8 \<longleftrightarrow> page_no x = page_no t \<and> page_off x div 8 = unat i"
proof
  assume x: "x - entry_addr t i < 8"
  have eq: "entry_addr t i + (x - entry_addr t i) = x" by simp
  note pg = entry_addr_page [OF assms x, unfolded eq]
  have "unat (x - entry_addr t i) < 8" using x by (simp add: word_less_nat_alt)
  then have "(8 * unat i + unat (x - entry_addr t i)) div 8 = unat i"
    by (simp add: div_mult_self2)
  then show "page_no x = page_no t \<and> page_off x div 8 = unat i" by (simp add: pg)
next
  assume x: "page_no x = page_no t \<and> page_off x div 8 = unat i"
  define k :: u64 where "k = word_of_nat (page_off x mod 8)"
  have uk: "unat k = page_off x mod 8"
    unfolding k_def by (simp add: unsigned_of_nat take_bit_nat_eq_self less_trans [of _ 8])
  have k: "k < 8" by (simp add: word_less_nat_alt uk)
  have "x = entry_addr t i + k"
  proof (rule page_addr_eqI)
    show "page_no x = page_no (entry_addr t i + k)"
      using x by (simp add: entry_addr_page [OF assms k])
    have "8 * unat i + page_off x mod 8 = page_off x"
      using x mult_div_mod_eq [of 8 "page_off x"] by simp
    then show "page_off x = page_off (entry_addr t i + k)"
      by (simp add: entry_addr_page [OF assms k] uk)
  qed
  then show "x - entry_addr t i < 8" using k by simp
qed

lemma store_slot_outside:
  assumes "page_aligned t" and "idx9 i" and "page_no x \<noteq> page_no t"
  shows "store64 m (entry_addr t i) v x = m x"
  using in_slot_iff [OF assms(1,2)] assms(3) by (simp add: store64_other_byte)

lemma page_aligned_no_eq: "page_aligned t \<Longrightarrow> page_aligned u \<Longrightarrow> page_no t = page_no u \<Longrightarrow> t = u"
  by (rule page_addr_eqI) (simp_all add: page_aligned_iff)

lemma load64_slot_other:
  assumes "page_aligned t" and "page_aligned u" and "idx9 i" and "idx9 j" and "u \<noteq> t \<or> j \<noteq> i"
  shows "load64 (store64 m (entry_addr t i) v) (entry_addr u j) = load64 m (entry_addr u j)"
proof (rule load64_cong)
  fix k :: u64
  assume k: "k < 8"
  have "unat k < 8" using k by (simp add: word_less_nat_alt)
  then have "page_off (entry_addr u j + k) div 8 = unat j"
    by (simp add: entry_addr_page [OF assms(2,4) k])
  then have "\<not> entry_addr u j + k - entry_addr t i < 8"
    using assms(5) page_aligned_no_eq [OF assms(1,2)]
    by (auto simp: in_slot_iff [OF assms(1,3)] entry_addr_page [OF assms(2,4) k] word_unat_eq_iff)
  then show "store64 m (entry_addr t i) v (entry_addr u j + k) = m (entry_addr u j + k)"
    by (simp add: store64_other_byte)
qed

lemma load64_page_cong:
  assumes "page_aligned t" and "idx9 i" and "\<And>x. page_no x = page_no t \<Longrightarrow> m' x = m x"
  shows "load64 m' (entry_addr t i) = load64 m (entry_addr t i)"
  by (rule load64_cong) (simp add: assms(3) entry_addr_page [OF assms(1,2)])

section \<open>The tree of tables\<close>

text \<open>An entry the walk follows: the low two bits are set, and the link is its address field.\<close>

definition is_table :: "u64 \<Rightarrow> bool" where
  "is_table e \<longleftrightarrow> pte_get Valid e \<noteq> 0 \<and> pte_get Table e \<noteq> 0"

definition next_table :: "u64 \<Rightarrow> u64 option" where
  "next_table e = (if is_table e then Some (get_page_table_entry_address e) else None)"

lemma pte_get_zero [simp]: "pte_get f 0 = 0"
  by (simp add: pte_get_def)

lemma next_table_0 [simp]: "next_table 0 = None"
  by (simp add: next_table_def is_table_def)

interpretation pt: table_store "\<lambda>m t i. load64 m (entry_addr t i)"
  "\<lambda>m t i e. store64 m (entry_addr t i) e" next_table page_aligned idx9 0 3
  by unfold_locales (auto simp: load64_slot_other)

text \<open>The table a path of indices leads to, and the entry of a page by its four indices.\<close>

definition table_at :: "memory \<Rightarrow> u64 \<Rightarrow> u64 list \<Rightarrow> u64 option" where
  "table_at m root p = descend (\<lambda>t i. next_table (load64 m (entry_addr t i))) root p"

definition page_entry :: "memory \<Rightarrow> u64 \<Rightarrow> u64 list \<Rightarrow> u64 \<Rightarrow> u64" where
  "page_entry m root p i =
     (case table_at m root p of None \<Rightarrow> 0 | Some t \<Rightarrow> load64 m (entry_addr t i))"

text \<open>
  The walk of the hardware with a 4 KiB granule and four levels of lookup: nine bits of the address
  select the entry at each level, and the entry of the last level gives the page.
\<close>

definition va_path :: "u64 \<Rightarrow> u64 list" where
  "va_path va = [level_idx 39 va, level_idx 30 va, level_idx 21 va]"

definition leaf_entry :: "memory \<Rightarrow> u64 \<Rightarrow> u64 \<Rightarrow> u64" where
  "leaf_entry m root va = page_entry m root (va_path va) (level_idx 12 va)"

definition translate :: "memory \<Rightarrow> u64 \<Rightarrow> u64 \<Rightarrow> u64 option" where
  "translate m root va =
     (let e = leaf_entry m root va
      in if is_table e then Some (get_page_table_entry_address e + (va AND 0xFFF)) else None)"

lemma level_idx_less: "idx9 (level_idx n va)"
proof -
  have "level_idx n va \<le> 511"
    unfolding level_idx_def IDX_MASK_def by (rule word_and_le1)
  then show ?thesis by (simp add: word_le_nat_alt word_less_nat_alt)
qed

abbreviation tpath :: "u64 list \<Rightarrow> bool" where
  "tpath \<equiv> vpath 3 idx9"

lemma va_path_valid [simp]: "tpath (va_path va)" "length (va_path va) = 3"
  by (simp_all add: vpath_def va_path_def level_idx_less)

text \<open>Two addresses with the same indices agree from bit 12 to bit 47.\<close>

lemma va_path_eq_iff:
  "va_path va = va_path vb \<and> level_idx 12 va = level_idx 12 vb \<longleftrightarrow>
   take_bit 36 (drop_bit 12 va) = take_bit 36 (drop_bit 12 vb)"
proof -
  have mask: "level_idx n v = take_bit 9 (drop_bit n v)" for n v
    by (simp add: level_idx_def IDX_MASK_def take_bit_eq_mask mask_eq_exp_minus_1)
  have field: "level_idx n va = level_idx n vb \<longleftrightarrow> (\<forall>k. n \<le> k \<and> k < n + 9 \<longrightarrow> bit va k = bit vb k)"
    if "n \<le> 55" for n
  proof
    assume eq: "level_idx n va = level_idx n vb"
    show "\<forall>k. n \<le> k \<and> k < n + 9 \<longrightarrow> bit va k = bit vb k"
    proof (intro allI impI)
      fix k
      assume k: "n \<le> k \<and> k < n + 9"
      then have "k - n < 9" and "n + (k - n) = k" by linarith+
      then show "bit va k = bit vb k"
        using arg_cong [OF eq, of "\<lambda>w. bit w (k - n)"] that
        by (simp add: mask bit_simps)
    qed
  next
    assume "\<forall>k. n \<le> k \<and> k < n + 9 \<longrightarrow> bit va k = bit vb k"
    then show "level_idx n va = level_idx n vb"
      unfolding mask by (intro bit_eqI) (auto simp: bit_simps)
  qed
  have "take_bit 36 (drop_bit 12 va) = take_bit 36 (drop_bit 12 vb) \<longleftrightarrow>
    (\<forall>k. 12 \<le> k \<and> k < 48 \<longrightarrow> bit va k = bit vb k)" (is "?l \<longleftrightarrow> ?r")
  proof
    assume eq: ?l
    show ?r
    proof (intro allI impI)
      fix k :: nat
      assume k: "12 \<le> k \<and> k < 48"
      then have "k - 12 < 36" and "12 + (k - 12) = k" by linarith+
      then show "bit va k = bit vb k"
        using arg_cong [OF eq, of "\<lambda>w. bit w (k - 12)"] by (simp add: bit_simps)
    qed
  next
    assume ?r
    then show ?l by (intro bit_eqI) (auto simp: bit_simps)
  qed
  moreover have "va_path va = va_path vb \<and> level_idx 12 va = level_idx 12 vb \<longleftrightarrow>
      (\<forall>k. 39 \<le> k \<and> k < 48 \<longrightarrow> bit va k = bit vb k) \<and>
      (\<forall>k. 30 \<le> k \<and> k < 39 \<longrightarrow> bit va k = bit vb k) \<and>
      (\<forall>k. 21 \<le> k \<and> k < 30 \<longrightarrow> bit va k = bit vb k) \<and>
      (\<forall>k. 12 \<le> k \<and> k < 21 \<longrightarrow> bit va k = bit vb k)" (is "_ \<longleftrightarrow> ?four")
    by (simp add: va_path_def field)
  moreover have "?four \<longleftrightarrow> (\<forall>k. 12 \<le> k \<and> k < 48 \<longrightarrow> bit va k = bit vb k)"
  proof -
    have *: "12 \<le> k \<and> k < 48 \<longleftrightarrow>
        (39 \<le> k \<and> k < 48) \<or> (30 \<le> k \<and> k < 39) \<or> (21 \<le> k \<and> k < 30) \<or> (12 \<le> k \<and> k < 21)"
      for k :: nat by linarith
    show ?thesis unfolding * by blast
  qed
  ultimately show ?thesis by simp
qed

end
