(* ===== verification/VmInvariant.thy ===== *)
theory VmInvariant
  imports PageTableProps
begin

text \<open>
  The invariant of the memory manager, the allocator's together with the tree of tables, and what
  each step of the mapping routine does to it: allocation, zeroing a fresh table, linking it, and
  descending one level.
\<close>

section \<open>Entries of a state\<close>

lemma modify_entry_modify [simp]:
  "modify_entry f a (modify_entry g a s) = modify_entry (f \<circ> g) a s"
  by (simp add: modify_entry_def entry_value_def)

text \<open>Assigning the address field, as \<open>set_page_table_entry_address\<close> does.\<close>

definition put_address :: "u64 \<Rightarrow> u64 \<Rightarrow> u64" where
  "put_address a = pte_put Nlta_47_12 (drop_bit PAGE_SHIFT (a AND 0xFFFFFFFFF000))"

lemma set_address_eq:
  "set_page_table_entry_address a n s = modify_entry (put_address n) a s"
  by (simp add: set_page_table_entry_address_def put_address_def del: drop_bit_and)

text \<open>The value of a table descriptor for \<open>n\<close> written over the old value \<open>v\<close>.\<close>

definition table_desc :: "u64 \<Rightarrow> u64 \<Rightarrow> u64" where
  "table_desc n v =
     pte_put Table 1 (pte_put Valid 1 (put_address n v))"

lemma set_next_level_table_eq:
  "set_next_level_table a n s = s\<lparr>mem := store64 (mem s) a (table_desc n (entry_value a s))\<rparr>"
  unfolding set_next_level_table_def set_address_eq Let_def modify_entry_modify
  by (simp add: modify_entry_def table_desc_def)

text \<open>Address field: what \<open>get_page_table_entry_address\<close> reads back is bits 47 to 12.\<close>

lemma address_put:
  "get_page_table_entry_address (put_address a v) = a AND 0xFFFFFFFFF000"
proof -
  have m: "(0xFFFFFFFFF000 :: u64) = push_bit 12 (mask 36)" by (simp add: mask_eq_exp_minus_1)
  show ?thesis
    unfolding get_page_table_entry_address_def put_address_def PAGE_SHIFT_def pte.get_put m
    by (rule bit_eqI) (auto simp: bit_simps)
qed

lemma address_other:
  "f \<noteq> Nlta_47_12 \<Longrightarrow> get_page_table_entry_address (pte_put f x v) = get_page_table_entry_address v"
  by (simp add: get_page_table_entry_address_def pte_get_other)

lemma low_48_address:
  assumes "page_aligned a" and "unat a < 2 ^ 48"
  shows "a AND 0xFFFFFFFFF000 = a"
proof -
  have m: "(0xFFFFFFFFF000 :: u64) = mask 48 AND NOT 0xFFF" by (simp add: mask_eq_exp_minus_1)
  have "take_bit 48 a = a"
    using assms(2) by (simp add: word_unat_eq_iff unsigned_take_bit_eq take_bit_nat_eq_self)
  then have "a AND mask 48 = a" by (simp add: take_bit_eq_mask)
  moreover have "a AND NOT 0xFFF = a"
    using assms(1) unfolding page_aligned_dvd word_unat_eq_iff unat_page_floor by simp
  ultimately show ?thesis unfolding m by (simp flip: and.assoc)
qed

lemma next_table_desc:
  assumes "page_aligned n" and "unat n < 2 ^ 48"
  shows "next_table (table_desc n v) = Some n" and "pte_get Valid (table_desc n v) \<noteq> 0"
    and "get_page_table_entry_address (table_desc n v) = n"
  using low_48_address [OF assms]
  by (simp_all add: next_table_def is_table_def table_desc_def address_other address_put
      pte_get_other pte.get_put)

lemma pa_va_id [simp]: "va_to_pa a = a" "pa_to_va a = a"
  by (simp_all add: va_to_pa_def pa_to_va_def KERNEL_BASE_VA_def)

section \<open>Zeroing a table\<close>

lemma zero_entry_loop:
  assumes "page_aligned t"
  shows "i \<le> 512 \<Longrightarrow> for_words i 512 (zero_entry t) s =
    s\<lparr>mem := \<lambda>x. if page_no x = page_no t \<and> unat i \<le> page_off x div 8 then 0 else mem s x\<rparr>"
proof (induction i s rule: for_words_run_induct [where n = 512 and f = "zero_entry t"])
  case (Done i s)
  have "page_off x div 8 < 512" for x by (simp add: page_off_def less_mult_imp_div_less)
  moreover have "512 \<le> unat i" using Done by (simp add: word_less_nat_alt)
  ultimately have "\<not> unat i \<le> page_off x div 8" for x
    by (metis le_trans linorder_not_less)
  then show ?case by (simp add: for_words_done Done)
next
  case (Step i s)
  have le: "i + 1 \<le> 512"
    using unat_add1 [OF Step.hyps] Step.hyps by (simp add: word_le_nat_alt word_less_nat_alt)
  define M where "M = mem (zero_entry t i s)"
  have z: "M x = (if page_no x = page_no t \<and> page_off x div 8 = unat i then 0 else mem s x)" for x
    by (simp add: M_def zero_entry_def modify_entry_def store64_def in_slot_iff [OF assms Step.hyps])
  have s: "zero_entry t i s = s\<lparr>mem := M\<rparr>"
    by (simp add: M_def zero_entry_def modify_entry_def)
  have "(\<lambda>x. if page_no x = page_no t \<and> unat (i + 1) \<le> page_off x div 8 then 0 else M x) =
    (\<lambda>x. if page_no x = page_no t \<and> unat i \<le> page_off x div 8 then 0 else mem s x)"
    by (rule ext) (auto simp: z unat_add1 [OF Step.hyps] Suc_le_eq le_less)
  with Step.IH [OF le] show ?case
    unfolding for_words_step [OF Step.hyps] s by (simp cong: if_cong)
qed

lemma page_table_init_eq:
  assumes "page_aligned t"
  shows "page_table_init t s = s\<lparr>mem := \<lambda>x. if page_no x = page_no t then 0 else mem s x\<rparr>"
  using zero_entry_loop [OF assms, of 0 s] by (simp add: page_table_init_def PTRS_PER_TABLE_def)

lemma load64_zero_page:
  assumes "page_aligned t" and "idx9 j" and "\<And>x. page_no x = page_no t \<Longrightarrow> m x = 0"
  shows "load64 m (entry_addr t j) = 0"
proof -
  have "load64 m (entry_addr t j) = load64 (\<lambda>_. 0) (entry_addr t j)"
    by (rule load64_page_cong [OF assms(1,2)]) (simp add: assms(3))
  then show ?thesis by (simp add: load64_def)
qed

section \<open>Counting free pages\<close>

definition free_pages :: "kernel \<Rightarrow> nat" where
  "free_pages s = length (filter (\<lambda>k. \<not> page_used s k) [0 ..< unat (total_pages s)])"

lemma free_pages_card: "free_pages s = card {k. k < unat (total_pages s) \<and> \<not> page_used s k}"
  unfolding free_pages_def
  by (subst distinct_card [symmetric]) (auto intro: arg_cong [where f = card])

lemma free_pages_cong:
  "page_used s' = page_used s \<Longrightarrow> total_pages s' = total_pages s \<Longrightarrow> free_pages s' = free_pages s"
  by (simp add: free_pages_def)

lemma free_pages_klog [simp, frame]: "free_pages (klog fmt args s) = free_pages s"
  by (rule free_pages_cong) simp_all

text \<open>An allocation of one page takes one free page, and fails only when there is none.\<close>

lemma alloc_free_pages:
  assumes "source_inv s" and "page_alloc 1 s = (p, s')"
  shows "p = 0 \<Longrightarrow> free_pages s = 0 \<and> free_pages s' = 0"
    and "p \<noteq> 0 \<Longrightarrow> free_pages s = Suc (free_pages s')"
proof -
  note eff = page_alloc_effect [OF assms]
  have wf: "alloc_wf s" and base: "mem_base s \<noteq> 0"
    using assms(1) by (simp_all add: source_inv_def)
  show "free_pages s = 0 \<and> free_pages s' = 0" if "p = 0"
  proof -
    have "first_fit (page_used s) (unat (total_pages s)) (unat (1 :: u64)) = None"
      using page_alloc_null(1) [OF wf base, of 1 s'] assms(2) that by simp
    then have "page_used s k" if "k < unat (total_pages s)" for k
    proof -
      have "\<not> free_run (page_used s) k (unat (1 :: u64))"
        using first_fit_NoneD [OF \<open>first_fit _ _ _ = None\<close>, of k] that by simp
      then obtain j where "k \<le> j" "j < k + unat (1 :: u64)" "page_used s j"
        by (auto simp: free_run_iff)
      moreover from this have "j = k" by simp
      ultimately show ?thesis by simp
    qed
    then have "free_pages s = 0" by (simp add: free_pages_def filter_empty_conv)
    then show ?thesis using free_pages_cong [OF eff(5) [OF that] eff(3)] by simp
  qed
  show "free_pages s = Suc (free_pages s')" if nz: "p \<noteq> 0"
  proof -
    obtain k where k: "k < unat (total_pages s)" "\<not> page_used s k"
      "\<And>j. page_used s' j \<longleftrightarrow> page_used s j \<or> j = k"
      using page_alloc_one [OF assms nz] by metis
    have "{j. j < unat (total_pages s) \<and> \<not> page_used s j} =
        insert k {j. j < unat (total_pages s') \<and> \<not> page_used s' j}"
      using k by (auto simp: eff(3))
    moreover have "k \<notin> {j. j < unat (total_pages s') \<and> \<not> page_used s' j}"
      using k(3) by simp
    ultimately show ?thesis by (simp add: free_pages_card)
  qed
qed

section \<open>The invariant\<close>

definition vm_inv :: "kernel \<Rightarrow> u64 \<Rightarrow> bool" where
  "vm_inv s root \<longleftrightarrow> source_inv s \<and>
     unat (mem_base s) + 4096 * unat (total_pages s) \<le> 2 ^ 48 \<and>
     no_sharing 3 idx9 (\<lambda>t i. next_table (load64 (mem s) (entry_addr t i))) root \<and>
     (\<forall>p t. vpath 3 idx9 p \<longrightarrow> table_at (mem s) root p = Some t \<longrightarrow>
        ps.usable s t \<and>
        (\<forall>i. idx9 i \<longrightarrow> pte_get Valid (load64 (mem s) (entry_addr t i)) \<noteq> 0 \<longrightarrow>
           pte_get Table (load64 (mem s) (entry_addr t i)) \<noteq> 0))"

lemma vm_inv_source: "vm_inv s root \<Longrightarrow> source_inv s"
  by (simp add: vm_inv_def)

lemma vm_inv_usable:
  "vm_inv s root \<Longrightarrow> vpath 3 idx9 p \<Longrightarrow> table_at (mem s) root p = Some t \<Longrightarrow> ps.usable s t"
  by (simp add: vm_inv_def)

lemma usable_aligned: "ps.usable s t \<Longrightarrow> page_aligned t" and usable_nonzero: "ps.usable s t \<Longrightarrow> t \<noteq> 0"
  by (simp_all add: ps.usable_def)

lemma vm_inv_tree:
  assumes "vm_inv s root"
  shows "pt.tree (mem s) root"
  using assms usable_aligned unfolding vm_inv_def table_at_def by blast

lemma usable_low:
  assumes "source_inv s" and "unat (mem_base s) + 4096 * unat (total_pages s) \<le> 2 ^ 48"
    and "ps.usable s t"
  shows "unat t < 2 ^ 48"
proof -
  from assms(3) obtain k where k: "page_used s k" "t = page_addr s k"
    by (auto simp: ps.usable_def page_owned_def)
  have "unat t = unat (mem_base s) + 4096 * k"
    using assms(1) unat_page_addr [OF _ page_used_less [OF k(1)]] by (simp add: k(2) source_inv_def)
  then show ?thesis using assms(2) page_used_less [OF k(1)] by simp
qed

text \<open>A change of the state that leaves the bytes of the tables alone.\<close>

definition same_tables :: "kernel \<Rightarrow> kernel \<Rightarrow> u64 \<Rightarrow> bool" where
  "same_tables s s' root \<longleftrightarrow> (\<forall>p t x. vpath 3 idx9 p \<longrightarrow> table_at (mem s) root p = Some t \<longrightarrow>
     page_no x = page_no t \<longrightarrow> mem s' x = mem s x)"

definition tables_usable :: "kernel \<Rightarrow> kernel \<Rightarrow> u64 \<Rightarrow> bool" where
  "tables_usable s s' root \<longleftrightarrow>
     (\<forall>p t. vpath 3 idx9 p \<longrightarrow> table_at (mem s) root p = Some t \<longrightarrow> ps.usable s' t)"

lemma vm_frame:
  assumes inv: "vm_inv s root" and src: "source_inv s'"
    and pool: "mem_base s' = mem_base s" "total_pages s' = total_pages s"
    and use: "tables_usable s s' root"
    and bytes: "same_tables s s' root"
  shows "vm_inv s' root"
    and "vpath 3 idx9 q \<Longrightarrow> table_at (mem s') root q = table_at (mem s) root q"
    and "vpath 3 idx9 q \<Longrightarrow> idx9 i \<Longrightarrow> page_entry (mem s') root q i = page_entry (mem s) root q i"
proof -
  have same: "load64 (mem s') (entry_addr t i) = load64 (mem s) (entry_addr t i)"
    if "vpath 3 idx9 p" "table_at (mem s) root p = Some t" "idx9 i" for p t i
    using bytes vm_inv_usable [OF inv that(1,2)] that
    by (intro load64_page_cong) (auto simp: usable_aligned same_tables_def)
  then have agree: "pt.agree (mem s) (mem s') root" by (simp add: table_at_def)
  show at: "table_at (mem s') root q = table_at (mem s) root q" if "vpath 3 idx9 q" for q
    unfolding table_at_def by (rule pt.at_cong [OF agree that])
  show "page_entry (mem s') root q i = page_entry (mem s) root q i"
    if "vpath 3 idx9 q" "idx9 i" for q i
    unfolding page_entry_def table_at_def by (rule pt.look_cong [OF agree that])
  show "vm_inv s' root"
    using inv src pool use at same pt.tree_cong [OF agree vm_inv_tree [OF inv]]
    unfolding vm_inv_def tables_usable_def by simp
qed

end
