(* ===== verification/MapSteps.thy ===== *)
theory MapSteps
  imports VmInvariant
begin

text \<open>
  One level of \<open>map_page\<close>: what \<open>get_next_level_table\<close> does to the tree of tables, to the page
  entries and to the stock of free pages.
\<close>

section \<open>Linking a fresh table\<close>

definition unlinked :: "kernel \<Rightarrow> u64 \<Rightarrow> u64 \<Rightarrow> bool" where
  "unlinked s root n \<longleftrightarrow> (\<forall>q. vpath 3 idx9 q \<longrightarrow> table_at (mem s) root q \<noteq> Some n)"

definition all_zero :: "kernel \<Rightarrow> u64 \<Rightarrow> bool" where
  "all_zero s n \<longleftrightarrow> (\<forall>j. idx9 j \<longrightarrow> load64 (mem s) (entry_addr n j) = 0)"

lemma store_slot_usable:
  fixes e :: u64
  assumes "source_inv s" and "ps.usable s t" and "idx9 i"
  defines "s' \<equiv> s\<lparr>mem := store64 (mem s) (entry_addr t i) e\<rparr>"
  shows "source_inv s'" and "ps.usable s' u = ps.usable s u"
  using ps.write_usable [OF assms(1,2), of "store64 (mem s) (entry_addr t i) e"]
    store_slot_outside [OF usable_aligned [OF assms(2)] assms(3)]
  by (simp_all add: s'_def)

lemma link_table:
  fixes v :: u64
  assumes inv: "vm_inv s root" and p: "table_at (mem s) root p = Some t" "vpath 3 idx9 (p @ [i])"
    and free: "pte_get Valid (load64 (mem s) (entry_addr t i)) = 0"
    and new: "ps.usable s n" "unlinked s root n" "all_zero s n"
  defines "s' \<equiv> s\<lparr>mem := store64 (mem s) (entry_addr t i) (table_desc n v)\<rparr>"
  shows "vm_inv s' root"
    and "vpath 3 idx9 q \<Longrightarrow>
      table_at (mem s') root q = (if q = p @ [i] then Some n else table_at (mem s) root q)"
    and "vpath 3 idx9 q \<Longrightarrow> length q = 3 \<Longrightarrow> idx9 j \<Longrightarrow>
      page_entry (mem s') root q j = page_entry (mem s) root q j"
proof -
  have vp: "vpath 3 idx9 p" and i: "idx9 i" using p(2) by (blast dest: vpath_butlast vpath_last)+
  have ut: "ps.usable s t" by (rule vm_inv_usable [OF inv vp p(1)])
  note src = store_slot_usable [OF vm_inv_source [OF inv] ut i, of "table_desc n v", folded s'_def]
  note tree = vm_inv_tree [OF inv]
  have ntab: "next_table (load64 (mem s) (entry_addr t i)) = None"
    using free by (simp add: next_table_def is_table_def)
  have fresh: "pt.fresh (mem s) root n"
    using new usable_aligned [OF new(1)] by (auto simp: unlinked_def all_zero_def table_at_def)
  have low: "unat n < 2 ^ 48"
    using usable_low [OF vm_inv_source [OF inv] _ new(1)] inv by (simp add: vm_inv_def)
  note desc = next_table_desc [OF usable_aligned [OF new(1)] low, of v]
  note link = tree p(1) [unfolded table_at_def] p(2) ntab fresh desc(1)
  show at: "table_at (mem s') root q = (if q = p @ [i] then Some n else table_at (mem s) root q)"
    if "vpath 3 idx9 q" for q
    using pt.at_link [OF link that] by (simp add: s'_def table_at_def)
  show "page_entry (mem s') root q j = page_entry (mem s) root q j"
    if "vpath 3 idx9 q" "length q = 3" "idx9 j" for q j
    using pt.look_link [OF link that] by (simp add: s'_def page_entry_def table_at_def)
  have ent: "load64 (mem s') (entry_addr u j) =
      (if u = t \<and> j = i then table_desc n v else load64 (mem s) (entry_addr u j))"
    if "ps.usable s u" "idx9 j" for u j
    using pt.entry_put [OF usable_aligned [OF ut] usable_aligned [OF that(1)] i that(2)]
    by (simp add: s'_def)
  have tab: "pte_get Table (table_desc n v) \<noteq> 0"
    using desc(1) by (simp add: next_table_def is_table_def split: if_splits)
  have "ps.usable s' u \<and> (\<forall>j. idx9 j \<longrightarrow> pte_get Valid (load64 (mem s') (entry_addr u j)) \<noteq> 0 \<longrightarrow>
      pte_get Table (load64 (mem s') (entry_addr u j)) \<noteq> 0)"
    if q: "vpath 3 idx9 q" "table_at (mem s') root q = Some u" for q u
  proof (cases "u = n")
    case True
    then show ?thesis
      using new tab by (auto simp: src ent all_zero_def)
  next
    case False
    then have "table_at (mem s) root q = Some u"
      using at [OF q(1)] q(2) by (auto split: if_splits)
    then have "ps.usable s u" and "\<forall>j. idx9 j \<longrightarrow>
        pte_get Valid (load64 (mem s) (entry_addr u j)) \<noteq> 0 \<longrightarrow>
        pte_get Table (load64 (mem s) (entry_addr u j)) \<noteq> 0"
      using inv q(1) by (auto simp: vm_inv_def)
    then show ?thesis using tab by (simp add: src ent)
  qed
  then show "vm_inv s' root"
    using inv src(1) conjunct1 [OF pt.tree_link [OF link]] unfolding vm_inv_def
    by (simp add: s'_def)
qed

section \<open>Extending the tree\<close>

text \<open>
  The state \<open>s'\<close> has the tables of \<open>s\<close> and perhaps more, and the same page entries: no address
  translates differently.
\<close>

definition extends :: "kernel \<Rightarrow> kernel \<Rightarrow> u64 \<Rightarrow> bool" where
  "extends s s' root \<longleftrightarrow> vm_inv s' root \<and>
     (\<forall>q t. vpath 3 idx9 q \<longrightarrow> table_at (mem s) root q = Some t \<longrightarrow>
        table_at (mem s') root q = Some t) \<and>
     (\<forall>q j. vpath 3 idx9 q \<longrightarrow> length q = 3 \<longrightarrow> idx9 j \<longrightarrow>
        page_entry (mem s') root q j = page_entry (mem s) root q j)"

lemma extends_refl: "vm_inv s root \<Longrightarrow> extends s s root"
  by (simp add: extends_def)

lemma extends_trans: "extends s s' root \<Longrightarrow> extends s' s'' root \<Longrightarrow> extends s s'' root"
  unfolding extends_def by metis

lemma extends_inv: "extends s s' root \<Longrightarrow> vm_inv s' root"
  by (simp add: extends_def)

lemma extends_table:
  "extends s s' root \<Longrightarrow> vpath 3 idx9 q \<Longrightarrow> table_at (mem s) root q = Some t \<Longrightarrow>
   table_at (mem s') root q = Some t"
  by (simp add: extends_def)

lemma extends_translate: "extends s s' root \<Longrightarrow> translate (mem s') root va = translate (mem s) root va"
  by (simp add: extends_def translate_def leaf_entry_def level_idx_less)

lemma vm_inv_klog [simp, frame]: "vm_inv (klog fmt args s) root = vm_inv s root"
  by (simp add: vm_inv_def)

lemma extends_klog [simp]: "extends s (klog fmt args s') root = extends s s' root"
  by (simp add: extends_def)

text \<open>Steps of the state that the tree does not see.\<close>

lemma extends_tables:
  assumes inv: "vm_inv s root" and src: "source_inv s'"
    and pool: "mem_base s' = mem_base s" "total_pages s' = total_pages s"
    and use: "tables_usable s s' root"
    and bytes: "same_tables s s' root"
  shows "extends s s' root"
    and "vpath 3 idx9 q \<Longrightarrow> table_at (mem s') root q = table_at (mem s) root q"
  using vm_frame [OF assms] by (auto simp: extends_def)

lemma extends_frame:
  assumes inv: "vm_inv s root" and src: "source_inv s'"
    and pool: "mem_base s' = mem_base s" "total_pages s' = total_pages s"
    and use: "\<And>t. ps.usable s t \<Longrightarrow> ps.usable s' t"
    and bytes: "same_tables s s' root"
  shows "extends s s' root"
    and "vpath 3 idx9 q \<Longrightarrow> table_at (mem s') root q = table_at (mem s) root q"
proof -
  have "tables_usable s s' root"
    using use vm_inv_usable [OF inv] by (simp add: tables_usable_def)
  note ext = extends_tables [OF inv src pool this bytes]
  show "extends s s' root" by (rule ext)
  show "vpath 3 idx9 q \<Longrightarrow> table_at (mem s') root q = table_at (mem s) root q" by (rule ext)
qed

lemma extends_alloc:
  assumes inv: "vm_inv s root" and run: "page_alloc 1 s = (n, s')"
  shows "extends s s' root"
    and "vpath 3 idx9 q \<Longrightarrow> table_at (mem s') root q = table_at (mem s) root q"
    and "n \<noteq> 0 \<Longrightarrow> ps.usable s' n \<and> unlinked s' root n"
proof -
  note src = vm_inv_source [OF inv]
  note eff = page_alloc_effect [OF src run]
  have bytes: "same_tables s s' root"
    unfolding same_tables_def
    using ps.alloc_keeps_usable [OF src run vm_inv_usable [OF inv]] by blast
  note fr = extends_frame [OF inv ps.alloc_inv [OF src run] eff(1,3) _ bytes]
  show "extends s s' root"
    by (rule fr) (simp_all add: ps.usable_alloc [OF src run])
  show at: "table_at (mem s') root q = table_at (mem s) root q" if "vpath 3 idx9 q" for q
    by (rule fr) (simp_all add: ps.usable_alloc [OF src run] that)
  show "ps.usable s' n \<and> unlinked s' root n" if "n \<noteq> 0"
    using that ps.alloc_not_usable [OF src run] vm_inv_usable [OF inv] at
    by (auto simp: ps.usable_alloc [OF src run] unlinked_def)
qed

lemma extends_zero:
  assumes inv: "vm_inv s root" and n: "ps.usable s n" "unlinked s root n"
  defines "s' \<equiv> page_table_init n s"
  shows "extends s s' root"
    and "vpath 3 idx9 q \<Longrightarrow> table_at (mem s') root q = table_at (mem s) root q"
    and "ps.usable s' n" and "unlinked s' root n" and "all_zero s' n"
    and "free_pages s' = free_pages s"
proof -
  note al = usable_aligned [OF n(1)]
  note eq = page_table_init_eq [OF al, of s, folded s'_def]
  let ?m = "\<lambda>x. if page_no x = page_no n then 0 else mem s x"
  have wr: "source_inv s'" "\<And>t. ps.usable s' t = ps.usable s t"
    using ps.write_usable [OF vm_inv_source [OF inv] n(1), of ?m] by (simp_all add: eq)
  have "mem s' x = mem s x"
    if "vpath 3 idx9 p" "table_at (mem s) root p = Some t" "page_no x = page_no t" for p t x
  proof -
    have "t \<noteq> n" using n(2) that(1,2) by (auto simp: unlinked_def)
    moreover have "page_aligned t" by (rule usable_aligned [OF vm_inv_usable [OF inv that(1,2)]])
    ultimately show ?thesis
      using page_aligned_no_eq [OF _ al] that(3) by (auto simp: eq)
  qed
  then have bytes: "same_tables s s' root" by (simp add: same_tables_def)
  have pool: "mem_base s' = mem_base s" "total_pages s' = total_pages s" by (simp_all add: eq)
  note fr = extends_frame [OF inv wr(1) pool _ bytes]
  show "extends s s' root"
    by (rule fr) (simp add: wr(2))
  show at: "table_at (mem s') root q = table_at (mem s) root q" if "vpath 3 idx9 q" for q
    by (rule fr) (simp_all add: wr(2) that)
  show "ps.usable s' n" using n(1) by (simp add: wr(2))
  show "unlinked s' root n" using n(2) at by (simp add: unlinked_def)
  show "all_zero s' n"
    unfolding all_zero_def by (intro allI impI load64_zero_page [OF al]) (simp_all add: eq)
  have "page_used s' = page_used s"
  proof (rule page_used_cong)
    show "alloc_wf s" using vm_inv_source [OF inv] by (simp add: source_inv_def)
    show "mem s' x = mem s x" if "in_bitmap s x" for x
      using that n(1) by (auto simp: eq ps.usable_def)
  qed (simp_all add: eq)
  then show "free_pages s' = free_pages s" by (rule free_pages_cong) (simp add: eq)
qed

section \<open>Descending one level\<close>

lemma free_pages_write:
  assumes "source_inv s" and "ps.usable s t" and "\<And>x. page_no x \<noteq> page_no t \<Longrightarrow> m x = mem s x"
  shows "free_pages (s\<lparr>mem := m\<rparr>) = free_pages s"
proof (rule free_pages_cong)
  show "page_used (s\<lparr>mem := m\<rparr>) = page_used s"
    by (rule page_used_cong) (use assms in \<open>auto simp: source_inv_def ps.usable_def\<close>)
qed simp

lemma allocate_new_table_spec:
  assumes inv: "vm_inv s root" and p: "table_at (mem s) root p = Some t" "vpath 3 idx9 (p @ [i])"
    and free: "pte_get Valid (load64 (mem s) (entry_addr t i)) = 0"
    and run: "allocate_new_table (entry_addr t i) s = (ok, s')"
  shows "extends s s' root"
    and "vpath 3 idx9 q \<Longrightarrow> \<not> (ok \<and> q = p @ [i]) \<Longrightarrow>
      table_at (mem s') root q = table_at (mem s) root q"
    and "ok \<Longrightarrow> table_at (mem s') root (p @ [i]) \<noteq> None"
    and "ok \<Longrightarrow> free_pages s = Suc (free_pages s')"
    and "\<not> ok \<Longrightarrow> free_pages s = 0 \<and> free_pages s' = 0"
proof -
  obtain n s1 where a: "page_alloc 1 s = (n, s1)" by (cases "page_alloc 1 s")
  note ext1 = extends_alloc [OF inv a]
  note cnt = alloc_free_pages [OF vm_inv_source [OF inv] a]
  have vp: "vpath 3 idx9 p" and i: "idx9 i" using p(2) by (blast dest: vpath_butlast vpath_last)+
  have "extends s s' root \<and>
    (\<forall>q. vpath 3 idx9 q \<longrightarrow> \<not> (ok \<and> q = p @ [i]) \<longrightarrow> table_at (mem s') root q = table_at (mem s) root q) \<and>
    (ok \<longrightarrow> table_at (mem s') root (p @ [i]) \<noteq> None) \<and>
    (ok \<longrightarrow> free_pages s = Suc (free_pages s')) \<and>
    (\<not> ok \<longrightarrow> free_pages s = 0 \<and> free_pages s' = 0)"
  proof (cases "n = 0")
    case True
    then show ?thesis
      using run a ext1(1,2) cnt(1) by (auto simp: allocate_new_table_def)
  next
    case False
    define s2 where "s2 = page_table_init n s1"
    have n: "ps.usable s1 n" "unlinked s1 root n" using ext1(3) [OF False] by simp_all
    note e2 = extends_zero [OF extends_inv [OF ext1(1)] n, folded s2_def]
    have s': "ok" "s' = s2\<lparr>mem := store64 (mem s2) (entry_addr t i)
        (table_desc n (entry_value (entry_addr t i) s2))\<rparr>"
      using run a False
      by (simp_all add: allocate_new_table_def set_next_level_table_eq s2_def Let_def)
    have p2: "table_at (mem s2) root p = Some t"
      using p(1) vp by (simp add: e2(2) ext1(2))
    have ut: "ps.usable s t" "ps.usable s2 t"
      using vm_inv_usable [OF inv vp p(1)] vm_inv_usable [OF extends_inv [OF e2(1)] vp p2] by simp_all
    have ent: "load64 (mem s2) (entry_addr t i) = load64 (mem s) (entry_addr t i)"
    proof (rule load64_page_cong [OF usable_aligned [OF ut(1)] i])
      fix x
      assume x: "page_no x = page_no t"
      have "t \<noteq> n" using ut(1) ps.alloc_not_usable [OF vm_inv_source [OF inv] a] by auto
      then have "mem s2 x = mem s1 x"
        using x page_aligned_no_eq [OF usable_aligned [OF ut(1)] usable_aligned [OF n(1)]]
        by (auto simp: s2_def page_table_init_eq [OF usable_aligned [OF n(1)]])
      then show "mem s2 x = mem s x"
        using ps.alloc_keeps_usable [OF vm_inv_source [OF inv] a ut(1) x] by simp
    qed
    have f2: "pte_get Valid (load64 (mem s2) (entry_addr t i)) = 0"
      using free ent by simp
    note link = link_table [OF extends_inv [OF e2(1)] p2 p(2) f2 e2(3-5),
        where v = "entry_value (entry_addr t i) s2", folded s'(2)]
    have none: "table_at (mem s) root (p @ [i]) = None"
      using p(1) free by (simp add: table_at_def descend_snoc next_table_def is_table_def)
    have at: "table_at (mem s') root q = (if q = p @ [i] then Some n else table_at (mem s) root q)"
      if "vpath 3 idx9 q" for q
      using link(2) [OF that] by (simp add: e2(2) ext1(2) that)
    have "extends s2 s' root"
      using link none by (auto simp: extends_def e2(2) ext1(2))
    moreover have "free_pages s' = free_pages s2"
      unfolding s'(2)
      by (rule free_pages_write [OF vm_inv_source [OF extends_inv [OF e2(1)]] ut(2)])
        (rule store_slot_outside [OF usable_aligned [OF ut(1)] i])
    ultimately show ?thesis
      using extends_trans [OF ext1(1) extends_trans [OF e2(1)]] at p(2) s'(1) cnt(2) [OF False] e2(6)
      by auto
  qed
  then show "extends s s' root"
    and "vpath 3 idx9 q \<Longrightarrow> \<not> (ok \<and> q = p @ [i]) \<Longrightarrow>
      table_at (mem s') root q = table_at (mem s) root q"
    and "ok \<Longrightarrow> table_at (mem s') root (p @ [i]) \<noteq> None"
    and "ok \<Longrightarrow> free_pages s = Suc (free_pages s')"
    and "\<not> ok \<Longrightarrow> free_pages s = 0 \<and> free_pages s' = 0" by blast+
qed

text \<open>
  The descent: it reuses the table the entry links to, or takes a free page for one. It returns
  the null pointer only when it needs a page and none is free.
\<close>

lemma get_next_level_table_spec:
  assumes inv: "vm_inv s root" and p: "table_at (mem s) root p = Some t" "vpath 3 idx9 (p @ [i])"
    and run: "get_next_level_table (entry_addr t i) s = (r, s')"
  shows "extends s s' root"
    and "r \<noteq> 0 \<Longrightarrow> table_at (mem s') root (p @ [i]) = Some r"
    and "vpath 3 idx9 q \<Longrightarrow> q \<noteq> p @ [i] \<Longrightarrow> table_at (mem s') root q = table_at (mem s) root q"
    and "table_at (mem s) root (p @ [i]) \<noteq> None \<Longrightarrow> r \<noteq> 0 \<and> s' = s"
    and "table_at (mem s) root (p @ [i]) = None \<Longrightarrow>
      (if free_pages s = 0 then r = 0 else r \<noteq> 0 \<and> free_pages s = Suc (free_pages s'))"
proof -
  let ?e = "load64 (mem s) (entry_addr t i)"
  have vp: "vpath 3 idx9 p" and i: "idx9 i" using p(2) by (blast dest: vpath_butlast vpath_last)+
  have link: "table_at m root (p @ [i]) = next_table (load64 m (entry_addr t i))"
    if "table_at m root p = Some t" for m
    using that by (simp add: table_at_def descend_snoc)
  have tab: "is_table ?e \<longleftrightarrow> pte_get Valid ?e \<noteq> 0"
    using inv p(1) vp i by (auto simp: vm_inv_def is_table_def)
  have "extends s s' root \<and> (r \<noteq> 0 \<longrightarrow> table_at (mem s') root (p @ [i]) = Some r) \<and>
    (\<forall>q. vpath 3 idx9 q \<longrightarrow> q \<noteq> p @ [i] \<longrightarrow> table_at (mem s') root q = table_at (mem s) root q) \<and>
    (table_at (mem s) root (p @ [i]) \<noteq> None \<longrightarrow> r \<noteq> 0 \<and> s' = s) \<and>
    (table_at (mem s) root (p @ [i]) = None \<longrightarrow>
      (if free_pages s = 0 then r = 0 else r \<noteq> 0 \<and> free_pages s = Suc (free_pages s')))"
  proof (cases "pte_get Valid ?e = 0")
    case False
    then have r: "r = get_page_table_entry_address ?e" "s' = s"
      using run by (auto simp: get_next_level_table_def entry_value_def)
    then have "table_at (mem s) root (p @ [i]) = Some r"
      using link [OF p(1)] tab False by (simp add: next_table_def)
    moreover from this have "r \<noteq> 0" using usable_nonzero [OF vm_inv_usable [OF inv p(2)]] by blast
    ultimately show ?thesis using r(2) inv by (simp add: extends_refl)
  next
    case True
    obtain ok s1 where a: "allocate_new_table (entry_addr t i) s = (ok, s1)"
      by (cases "allocate_new_table (entry_addr t i) s")
    note spec = allocate_new_table_spec [OF inv p True a]
    have none: "table_at (mem s) root (p @ [i]) = None"
      using link [OF p(1)] tab True by (simp add: next_table_def)
    have s1: "s' = s1"
      using run a True by (auto simp: get_next_level_table_def entry_value_def split: if_splits)
    show ?thesis
    proof (cases ok)
      case False
      then have "r = 0"
        using run a True by (simp add: get_next_level_table_def entry_value_def)
      with False show ?thesis using spec none s1 by auto
    next
      case ok: True
      then have r: "r = get_page_table_entry_address (load64 (mem s1) (entry_addr t i))"
        using run a True s1 by (auto simp: get_next_level_table_def entry_value_def)
      have "table_at (mem s1) root p = Some t"
        by (rule extends_table [OF spec(1) vp p(1)])
      then have at: "table_at (mem s1) root (p @ [i]) = Some r"
        using spec(3) [OF ok] link r by (auto simp: next_table_def split: if_splits)
      then have "r \<noteq> 0"
        using usable_nonzero [OF vm_inv_usable [OF extends_inv [OF spec(1)] p(2)]] by blast
      then show ?thesis using spec ok at s1 none by auto
    qed
  qed
  then show "extends s s' root"
    and "r \<noteq> 0 \<Longrightarrow> table_at (mem s') root (p @ [i]) = Some r"
    and "vpath 3 idx9 q \<Longrightarrow> q \<noteq> p @ [i] \<Longrightarrow> table_at (mem s') root q = table_at (mem s) root q"
    and "table_at (mem s) root (p @ [i]) \<noteq> None \<Longrightarrow> r \<noteq> 0 \<and> s' = s"
    and "table_at (mem s) root (p @ [i]) = None \<Longrightarrow>
      (if free_pages s = 0 then r = 0 else r \<noteq> 0 \<and> free_pages s = Suc (free_pages s'))"
    by blast+
qed

end
