(* ===== verification/MapPage.thy ===== *)
theory MapPage
  imports MapSteps
begin

text \<open>
  \<open>map_page\<close> as a whole: the value it writes into the page entry, its decomposition into three
  descents and one write, the number of free pages it needs, and the bytes it never touches.
\<close>

section \<open>The page descriptor\<close>

definition perm_ap :: "page_permissions \<Rightarrow> aptable_values" where
  "perm_ap perms =
     (if \<not> perm_read perms then APTABLE_EL0_NO_ACCESS_EL1_NO_WRITE
      else if perm_write perms then APTABLE_EL0_NO_RESTRICTION_EL1_NO_RESTRICTION
      else APTABLE_EL0_NO_WRITE_EL1_NO_WRITE)"

definition page_desc :: "u64 \<Rightarrow> page_permissions \<Rightarrow> u64" where
  "page_desc pa perms =
     (let x = (if perm_execute perms then 0 else 1)
      in pte_put Ap_table (aptable_code (perm_ap perms))
           (pte_put Pxn_table x (pte_put Xn_table x
              (pte_put Table 1 (pte_put Valid 1 (put_address pa 0))))))"

lemma write_leaf_eq:
  "write_leaf a pa perms s = s\<lparr>mem := store64 (mem s) a (page_desc pa perms)\<rparr>"
  unfolding write_leaf_def set_address_eq Let_def modify_entry_modify if_distrib [symmetric]
  by (cases "perm_execute perms"; cases "perm_write perms"; cases "perm_read perms";
      simp add: modify_entry_def entry_value_def page_desc_def perm_ap_def pte.put_put)

lemma aptable_code_small: "take_bit 2 (aptable_code a) = aptable_code a"
  by (cases a) simp_all

lemma page_desc_fields:
  "pte_get Valid (page_desc pa perms) = 1"
  "pte_get Table (page_desc pa perms) = 1"
  "pte_get Xn_table (page_desc pa perms) = (if perm_execute perms then 0 else 1)"
  "pte_get Pxn_table (page_desc pa perms) = (if perm_execute perms then 0 else 1)"
  "pte_get Ap_table (page_desc pa perms) = aptable_code (perm_ap perms)"
  "get_page_table_entry_address (page_desc pa perms) = pa AND 0xFFFFFFFFF000"
  by (simp_all add: page_desc_def Let_def pte_get_other pte.get_put address_other address_put
      aptable_code_small)

lemma page_desc_table: "is_table (page_desc pa perms)"
  by (simp add: is_table_def page_desc_fields)

section \<open>Three descents\<close>

definition missing_tables :: "memory \<Rightarrow> u64 \<Rightarrow> u64 \<Rightarrow> nat" where
  "missing_tables m root va =
     length (filter (\<lambda>n. table_at m root (take n (va_path va)) = None) [1, 2, 3])"

lemma missing_tables_sum:
  "missing_tables m root va =
     of_bool (table_at m root [level_idx 39 va] = None) +
     of_bool (table_at m root [level_idx 39 va, level_idx 30 va] = None) +
     of_bool (table_at m root [level_idx 39 va, level_idx 30 va, level_idx 21 va] = None)"
  by (simp add: missing_tables_def va_path_def numeral_2_eq_2 numeral_3_eq_3)

text \<open>
  The three levels one after the other: \<open>descend3\<close> is the part of \<open>map_page\<close> between the check of
  the address and the write of the entry.
\<close>

definition descend3 :: "u64 \<Rightarrow> u64 \<Rightarrow> kernel \<Rightarrow> u64 \<times> kernel" where
  "descend3 root va s =
     (let (level1, s) = get_next_level_table (entry_addr root (level_idx 39 va)) s
      in if level1 = 0 then
           (0, klog ''Failed to get level 1 page table for VA 0x%lx\<newline>'' [A64 va] s)
         else
           let (level2, s) = get_next_level_table (entry_addr level1 (level_idx 30 va)) s
           in if level2 = 0 then
                (0, klog ''Failed to get level 2 page table for VA 0x%lx\<newline>'' [A64 va] s)
              else
                let (level3, s) = get_next_level_table (entry_addr level2 (level_idx 21 va)) s
                in if level3 = 0 then
                     (0, klog ''Failed to get level 3 page table for VA 0x%lx\<newline>'' [A64 va] s)
                   else (level3, s))"

lemma map_page_descend3:
  "map_page root va pa perms s =
     (if pa AND 0xFFF \<noteq> 0 then
        (False, klog ''Error: Physical address 0x%lx is not page aligned\<newline>'' [A64 pa] s)
      else
        let (level3, s) = descend3 root va s
        in if level3 = 0 then (False, s)
           else (True, write_leaf (entry_addr level3 (level_idx 12 va)) pa perms s))"
  by (simp add: map_page_def descend3_def Let_def split: prod.splits)

text \<open>An invariant of one descent is an invariant of all three.\<close>

lemma descend3_spec:
  assumes inv: "vm_inv s root" and run: "descend3 root va s = (t, s')"
  shows "extends s s' root"
    and "t \<noteq> 0 \<Longrightarrow> table_at (mem s') root (va_path va) = Some t"
    and "t \<noteq> 0 \<longleftrightarrow> missing_tables (mem s) root va \<le> free_pages s"
    and "t \<noteq> 0 \<Longrightarrow> free_pages s = missing_tables (mem s) root va + free_pages s'"
proof -
  let ?a = "level_idx 39 va" and ?b = "level_idx 30 va" and ?c = "level_idx 21 va"
  have root: "table_at (mem s) root [] = Some root" by (simp add: table_at_def)
  have path: "vpath 3 idx9 [?a]" "vpath 3 idx9 [?a, ?b]" "vpath 3 idx9 [?a, ?b, ?c]"
    by (simp_all add: vpath_def level_idx_less)
  obtain r1 s1 where g1: "get_next_level_table (entry_addr root ?a) s = (r1, s1)"
    by (cases "get_next_level_table (entry_addr root ?a) s")
  note sp1 = get_next_level_table_spec [OF inv root _ g1, simplified, OF path(1)]
  have old1: "table_at (mem s1) root [?a, ?b] = table_at (mem s) root [?a, ?b]"
    "table_at (mem s1) root [?a, ?b, ?c] = table_at (mem s) root [?a, ?b, ?c]"
    by (rule sp1(3); simp add: path)+
  have "extends s s' root \<and> (t \<noteq> 0 \<longrightarrow> table_at (mem s') root (va_path va) = Some t) \<and>
      (t \<noteq> 0 \<longleftrightarrow> missing_tables (mem s) root va \<le> free_pages s) \<and>
      (t \<noteq> 0 \<longrightarrow> free_pages s = missing_tables (mem s) root va + free_pages s')"
  proof (cases "r1 = 0")
    case True
    then show ?thesis
      using run g1 sp1(1,4,5) by (auto simp: descend3_def missing_tables_sum split: if_splits)
  next
    case r1: False
    obtain r2 s2 where g2: "get_next_level_table (entry_addr r1 ?b) s1 = (r2, s2)"
      by (cases "get_next_level_table (entry_addr r1 ?b) s1")
    note sp2 = get_next_level_table_spec [OF extends_inv [OF sp1(1)] sp1(2) [OF r1] _ g2,
        simplified, OF path(2)]
    have old2: "table_at (mem s2) root [?a, ?b, ?c] = table_at (mem s) root [?a, ?b, ?c]"
      by (subst sp2(3); simp add: path old1)
    have cnt1: "free_pages s = of_bool (table_at (mem s) root [?a] = None) + free_pages s1"
      using sp1(4,5) r1 by (cases "table_at (mem s) root [?a]") (auto split: if_splits)
    show ?thesis
    proof (cases "r2 = 0")
      case True
      then have "table_at (mem s) root [?a, ?b] = None \<and> free_pages s1 = 0"
        using sp2(4,5) unfolding old1
        by (cases "table_at (mem s) root [?a, ?b]") (auto split: if_splits)
      then show ?thesis
        using run g1 g2 r1 True cnt1 extends_trans [OF sp1(1) sp2(1)]
        by (auto simp: descend3_def missing_tables_sum)
    next
      case r2: False
      obtain r3 s3 where g3: "get_next_level_table (entry_addr r2 ?c) s2 = (r3, s3)"
        by (cases "get_next_level_table (entry_addr r2 ?c) s2")
      note sp3 = get_next_level_table_spec [OF extends_inv [OF sp2(1)] sp2(2) [OF r2] _ g3,
          simplified, OF path(3)]
      have cnt2: "free_pages s1 = of_bool (table_at (mem s) root [?a, ?b] = None) + free_pages s2"
        using sp2(4,5) r2 unfolding old1
        by (cases "table_at (mem s) root [?a, ?b]") (auto split: if_splits)
      have cnt3: "r3 = 0 \<longleftrightarrow> table_at (mem s) root [?a, ?b, ?c] = None \<and> free_pages s2 = 0"
        using sp3(4,5) unfolding old2
        by (cases "table_at (mem s) root [?a, ?b, ?c]") (auto split: if_splits)
      have out: "t = r3" "extends s3 s' root" "r3 \<noteq> 0 \<Longrightarrow> s' = s3"
        using run g1 g2 g3 r1 r2 extends_refl [OF extends_inv [OF sp3(1)]]
        by (auto simp: descend3_def split: if_splits)
      have "extends s s' root"
        by (rule extends_trans [OF sp1(1) extends_trans [OF sp2(1) extends_trans [OF sp3(1) out(2)]]])
      moreover have "t \<noteq> 0 \<longrightarrow> table_at (mem s') root (va_path va) = Some t"
        using sp3(2) out by (simp add: va_path_def)
      moreover have "t \<noteq> 0 \<longleftrightarrow> missing_tables (mem s) root va \<le> free_pages s"
        unfolding missing_tables_sum out(1) cnt3 cnt1 cnt2 by (simp add: of_bool_def Suc_le_eq)
      moreover have "t \<noteq> 0 \<longrightarrow> free_pages s = missing_tables (mem s) root va + free_pages s'"
        using sp3(4,5) out cnt1 cnt2 unfolding missing_tables_sum old2
        by (cases "table_at (mem s) root [?a, ?b, ?c]") (auto split: if_splits)
      ultimately show ?thesis by blast
    qed
  qed
  then show "extends s s' root"
    and "t \<noteq> 0 \<Longrightarrow> table_at (mem s') root (va_path va) = Some t"
    and "t \<noteq> 0 \<longleftrightarrow> missing_tables (mem s) root va \<le> free_pages s"
    and "t \<noteq> 0 \<Longrightarrow> free_pages s = missing_tables (mem s) root va + free_pages s'" by blast+
qed

section \<open>Writing the page entry\<close>

lemma write_leaf_spec:
  fixes pa :: u64 and perms :: page_permissions
  assumes inv: "vm_inv s root" and t: "table_at (mem s) root (va_path va) = Some t"
  defines "s' \<equiv> write_leaf (entry_addr t (level_idx 12 va)) pa perms s"
  shows "vm_inv s' root"
    and "vpath 3 idx9 q \<Longrightarrow> table_at (mem s') root q = table_at (mem s) root q"
    and "leaf_entry (mem s') root va = page_desc pa perms"
    and "va_path vb \<noteq> va_path va \<or> level_idx 12 vb \<noteq> level_idx 12 va \<Longrightarrow>
      leaf_entry (mem s') root vb = leaf_entry (mem s) root vb"
    and "free_pages s' = free_pages s"
proof -
  have i: "idx9 (level_idx 12 va)" by (rule level_idx_less)
  note ut = vm_inv_usable [OF inv va_path_valid(1) t]
  note tree = vm_inv_tree [OF inv]
  have s': "s' = s\<lparr>mem := store64 (mem s) (entry_addr t (level_idx 12 va)) (page_desc pa perms)\<rparr>"
    by (simp add: s'_def write_leaf_eq)
  note leaf = tree t [unfolded table_at_def] va_path_valid(1,2) i
  show at: "table_at (mem s') root q = table_at (mem s) root q" if "vpath 3 idx9 q" for q
    using pt.at_leaf [OF leaf that] by (simp add: s' table_at_def)
  have look: "page_entry (mem s') root q j =
      (if q = va_path va \<and> j = level_idx 12 va then page_desc pa perms
       else page_entry (mem s) root q j)" if "vpath 3 idx9 q" "idx9 j" for q j
    using pt.look_leaf [OF leaf that] by (simp add: s' page_entry_def table_at_def)
  show "leaf_entry (mem s') root va = page_desc pa perms"
    by (simp add: leaf_entry_def look level_idx_less)
  show "leaf_entry (mem s') root vb = leaf_entry (mem s) root vb"
    if "va_path vb \<noteq> va_path va \<or> level_idx 12 vb \<noteq> level_idx 12 va"
    using that by (auto simp: leaf_entry_def look level_idx_less)
  note src = store_slot_usable [OF vm_inv_source [OF inv] ut i, of "page_desc pa perms", folded s']
  have "load64 (mem s') (entry_addr u j) =
      (if u = t \<and> j = level_idx 12 va then page_desc pa perms else load64 (mem s) (entry_addr u j))"
    if "ps.usable s u" "idx9 j" for u j
    using pt.entry_put [OF usable_aligned [OF ut] usable_aligned [OF that(1)] i that(2)]
    by (simp add: s')
  then show "vm_inv s' root"
    using inv src at conjunct1 [OF pt.tree_leaf [OF leaf]] unfolding vm_inv_def
    by (auto simp: s' page_desc_fields)
  show "free_pages s' = free_pages s"
    unfolding s' by (rule free_pages_write [OF vm_inv_source [OF inv] ut])
      (rule store_slot_outside [OF usable_aligned [OF ut] i])
qed

section \<open>Bytes the mapping never touches\<close>

text \<open>
  A byte is protected when it is not one of the bitmap's, its page is no table of the tree, and
  its page is no free page of the pool: the kernel image, device registers, pages handed out to
  others.
\<close>

definition page_base :: "u64 \<Rightarrow> u64" where
  "page_base x = x AND NOT 0xFFF"

definition free_page :: "kernel \<Rightarrow> u64 \<Rightarrow> bool" where
  "free_page s a \<longleftrightarrow> (\<exists>k < unat (total_pages s). a = page_addr s k \<and> \<not> page_used s k)"

definition protected :: "kernel \<Rightarrow> u64 \<Rightarrow> u64 \<Rightarrow> bool" where
  "protected s root x \<longleftrightarrow>
     \<not> in_bitmap s x \<and> \<not> free_page s (page_base x) \<and> unlinked s root (page_base x)"

lemma protected_klog [simp, frame]: "protected (klog fmt args s) root x = protected s root x"
  by (simp add: protected_def free_page_def page_addr_def unlinked_def in_bitmap_def bitmap_len_def)

lemma page_base_no: "page_aligned t \<Longrightarrow> page_no x = page_no t \<Longrightarrow> page_base x = t"
proof -
  assume t: "page_aligned t" and eq: "page_no x = page_no t"
  have "unat (page_base x) = 4096 * page_no x"
    unfolding page_base_def unat_page_floor page_no_def by (rule minus_mod_eq_mult_div)
  moreover have "unat t = 4096 * page_no t"
    using t by (simp add: page_no_def page_aligned_dvd)
  ultimately show ?thesis using eq by (simp add: word_unat_eq_iff)
qed

lemma alloc_protected:
  assumes inv: "vm_inv s root" and run: "page_alloc 1 s = (n, s')" and x: "protected s root x"
  shows "mem s' x = mem s x" and "protected s' root x" and "n \<noteq> 0 \<Longrightarrow> page_base x \<noteq> n"
proof -
  note src = vm_inv_source [OF inv]
  note eff = page_alloc_effect [OF src run]
  show "mem s' x = mem s x" using eff(4) x by (simp add: protected_def)
  have "page_used s' j" if "page_used s j" for j
    using that eff(5,6) by (cases "n = 0") auto
  then have "\<not> free_page s' (page_base x)"
    using x by (auto simp: protected_def free_page_def eff(3) page_addr_cong [OF eff(1)])
  moreover have "in_bitmap s' = in_bitmap s" by (rule ps.alloc_reserved [OF src run])
  moreover have "unlinked s' root (page_base x)"
    using x extends_alloc(2) [OF inv run] by (simp add: protected_def unlinked_def)
  ultimately show "protected s' root x" using x by (simp add: protected_def)
  show "page_base x \<noteq> n" if nz: "n \<noteq> 0"
  proof -
    obtain k where "n = page_addr s k" "k < unat (total_pages s)" "\<not> page_used s k"
      using page_alloc_one [OF src run nz] by metis
    then have "free_page s n" by (auto simp: free_page_def)
    then show ?thesis using x by (auto simp: protected_def)
  qed
qed

text \<open>Writes to a page the byte is not in, which leave the tables other than that page alone.\<close>

lemma write_protected:
  assumes src: "source_inv s" and use: "ps.usable s t" and x: "protected s root x"
    and m: "\<And>y. page_no y \<noteq> page_no t \<Longrightarrow> m y = mem s y" and off: "page_base x \<noteq> t"
    and un: "unlinked (s\<lparr>mem := m\<rparr>) root (page_base x)"
  shows "m x = mem s x" and "protected (s\<lparr>mem := m\<rparr>) root x"
proof -
  have "page_no x \<noteq> page_no t"
    using off page_base_no [OF usable_aligned [OF use]] by blast
  then show "m x = mem s x" by (rule m)
  have "page_used (s\<lparr>mem := m\<rparr>) = page_used s"
    by (rule page_used_cong) (use src use m in \<open>auto simp: source_inv_def ps.usable_def\<close>)
  then show "protected (s\<lparr>mem := m\<rparr>) root x"
    using x un by (simp add: protected_def free_page_def page_addr_def in_bitmap_def bitmap_len_def)
qed

lemma get_next_level_table_protected:
  assumes inv: "vm_inv s root" and p: "table_at (mem s) root p = Some t" "vpath 3 idx9 (p @ [i])"
    and run: "get_next_level_table (entry_addr t i) s = (r, s')"
    and x: "protected s root x"
  shows "mem s' x = mem s x \<and> protected s' root x"
proof (cases "pte_get Valid (load64 (mem s) (entry_addr t i)) = 0")
  case False
  then show ?thesis using run x by (auto simp: get_next_level_table_def entry_value_def)
next
  case True
  have vp: "vpath 3 idx9 p" and i: "idx9 i" using p(2) by (blast dest: vpath_butlast vpath_last)+
  note src = vm_inv_source [OF inv]
  obtain ok s3 where all: "allocate_new_table (entry_addr t i) s = (ok, s3)"
    by (cases "allocate_new_table (entry_addr t i) s")
  have s3: "s' = s3"
    using run all True by (auto simp: get_next_level_table_def entry_value_def split: if_splits)
  obtain n s1 where a: "page_alloc 1 s = (n, s1)" by (cases "page_alloc 1 s")
  note spec = allocate_new_table_spec [OF inv p True all]
  note px = alloc_protected [OF inv a x]
  note ext1 = extends_alloc [OF inv a]
  show ?thesis
  proof (cases "n = 0")
    case True
    then have "s' = klog ''Failed to allocate new page table\<newline>'' [] s1"
      using all a s3 by (simp add: allocate_new_table_def)
    then show ?thesis using px by simp
  next
    case False
    note n = conjunct1 [OF ext1(3) [OF False]] conjunct2 [OF ext1(3) [OF False]]
    define s2 where "s2 = page_table_init n s1"
    note e2 = extends_zero [OF extends_inv [OF ext1(1)] n, folded s2_def]
    have s2: "s2 = s1\<lparr>mem := \<lambda>y. if page_no y = page_no n then 0 else mem s1 y\<rparr>"
      by (simp add: s2_def page_table_init_eq [OF usable_aligned [OF n(1)]])
    have un2: "unlinked s2 root (page_base x)"
      using px(2) e2(2) by (simp add: protected_def unlinked_def)
    have p2: "mem s2 x = mem s1 x" "protected s2 root x"
      using write_protected [OF vm_inv_source [OF extends_inv [OF ext1(1)]] n(1) px(2) _
          px(3) [OF False], of "\<lambda>y. if page_no y = page_no n then 0 else mem s1 y"] un2
      by (simp_all add: s2)
    have at2: "table_at (mem s2) root p = Some t"
      using p(1) vp by (simp add: e2(2) ext1(2))
    note ut = vm_inv_usable [OF extends_inv [OF e2(1)] vp at2]
    have s': "ok" "s' = s2\<lparr>mem := store64 (mem s2) (entry_addr t i)
        (table_desc n (entry_value (entry_addr t i) s2))\<rparr>"
      using all a False s3
      by (simp_all add: allocate_new_table_def set_next_level_table_eq s2_def Let_def)
    have "page_base x \<noteq> t"
      using un2 at2 vp by (auto simp: unlinked_def)
    moreover have "table_at (mem s') root q \<noteq> Some (page_base x)" if "vpath 3 idx9 q" for q
    proof (cases "q = p @ [i]")
      case True
      have "table_at (mem s') root p = Some t"
        using p(1) vp extends_table [OF spec(1)] s3 by simp
      then have "table_at (mem s') root q = next_table (load64 (mem s') (entry_addr t i))"
        by (simp add: True table_at_def descend_snoc)
      also have "\<dots> = Some n"
        using next_table_desc(1) [OF usable_aligned [OF n(1)] usable_low [OF _ _ n(1)]]
          extends_inv [OF ext1(1)] by (simp add: s'(2) vm_inv_def)
      finally show ?thesis using px(3) [OF False] by simp
    next
      case F: False
      then show ?thesis
        using spec(2) [OF that] x that s3 by (auto simp: protected_def unlinked_def)
    qed
    ultimately show ?thesis
      using write_protected [OF vm_inv_source [OF extends_inv [OF e2(1)]] ut p2(2)
          store_slot_outside [OF usable_aligned [OF ut] i, where m = "mem s2" and
            v = "table_desc n (entry_value (entry_addr t i) s2)"]] p2(1) px(1)
      by (simp add: s'(2) unlinked_def)
  qed
qed

lemma descend3_protected:
  assumes inv: "vm_inv s root" and run: "descend3 root va s = (t, s')" and x: "protected s root x"
  shows "mem s' x = mem s x \<and> protected s' root x"
proof -
  let ?a = "level_idx 39 va" and ?b = "level_idx 30 va" and ?c = "level_idx 21 va"
  have root: "table_at (mem s) root [] = Some root" by (simp add: table_at_def)
  have path: "vpath 3 idx9 [?a]" "vpath 3 idx9 [?a, ?b]" "vpath 3 idx9 [?a, ?b, ?c]"
    by (simp_all add: vpath_def level_idx_less)
  obtain r1 s1 where g1: "get_next_level_table (entry_addr root ?a) s = (r1, s1)"
    by (cases "get_next_level_table (entry_addr root ?a) s")
  note p1 = get_next_level_table_protected [OF inv root _ g1 x, simplified, OF path(1)]
  note sp1 = get_next_level_table_spec [OF inv root _ g1, simplified, OF path(1)]
  obtain r2 s2 where g2: "get_next_level_table (entry_addr r1 ?b) s1 = (r2, s2)"
    by (cases "get_next_level_table (entry_addr r1 ?b) s1")
  obtain r3 s3 where g3: "get_next_level_table (entry_addr r2 ?c) s2 = (r3, s3)"
    by (cases "get_next_level_table (entry_addr r2 ?c) s2")
  show ?thesis
  proof (cases "r1 = 0")
    case True
    then show ?thesis using run g1 p1 by (auto simp: descend3_def)
  next
    case r1: False
    note p2 = get_next_level_table_protected [OF extends_inv [OF sp1(1)] sp1(2) [OF r1] _ g2
        conjunct2 [OF p1], simplified, OF path(2)]
    note sp2 = get_next_level_table_spec [OF extends_inv [OF sp1(1)] sp1(2) [OF r1] _ g2,
        simplified, OF path(2)]
    show ?thesis
    proof (cases "r2 = 0")
      case True
      then show ?thesis using run g1 g2 p1 p2 r1 by (auto simp: descend3_def)
    next
      case r2: False
      note p3 = get_next_level_table_protected [OF extends_inv [OF sp2(1)] sp2(2) [OF r2] _ g3
          conjunct2 [OF p2], simplified, OF path(3)]
      show ?thesis
        using run g1 g2 g3 p1 p2 p3 r1 r2 by (auto simp: descend3_def split: if_splits)
    qed
  qed
qed

lemma write_leaf_protected:
  assumes inv: "vm_inv s root" and t: "table_at (mem s) root (va_path va) = Some t"
    and x: "protected s root x"
  shows "mem (write_leaf (entry_addr t (level_idx 12 va)) pa perms s) x = mem s x"
    and "protected (write_leaf (entry_addr t (level_idx 12 va)) pa perms s) root x"
proof -
  let ?s' = "write_leaf (entry_addr t (level_idx 12 va)) pa perms s"
  note ut = vm_inv_usable [OF inv va_path_valid(1) t]
  have off: "page_base x \<noteq> t" using x t by (auto simp: protected_def unlinked_def)
  have "unlinked ?s' root (page_base x)"
    using x write_leaf_spec(2) [OF inv t] by (simp add: protected_def unlinked_def)
  then show "mem ?s' x = mem s x" and "protected ?s' root x"
    using write_protected [OF vm_inv_source [OF inv] ut x _ off,
        of "store64 (mem s) (entry_addr t (level_idx 12 va)) (page_desc pa perms)"]
      store_slot_outside [OF usable_aligned [OF ut] level_idx_less]
    by (simp_all add: write_leaf_eq)
qed

text \<open>A byte of a free page is not part of the bitmap.\<close>

lemma free_page_not_bitmap:
  assumes src: "source_inv s" and free: "free_page s (page_base x)"
  shows "\<not> in_bitmap s x"
proof
  assume bm: "in_bitmap s x"
  obtain k where k: "k < unat (total_pages s)" "page_base x = page_addr s k" "\<not> page_used s k"
    using free by (auto simp: free_page_def)
  have al: "page_aligned (page_base x)" unfolding page_base_def by (rule page_aligned_floor)
  have "page_no x = page_no (page_base x)"
    unfolding page_no_def page_base_def unat_page_floor minus_mod_eq_mult_div by simp
  then have "page_hits_bitmap s k"
    using in_bitmap_hits [OF _ bm, of k] al k(2) by simp
  then show False using src k(1,3) by (simp add: source_inv_def bitmap_safe_iff)
qed

end
