(* ===== verification/PagingTheorems.thy ===== *)
theory PagingTheorems
  imports MapPage AllocatorTheorems
begin

text \<open>
  The theorems about virtual memory as a client reads them: what a successful and a failed
  \<open>map_page\<close> do to the translation of every address, when it succeeds, which bytes it leaves
  alone, and what the descriptor it writes says. Two pages are the same when bits 12 to 47 of
  their addresses agree.
\<close>

definition vpn :: "u64 \<Rightarrow> u64" where
  "vpn va = take_bit 36 (drop_bit 12 va)"

definition root_table :: "kernel \<Rightarrow> u64 \<times> kernel" where
  "root_table s = (let (root, s) = page_alloc 1 s in (root, page_table_init root s))"

lemma new_root:
  assumes src: "source_inv s" and low: "unat (mem_base s) + 4096 * unat (total_pages s) \<le> 2 ^ 48"
    and run: "root_table s = (root, s')" and nz: "root \<noteq> 0"
  shows "vm_inv s' root" and "leaf_entry (mem s') root va = 0"
    and "free_pages s = Suc (free_pages s')"
proof -
  obtain s1 where a: "page_alloc 1 s = (root, s1)" and s': "s' = page_table_init root s1"
    using run by (auto simp: root_table_def split: prod.splits)
  note eff = page_alloc_effect [OF src a]
  have use: "ps.usable s1 root" using ps.usable_alloc [OF src a] nz by simp
  note al = usable_aligned [OF use]
  note eq = page_table_init_eq [OF al, of s1, folded s']
  let ?m = "\<lambda>x. if page_no x = page_no root then 0 else mem s1 x"
  note wr = ps.write_usable [OF ps.alloc_inv [OF src a] use, of ?m]
  have zero: "load64 (mem s') (entry_addr root i) = 0" if "idx9 i" for i
    by (rule load64_zero_page [OF al that]) (simp add: eq)
  have at: "table_at (mem s') root p = (if p = [] then Some root else None)" if "vpath 3 idx9 p" for p
    using that zero by (cases p) (auto simp: table_at_def vpath_def)
  show "vm_inv s' root"
    unfolding vm_inv_def no_sharing_def table_at_def [symmetric]
    using wr low at zero eff(1,3) use by (auto simp: eq split: if_splits)
  show "leaf_entry (mem s') root va = 0"
    unfolding leaf_entry_def page_entry_def using at [OF va_path_valid(1)]
    by (simp add: va_path_def)
  have "page_used s' = page_used s1"
    by (rule page_used_cong)
      (use ps.alloc_inv [OF src a] use in \<open>auto simp: source_inv_def eq ps.usable_def\<close>)
  then have "free_pages s' = free_pages s1" by (rule free_pages_cong) (simp add: eq)
  then show "free_pages s = Suc (free_pages s')" using alloc_free_pages(2) [OF src a nz] by simp
qed

text \<open>Making a root table leaves every byte alone that is protected before.\<close>

lemma new_root_protected:
  assumes src: "source_inv s" and run: "root_table s = (root, s')" and nz: "root \<noteq> 0"
    and x: "\<not> in_bitmap s x" "\<not> free_page s (page_base x)"
  shows "mem s' x = mem s x" and "protected s' root x"
proof -
  obtain s1 where a: "page_alloc 1 s = (root, s1)" and s': "s' = page_table_init root s1"
    using run by (auto simp: root_table_def split: prod.splits)
  note eff = page_alloc_effect [OF src a]
  have use: "ps.usable s1 root" using ps.usable_alloc [OF src a] nz by simp
  note al = usable_aligned [OF use]
  note eq = page_table_init_eq [OF al, of s1, folded s']
  obtain k where k: "root = page_addr s k" "k < unat (total_pages s)" "\<not> page_used s k"
    "\<And>j. page_used s1 j \<longleftrightarrow> page_used s j \<or> j = k"
    using page_alloc_one [OF src a nz] by metis
  have off: "page_base x \<noteq> root" using k x(2) by (auto simp: free_page_def)
  then have no: "page_no x \<noteq> page_no root" using page_base_no [OF al] by blast
  then show "mem s' x = mem s x" using eff(4) x(1) by (simp add: eq)
  have used: "page_used s' = page_used s1"
    by (rule page_used_cong)
      (use ps.alloc_inv [OF src a] use in \<open>auto simp: source_inv_def eq ps.usable_def\<close>)
  have at: "table_at (mem s') root p = (if p = [] then Some root else None)" if "vpath 3 idx9 p" for p
    using that load64_zero_page [OF al, of _ "mem s'"] by (cases p) (auto simp: table_at_def vpath_def eq)
  have fr: "mem_base s' = mem_base s" "bitmap s' = bitmap s" "total_pages s' = total_pages s"
    by (simp_all add: eq eff)
  have "in_bitmap s' = in_bitmap s" by (rule in_bitmap_cong) (simp_all add: fr)
  moreover have "\<not> free_page s' (page_base x)"
    using x(2) k(4) by (auto simp: free_page_def used fr page_addr_cong [OF fr(1)])
  moreover have "unlinked s' root (page_base x)" using off at by (auto simp: unlinked_def)
  ultimately show "protected s' root x" using x(1) by (simp add: protected_def)
qed

section \<open>A concrete address space\<close>

text \<open>An empty root table in the first page of the demonstration pool.\<close>

definition demo_root :: u64 where
  "demo_root = 0x40000000"

definition demo_vm :: kernel where
  "demo_vm = snd (root_table demo_kernel)"

definition demo_perms :: page_permissions where
  "demo_perms = \<lparr>perm_read = True, perm_write = False, perm_execute = False\<rparr>"

lemma demo_perms_sel [simp]: "perm_read demo_perms" "\<not> perm_write demo_perms"
  "\<not> perm_execute demo_perms"
  by (simp_all add: demo_perms_def)

lemma demo_root_table: "root_table demo_kernel = (demo_root, demo_vm)"
  using demo_alloc by (auto simp: root_table_def demo_vm_def demo_root_def split: prod.splits)

lemma demo_free: "free_pages demo_kernel = 15"
  by (simp add: free_pages_def demo_used upt_conv_Cons)

lemma demo_vm_inv: "vm_inv demo_vm demo_root"
  and demo_vm_empty: "leaf_entry (mem demo_vm) demo_root va = 0"
  and demo_vm_free: "free_pages demo_vm = 14"
  using new_root [OF demo_safe _ demo_root_table] demo_free by (simp_all add: demo_root_def)

lemma missing_tables_le: "missing_tables m root va \<le> 3"
  by (simp add: missing_tables_sum)

lemma demo_map:
  assumes "page_aligned pa"
  shows "map_page demo_root va pa perms demo_vm =
    (True, snd (map_page demo_root va pa perms demo_vm))"
proof -
  obtain t s' where d: "descend3 demo_root va demo_vm = (t, s')"
    by (cases "descend3 demo_root va demo_vm")
  have "t \<noteq> 0"
    using descend3_spec(3) [OF demo_vm_inv d] missing_tables_le [of "mem demo_vm" demo_root va]
    by (simp add: demo_vm_free)
  with d assms show ?thesis by (simp add: map_page_descend3 page_aligned_def)
qed

section \<open>Mapping\<close>

text \<open>How a successful \<open>map_page\<close> ran.\<close>

lemma map_page_success:
  assumes inv: "vm_inv s root" and run: "map_page root va pa perms s = (True, s')"
  obtains s1 t where "extends s s1 root" "table_at (mem s1) root (va_path va) = Some t"
    "s' = write_leaf (entry_addr t (level_idx 12 va)) pa perms s1" "page_aligned pa"
    "descend3 root va s = (t, s1)"
proof -
  obtain t s1 where d: "descend3 root va s = (t, s1)" by (cases "descend3 root va s")
  then have "t \<noteq> 0" "s' = write_leaf (entry_addr t (level_idx 12 va)) pa perms s1" "page_aligned pa"
    using run by (auto simp: map_page_descend3 page_aligned_def split: if_splits)
  with descend3_spec [OF inv d] that d show thesis by blast
qed

lemma translate_page_desc:
  assumes "leaf_entry m root va = page_desc pa perms" and "page_aligned pa" and "unat pa < 2 ^ 48"
  shows "translate m root va = Some (pa + (va AND 0xFFF))"
  using assms by (simp add: translate_def page_desc_table page_desc_fields low_48_address)

lemma leaf_entry_vpn:
  "vpn vb = vpn va \<Longrightarrow> leaf_entry m root vb = leaf_entry m root va"
  using va_path_eq_iff [of vb va] by (simp add: leaf_entry_def vpn_def)

text \<open>
  C1: after a successful \<open>map_page\<close> of a physical page below \<open>2 ^ 48\<close>, the walk of the hardware
  takes every address of the virtual page to the byte at the same offset of the physical page, and
  takes every other address where it went before; the tables are still a tree of distinct pages
  owned by the kernel.
\<close>

theorem map_page_translates:
  assumes "vm_inv s root" and "map_page root va pa perms s = (True, s')" and "unat pa < 2 ^ 48"
  shows "vm_inv s' root \<and> (\<forall>vb. translate (mem s') root vb =
    (if vpn vb = vpn va then Some (pa + (vb AND 0xFFF)) else translate (mem s) root vb))"
proof -
  obtain s1 t where r: "extends s s1 root" "table_at (mem s1) root (va_path va) = Some t"
    "s' = write_leaf (entry_addr t (level_idx 12 va)) pa perms s1" "page_aligned pa"
    by (rule map_page_success [OF assms(1,2)])
  note w = write_leaf_spec [OF extends_inv [OF r(1)] r(2), where pa = pa and perms = perms, folded r(3)]
  have "translate (mem s') root vb = Some (pa + (vb AND 0xFFF))" if "vpn vb = vpn va" for vb
    using translate_page_desc [OF _ r(4) assms(3)] leaf_entry_vpn [OF that] w(3) by metis
  moreover have "translate (mem s') root vb = translate (mem s) root vb" if "vpn vb \<noteq> vpn va" for vb
  proof -
    have "leaf_entry (mem s') root vb = leaf_entry (mem s1) root vb"
      using that va_path_eq_iff [of vb va] by (intro w(4)) (auto simp: vpn_def)
    then show ?thesis using extends_translate [OF r(1)] by (simp add: translate_def)
  qed
  ultimately show ?thesis using w(1) by simp
qed

theorem map_page_translates_witness:
  "translate (mem (snd (map_page demo_root 0x1000 0x7000 demo_perms demo_vm))) demo_root 0x1004
     = Some 0x7004 \<and>
   translate (mem (snd (map_page demo_root 0x1000 0x7000 demo_perms demo_vm))) demo_root 0x2004
     = None"
  using map_page_translates [OF demo_vm_inv demo_map [of "0x7000" "0x1000" demo_perms]]
  by (simp add: page_aligned_def vpn_def translate_def demo_vm_empty is_table_def)

lemma map_page_resources:
  assumes "vm_inv s root"
  shows "fst (map_page root va pa perms s) \<longleftrightarrow>
      pa AND 0xFFF = 0 \<and> missing_tables (mem s) root va \<le> free_pages s"
    and "fst (map_page root va pa perms s) \<Longrightarrow> free_pages s =
      missing_tables (mem s) root va + free_pages (snd (map_page root va pa perms s))"
proof -
  obtain t s1 where d: "descend3 root va s = (t, s1)" by (cases "descend3 root va s")
  note sp = descend3_spec [OF assms d]
  show "fst (map_page root va pa perms s) \<longleftrightarrow>
      pa AND 0xFFF = 0 \<and> missing_tables (mem s) root va \<le> free_pages s"
    using d sp(3) by (auto simp: map_page_descend3)
  show "fst (map_page root va pa perms s) \<Longrightarrow> free_pages s =
      missing_tables (mem s) root va + free_pages (snd (map_page root va pa perms s))"
    using d sp(2,4) write_leaf_spec(5) [OF extends_inv [OF sp(1)]]
    by (auto simp: map_page_descend3 split: if_splits)
qed

text \<open>
  C5: \<open>map_page\<close> succeeds exactly when the physical address is page-aligned and the pool has a free
  page for every level of the tree that is still missing on the way to the entry; it then uses up
  exactly those pages.
\<close>

theorem map_page_succeeds_iff:
  assumes "vm_inv s root"
  shows "(fst (map_page root va pa perms s) \<longleftrightarrow>
      pa AND 0xFFF = 0 \<and> missing_tables (mem s) root va \<le> free_pages s) \<and>
    (fst (map_page root va pa perms s) \<longrightarrow> free_pages s =
      missing_tables (mem s) root va + free_pages (snd (map_page root va pa perms s)))"
  using map_page_resources [OF assms] by blast

theorem map_page_succeeds_iff_witness:
  "fst (map_page demo_root 0x1000 0x7000 demo_perms demo_vm) \<and>
   \<not> fst (map_page demo_root 0x1000 0x7010 demo_perms demo_vm)"
  using map_page_succeeds_iff [OF demo_vm_inv, of "0x1000"]
    missing_tables_le [of "mem demo_vm" demo_root "0x1000"]
  by (simp add: demo_vm_free)

text \<open>
  C6: a \<open>map_page\<close> that fails changes no translation and keeps the invariant, however far it got:
  tables it has already linked stay in the tree, and are empty.
\<close>

theorem map_page_failure_harmless:
  assumes "vm_inv s root" and "map_page root va pa perms s = (False, s')"
  shows "vm_inv s' root \<and>
    (\<forall>vb. leaf_entry (mem s') root vb = leaf_entry (mem s) root vb \<and>
      translate (mem s') root vb = translate (mem s) root vb)"
proof (cases "page_aligned pa")
  case False
  then show ?thesis
    using assms by (auto simp: map_page_descend3 page_aligned_def translate_def)
next
  case True
  obtain t s1 where d: "descend3 root va s = (t, s1)" by (cases "descend3 root va s")
  then have "s' = s1"
    using assms(2) True by (auto simp: map_page_descend3 page_aligned_def split: if_splits)
  then show ?thesis
    using descend3_spec(1) [OF assms(1) d]
    by (simp add: extends_translate extends_inv) (simp add: extends_def leaf_entry_def level_idx_less)
qed

theorem map_page_failure_harmless_witness:
  "\<not> fst (map_page demo_root 0x1000 0x7010 demo_perms demo_vm) \<and>
   translate (mem (snd (map_page demo_root 0x1000 0x7010 demo_perms demo_vm))) demo_root 0x1004 = None"
proof -
  have "map_page demo_root 0x1000 0x7010 demo_perms demo_vm =
      (False, snd (map_page demo_root 0x1000 0x7010 demo_perms demo_vm))"
    by (simp add: map_page_def)
  from map_page_failure_harmless [OF demo_vm_inv this] show ?thesis
    by (simp add: map_page_def translate_def demo_vm_empty is_table_def)
qed

lemma map_page_protected:
  assumes "vm_inv s root" and "protected s root x"
  shows "mem (snd (map_page root va pa perms s)) x = mem s x \<and>
    protected (snd (map_page root va pa perms s)) root x"
proof -
  obtain t s1 where d: "descend3 root va s = (t, s1)" by (cases "descend3 root va s")
  note p = descend3_protected [OF assms(1) d assms(2)]
  note sp = descend3_spec [OF assms(1) d]
  show ?thesis
    using assms(2) d p sp(2) write_leaf_protected [OF extends_inv [OF sp(1)] _ conjunct2 [OF p]]
    by (auto simp: map_page_descend3)
qed

text \<open>
  C4: \<open>map_page\<close>, whether it succeeds or fails, writes only the allocation bitmap, tables of the
  tree, and pages that were free: every other byte of memory keeps its value, and stays protected.
\<close>

theorem map_page_protects:
  assumes "vm_inv s root" and "protected s root x"
  shows "mem (snd (map_page root va pa perms s)) x = mem s x \<and>
    protected (snd (map_page root va pa perms s)) root x"
  by (rule map_page_protected [OF assms])

lemma demo_protected: "protected demo_vm demo_root 0x9000000"
proof -
  have fields: "mem_base demo_vm = 0x40000000" "bitmap demo_vm = 0x40002000" "total_pages demo_vm = 16"
    using demo_root_table page_alloc_effect [OF demo_safe, of 1]
    by (auto simp: root_table_def demo_root_def page_table_init_eq page_aligned_def demo_vm_def
        split: prod.splits)
  have wf: "alloc_wf demo_vm" using vm_inv_source [OF demo_vm_inv] by (simp add: source_inv_def)
  have far: "page_base 0x9000000 \<noteq> page_addr demo_vm k" if "k < 16" for k
    using unat_page_addr [OF wf, of k] that by (auto simp: fields page_base_def)
  have "\<not> ps.usable demo_vm (page_base 0x9000000)"
    using far page_used_less [of demo_vm] by (auto simp: ps.usable_def page_owned_def fields)
  then show ?thesis
    using far vm_inv_usable [OF demo_vm_inv]
    by (auto simp: protected_def unlinked_def free_page_def in_bitmap_def fields)
qed

theorem map_page_protects_witness:
  "mem (snd (map_page demo_root 0x1000 0x7000 demo_perms demo_vm)) 0x9000000 = mem demo_vm 0x9000000"
  using map_page_protects [OF demo_vm_inv demo_protected] by simp

text \<open>
  the way the kernel makes a root table, one page of the allocator zeroed by
  \<open>page_table_init\<close>, establishes the invariant with an address space in which nothing is mapped.
\<close>

theorem new_address_space:
  assumes "source_inv s" and "unat (mem_base s) + 4096 * unat (total_pages s) \<le> 2 ^ 48"
    and "page_alloc 1 s = (root, s1)" and "root \<noteq> 0"
  shows "vm_inv (page_table_init root s1) root \<and>
    (\<forall>va. translate (mem (page_table_init root s1)) root va = None)"
proof -
  have "root_table s = (root, page_table_init root s1)" using assms(3) by (simp add: root_table_def)
  from new_root [OF assms(1,2) this assms(4)] show ?thesis
    by (simp add: translate_def is_table_def)
qed

theorem new_address_space_witness:
  "vm_inv (page_table_init 0x40000000 (snd (page_alloc 1 demo_kernel))) 0x40000000"
  using new_address_space [OF demo_safe _ surjective_pairing] by (simp add: demo_alloc)

text \<open>
  \<open>page_table_init\<close> zeroes the 4096 bytes of the table's page and changes nothing else.
\<close>

theorem page_table_init_zeroes:
  assumes "page_aligned tab"
  shows "page_table_init tab s =
    s\<lparr>mem := \<lambda>x. if page_no x = page_no tab then 0 else mem s x\<rparr>"
  by (rule page_table_init_eq [OF assms])

theorem page_table_init_zeroes_witness:
  "mem (page_table_init 0x3000 demo_kernel) 0x3FFF = 0 \<and>
   mem (page_table_init 0x40002000 demo_kernel) 0x40002000 = 0 \<and>
   mem (page_table_init 0x3000 demo_kernel) 0x40002000 = 4"
  using page_table_init_zeroes [of "0x3000" demo_kernel]
    page_table_init_zeroes [of "0x40002000" demo_kernel]
  by (simp add: page_aligned_def page_no_def)

section \<open>What the descriptor says\<close>

text \<open>
  C31: the entry of the mapped page is a valid page descriptor with bits 47 to 12 of the physical
  address (the bits above are dropped), both execute-never bits set unless execution is permitted,
  and an access field that depends on reading first: 3 without read permission, whatever the write
  permission, else 0 with and 1 without write permission. The value 3 is
  \<^verbatim>\<open>APTABLE_EL0_NO_ACCESS_EL1_NO_WRITE\<close>: EL1 may not write either, against the comment of
  that branch, "allow read/write at EL1".
\<close>

theorem map_page_permissions:
  assumes "vm_inv s root" and "map_page root va pa perms s = (True, s')"
  defines "e \<equiv> leaf_entry (mem s') root va"
  shows "pte_get Valid e = 1 \<and> pte_get Table e = 1 \<and>
    get_page_table_entry_address e = pa AND 0xFFFFFFFFF000 \<and>
    pte_get Xn_table e = (if perm_execute perms then 0 else 1) \<and>
    pte_get Pxn_table e = (if perm_execute perms then 0 else 1) \<and>
    pte_get Ap_table e =
      (if \<not> perm_read perms then 3 else if perm_write perms then 0 else 1)"
proof -
  obtain s1 t where r: "extends s s1 root" "table_at (mem s1) root (va_path va) = Some t"
    "s' = write_leaf (entry_addr t (level_idx 12 va)) pa perms s1"
    by (rule map_page_success [OF assms(1,2)])
  then have "e = page_desc pa perms"
    using write_leaf_spec(3) [OF extends_inv [OF r(1)] r(2)] by (simp add: e_def)
  then show ?thesis by (simp add: page_desc_fields perm_ap_def)
qed

theorem map_page_permissions_witness:
  "pte_get Ap_table (leaf_entry (mem (snd (map_page demo_root 0x1000 0x7000 demo_perms demo_vm)))
     demo_root 0x1000) = 1"
  using map_page_permissions [OF demo_vm_inv demo_map [of "0x7000" "0x1000" demo_perms]]
  by (simp add: page_aligned_def)

lemma map_page_desc_cong:
  assumes "page_desc pa perms = page_desc pa' perms'" and "pa AND 0xFFF = 0" and "pa' AND 0xFFF = 0"
  shows "map_page root va pa perms s = map_page root va pa' perms' s"
  using assms by (cases "descend3 root va s") (simp add: map_page_descend3 write_leaf_eq)

lemma low_bits_put: "59 \<le> pte_off f \<Longrightarrow> take_bit 59 (pte_put f x v) = take_bit 59 v"
  by (rule bit_eqI) (auto simp: bit_simps bit_pte_put field_bit_def)

lemma low_bits_page_desc:
  "take_bit 59 (page_desc pa perms) = (pa AND 0xFFFFFFFFF000) OR 3"
proof -
  have m: "(0xFFFFFFFFF000 :: u64) = push_bit 12 (mask 36)" and three: "(3 :: u64) = mask 2"
    by (simp_all add: mask_eq_exp_minus_1)
  have "take_bit 59 (page_desc pa perms) =
      take_bit 59 (pte_put Table 1 (pte_put Valid 1 (put_address pa 0)))"
    by (simp add: page_desc_def Let_def low_bits_put)
  also have "\<dots> = (pa AND 0xFFFFFFFFF000) OR 3"
  proof (rule bit_eqI)
    fix n :: nat
    have "n < 64 \<Longrightarrow> n = 0 \<or> n = 1 \<or> (2 \<le> n \<and> n < 12) \<or> (12 \<le> n \<and> n < 48) \<or> (48 \<le> n \<and> n < 64)"
      by linarith
    then show "bit (take_bit 59 (pte_put Table 1 (pte_put Valid 1 (put_address pa 0)))) n =
        bit ((pa AND 0xFFFFFFFFF000) OR 3) n"
      unfolding put_address_def m three
      by (cases "n < 64")
        (auto simp: bit_simps bit_pte_put field_bit_def PAGE_SHIFT_def dest: bit_imp_le_length)
  qed
  finally show ?thesis .
qed

text \<open>
  C40: below bit 59 the entry of a mapped page is the address and the two type bits, whatever the
  permissions: the fields in which a page descriptor of the last level holds its access permissions
  (7:6), shareability (9:8), access flag (10) and execute-never bits (53, 54) stay zero.
\<close>

theorem map_page_permissions_unused:
  assumes "vm_inv s root" and "map_page root va pa perms s = (True, s')"
  shows "take_bit 59 (leaf_entry (mem s') root va) = (pa AND 0xFFFFFFFFF000) OR 3"
proof -
  obtain s1 t where r: "extends s s1 root" "table_at (mem s1) root (va_path va) = Some t"
    "s' = write_leaf (entry_addr t (level_idx 12 va)) pa perms s1"
    by (rule map_page_success [OF assms])
  then show ?thesis
    using write_leaf_spec(3) [OF extends_inv [OF r(1)] r(2)] by (simp add: low_bits_page_desc)
qed

theorem map_page_permissions_unused_witness:
  "take_bit 59 (leaf_entry (mem (snd (map_page demo_root 0x1000 0x7000 demo_perms demo_vm)))
     demo_root 0x1000) = 0x7003"
  using map_page_permissions_unused [OF demo_vm_inv demo_map [of "0x7000" "0x1000" demo_perms]]
  by (simp add: page_aligned_def)

text \<open>
  without read permission the write permission is ignored: the two requests leave the same
  state, in which the access field forbids writing at EL1 too.
\<close>

theorem map_page_unreadable_unwritable:
  assumes "\<not> perm_read perms"
  shows "map_page root va pa perms s = map_page root va pa (perms\<lparr>perm_write := b\<rparr>) s"
proof -
  have "page_desc pa perms = page_desc pa (perms\<lparr>perm_write := b\<rparr>)"
    using assms by (simp add: page_desc_def perm_ap_def)
  then show ?thesis
    by (cases "pa AND 0xFFF = 0") (rule map_page_desc_cong, simp_all add: map_page_def)
qed

theorem map_page_unreadable_unwritable_witness:
  "map_page demo_root 0x1000 0x7000 (demo_perms\<lparr>perm_read := False\<rparr>) demo_vm =
   map_page demo_root 0x1000 0x7000 (demo_perms\<lparr>perm_read := False, perm_write := True\<rparr>) demo_vm"
  using map_page_unreadable_unwritable [of "demo_perms\<lparr>perm_read := False\<rparr>" demo_root "0x1000"
    "0x7000" demo_vm True] by simp

text \<open>
  the bits of the physical address above bit 47 are dropped without an error: the request is
  granted as if they were zero.
\<close>

theorem map_page_truncates_address:
  assumes "pa AND 0xFFF = 0"
  shows "map_page root va pa perms s = map_page root va (pa AND 0xFFFFFFFFF000) perms s"
proof -
  have "(0xFFFFFFFFF000 :: u64) AND 0xFFF = 0" by simp
  then have "(pa AND 0xFFFFFFFFF000) AND 0xFFF = 0" by (simp only: and.assoc and_zero_eq)
  moreover have "put_address (pa AND 0xFFFFFFFFF000) = put_address pa"
    by (simp add: put_address_def and.assoc)
  then have "page_desc (pa AND 0xFFFFFFFFF000) perms = page_desc pa perms"
    by (simp add: page_desc_def)
  ultimately show ?thesis using assms by (intro map_page_desc_cong) simp_all
qed

theorem map_page_truncates_address_witness:
  "fst (map_page demo_root 0x1000 0xFFFF000000007000 demo_perms demo_vm) \<and>
   translate (mem (snd (map_page demo_root 0x1000 0xFFFF000000007000 demo_perms demo_vm)))
     demo_root 0x1000 = Some 0x7000"
proof -
  have eq: "map_page demo_root 0x1000 0xFFFF000000007000 demo_perms demo_vm =
      map_page demo_root 0x1000 0x7000 demo_perms demo_vm"
    using map_page_truncates_address [of "0xFFFF000000007000"] by simp
  obtain s1 t where r: "extends demo_vm s1 demo_root"
    "table_at (mem s1) demo_root (va_path 0x1000) = Some t"
    "snd (map_page demo_root 0x1000 0x7000 demo_perms demo_vm) =
      write_leaf (entry_addr t (level_idx 12 0x1000)) 0x7000 demo_perms s1"
    by (rule map_page_success [OF demo_vm_inv demo_map [of "0x7000" "0x1000" demo_perms]])
      (simp add: page_aligned_def)
  note leaf = write_leaf_spec(3) [OF extends_inv [OF r(1)] r(2), where pa = "0x7000"
      and perms = demo_perms, folded r(3)]
  show ?thesis
    using translate_page_desc [OF leaf] demo_map [of "0x7000" "0x1000" demo_perms]
    by (simp add: eq page_aligned_def) (metis fst_conv)
qed

text \<open>
  bits 48 to 63 of the virtual address are ignored, canonical or not: a successful mapping of
  one address is the mapping of every other with the same bits 12 to 47.
\<close>

theorem map_page_ignores_high_bits:
  assumes "vpn vb = vpn va" and "fst (map_page root va pa perms s)"
  shows "map_page root vb pa perms s = map_page root va pa perms s"
proof -
  have idx: "level_idx 39 vb = level_idx 39 va" "level_idx 30 vb = level_idx 30 va"
    "level_idx 21 vb = level_idx 21 va" "level_idx 12 vb = level_idx 12 va"
    using assms(1) va_path_eq_iff [of vb va] by (simp_all add: vpn_def va_path_def)
  obtain t s1 where d: "descend3 root va s = (t, s1)" by (cases "descend3 root va s")
  have t: "t \<noteq> 0" using assms(2) d by (auto simp: map_page_descend3 split: if_splits)
  have "descend3 root vb s = (t, s1)"
  proof -
    obtain r1 t1 where 1: "get_next_level_table (entry_addr root (level_idx 39 va)) s = (r1, t1)"
      by (cases "get_next_level_table (entry_addr root (level_idx 39 va)) s")
    obtain r2 t2 where 2: "get_next_level_table (entry_addr r1 (level_idx 30 va)) t1 = (r2, t2)"
      by (cases "get_next_level_table (entry_addr r1 (level_idx 30 va)) t1")
    show ?thesis
      using d t 1 2 by (auto simp: descend3_def idx split: if_splits prod.splits)
  qed
  then show ?thesis using d by (simp add: map_page_descend3 idx)
qed

theorem map_page_ignores_high_bits_witness:
  "map_page demo_root 0xABCD000000001000 0x7000 demo_perms demo_vm =
   map_page demo_root 0x1000 0x7000 demo_perms demo_vm"
  using map_page_ignores_high_bits [of "0xABCD000000001000" "0x1000" demo_root "0x7000"]
    demo_map [of "0x7000" "0x1000" demo_perms]
  by (simp add: vpn_def page_aligned_def) (metis fst_conv)

section \<open>The layout of a descriptor\<close>

text \<open>
  the sixteen bit-fields of a descriptor partition its 64 bits: every bit belongs to exactly
  one field.
\<close>

theorem descriptor_layout_partitions:
  "(\<exists>!f. pte_off f \<le> n \<and> n < pte_off f + pte_width f) \<longleftrightarrow> n < 64"
proof
  assume "\<exists>!f. pte_off f \<le> n \<and> n < pte_off f + pte_width f"
  then show "n < 64" using field_bit_less unfolding field_bit_def by blast
next
  assume "n < 64"
  have "\<exists>f. field_bit f n"
  proof (rule ccontr)
    assume "\<nexists>f. field_bit f n"
    then have no: "pte_off f \<le> n \<Longrightarrow> pte_off f + pte_width f \<le> n" for f
      by (auto simp: field_bit_def not_less)
    show False
      using \<open>n < 64\<close> no [of Valid] no [of Table] no [of Ignored_7_2] no [of Nlta_51_50]
        no [of Access_flag] no [of Ignored_11] no [of Nlta_47_12] no [of Nlta_49_48]
        no [of Res0_50] no [of Ignored_51] no [of Protected_attr] no [of Ignored_58_53]
        no [of Pxn_table] no [of Xn_table] no [of Ap_table] no [of Ns_table]
      by simp
  qed
  then show "\<exists>!f. pte_off f \<le> n \<and> n < pte_off f + pte_width f"
    using field_bit_unique unfolding field_bit_def by blast
qed

text \<open>
  assigning a bit-field changes that field to the low bits of the value and no other field.
\<close>

theorem descriptor_field_update:
  "pte_get f (pte_put g x v) = (if f = g then take_bit (pte_width f) x else pte_get f v)"
  by (simp add: pte.get_put pte_get_other)

end
