(* ===== verification/Boot.thy ===== *)
theory Boot
  imports FdtTheorems PagingTheorems
begin

text \<open>
  The boot sequence, \<^verbatim>\<open>src/kernel/main.c\<close>, built without \<^verbatim>\<open>RUN_TESTS\<close>: console, device
  tree, page allocator, reservation of the kernel image, status dump. The linker symbols and
  libfdt are parameters, and so is the initial content of the memory map on the stack.
\<close>

section \<open>The image\<close>

definition get_image_size :: "linker \<Rightarrow> u64" where
  "get_image_size lk = image_end lk - image_start lk"

definition reserve_kerenel_img_pages :: "linker \<Rightarrow> kernel \<Rightarrow> bool \<times> kernel" where
  "reserve_kerenel_img_pages lk s =
     (let img_size = get_image_size lk;
          num_pages = (img_size + PAGE_SIZE - 1) div PAGE_SIZE;
          img_start = image_start lk;
          s = klog ''Reserving kernel image pages: start=%p, size=0x%lx bytes, pages=%u\<newline>''
                [APtr img_start, A64 img_size, A64 num_pages] s;
          (ok, s) = reserve_page img_start num_pages s
      in if \<not> ok then
           (False, klog ''Failed to reserve kernel image pages. Halting.\<newline>'' [] s)
         else (True, s))"

section \<open>The memory map\<close>

text \<open>\<^verbatim>\<open>for (int i = 0; i < mmap->count; i++)\<close>; the count is at most sixteen.\<close>

definition print_region :: "memory_map \<Rightarrow> nat \<Rightarrow> kernel \<Rightarrow> kernel" where
  "print_region mmap i s =
     klog ''  Region %d: Base = 0x%lx, Size = 0x%lx bytes\<newline>''
       [A32 (word_of_nat i), A64 (region_base (regions mmap ! i)),
        A64 (region_size (regions mmap ! i))] s"

definition print_memory_map :: "memory_map \<Rightarrow> kernel \<Rightarrow> kernel" where
  "print_memory_map mmap s =
     (let s = klog ''Memory Map (Total Regions: %d):\<newline>'' [A32 (word_of_int (region_count mmap))] s
      in fold (print_region mmap) [0 ..< nat (region_count mmap)] s)"

section \<open>main\<close>

text \<open>
  Up to the point where the builds with and without \<^verbatim>\<open>RUN_TESTS\<close> part: the console, the device
  tree, the allocator and the image. The result is false where the code returns 1.
\<close>

definition memory_setup ::
  "libfdt \<Rightarrow> linker \<Rightarrow> u64 \<Rightarrow> memory_map \<Rightarrow> kernel \<Rightarrow> (bool \<times> kernel) option" where
  "memory_setup lib lk boot_args_ptr mmap s =
     (let s = s\<lparr>uart0 := pl011_init 0x09000000\<rparr>;
          s = set_kprintf_console \<lparr>con_putc = Ptr_uart0_putchar, con_getc = Con_getc_NULL\<rparr> s;
          fdt_addr = load64 (mem s) boot_args_ptr;
          (ok, s) = check_fdt lib fdt_addr s
      in if \<not> ok then Some (False, klog ''FDT validation failed. Halting.\<newline>'' [] s)
         else
           (case get_mem lib fdt_addr (Some mmap) s of
              None \<Rightarrow> None
            | Some (r, mm, s) \<Rightarrow>
                let mmap = (case mm of None \<Rightarrow> mmap | Some m \<Rightarrow> m)
                in if r < 0 then
                     Some (False, klog ''Failed to parse memory map from FDT. Halting.\<newline>'' [] s)
                   else if region_count mmap \<noteq> 1 then
                     Some (False, klog ''Current implementation only supports a single memory region. Halting.\<newline>'' [] s)
                   else
                     let s = print_memory_map mmap s;
                         (page_init_result, s) =
                           page_init lk (region_base (regions mmap ! 0))
                             (region_size (regions mmap ! 0)) s
                     in if \<not> page_init_result then
                          Some (False, klog ''Failed to initialize page allocator. Halting.\<newline>'' [] s)
                        else
                          let (reserved, s) = reserve_kerenel_img_pages lk s
                          in if \<not> reserved then
                               Some (False, klog ''Error while reserving kernel binary pages\<newline>'' [] s)
                             else Some (True, s)))"

definition main ::
  "libfdt \<Rightarrow> linker \<Rightarrow> u64 \<Rightarrow> memory_map \<Rightarrow> kernel \<Rightarrow> (int \<times> kernel) option" where
  "main lib lk boot_args_ptr mmap s =
     (case memory_setup lib lk boot_args_ptr mmap s of
        None \<Rightarrow> None
      | Some (ready, s) \<Rightarrow>
          if \<not> ready then Some (1, s)
          else map_option (\<lambda>s. (0, klog ''Hello World!\<newline>'' [] s)) (page_dump_status s))"

end
