(* ===== verification/BootProps.thy ===== *)
theory BootProps
  imports Boot
begin

text \<open>
  The boot sequence as a whole: from a device tree with one usable region and a kernel image that
  lies inside it, \<open>main\<close> ends with the allocator's contract established and the image reserved;
  after that no allocation and no mapping can touch the image.
\<close>

section \<open>The layout\<close>

text \<open>The layout the linker script gives: the bitmap is inside the image, and the pages the image
  covers are inside the pool.\<close>

definition image_pages :: "linker \<Rightarrow> nat" where
  "image_pages lk = (unat (image_end lk) - unat (image_start lk) + 4095) div 4096"

definition layout_ok :: "linker \<Rightarrow> u64 \<Rightarrow> u64 \<Rightarrow> bool" where
  "layout_ok lk base sz \<longleftrightarrow> region_ok lk base sz \<and> pool_start base \<noteq> 0 \<and>
     page_aligned (image_start lk) \<and>
     unat (image_start lk) < unat (image_end lk) \<and> unat (image_end lk) + 4095 < 2 ^ 64 \<and>
     unat (pool_start base) \<le> unat (image_start lk) \<and>
     unat (image_start lk) + 4096 * image_pages lk \<le>
       unat (pool_start base) + 4096 * unat (pool_pages base sz) \<and>
     unat (image_start lk) \<le> unat (page_allocator_bit_map_start lk) \<and>
     unat (page_allocator_bit_map_end lk) \<le> unat (image_end lk)"

text \<open>Page \<open>k\<close> of the pool holds a byte of the image.\<close>

definition page_in_image :: "linker \<Rightarrow> kernel \<Rightarrow> nat \<Rightarrow> bool" where
  "page_in_image lk s k \<longleftrightarrow> unat (page_addr s k) < unat (image_end lk) \<and>
     unat (image_start lk) < unat (page_addr s k) + 4096"

text \<open>The state after a successful boot.\<close>

definition booted :: "linker \<Rightarrow> u64 \<Rightarrow> u64 \<Rightarrow> kernel \<Rightarrow> bool" where
  "booted lk base sz s \<longleftrightarrow> source_inv s \<and> console_up s \<and> pool_initialised lk base sz s \<and>
     list_all (\<lambda>k. page_used s k = page_in_image lk s k) [0 ..< unat (total_pages s)]"

lemma image_page_bounds:
  fixes a st en :: nat
  assumes "4096 dvd a" and "4096 dvd st" and "st < en"
  shows "st \<le> a \<and> a < st + 4096 * ((en - st + 4095) div 4096) \<longleftrightarrow> a < en \<and> st < a + 4096"
proof -
  obtain p q where a: "a = 4096 * p" and st: "st = 4096 * q"
    using assms(1,2) by (elim dvdE)
  obtain r where en: "en = 4096 * q + r" "0 < r"
    using assms(3) by (metis less_imp_add_positive st)
  have n: "(en - st + 4095) div 4096 = (r + 4095) div 4096" by (simp add: en st)
  have mult: "4096 * q \<le> 4096 * p \<and> 4096 * p < 4096 * q + 4096 * x \<longleftrightarrow> q \<le> p \<and> p < q + x"
    for x :: nat by auto
  have "st \<le> a \<and> a < st + 4096 * ((en - st + 4095) div 4096) \<longleftrightarrow> q \<le> p \<and> p < q + (r + 4095) div 4096"
    unfolding n unfolding a st by (rule mult)
  also have "\<dots> \<longleftrightarrow> q \<le> p \<and> 4096 * p < 4096 * q + r"
  proof (rule conj_cong [OF refl])
    assume "q \<le> p"
    then obtain d where d: "p = q + d" using le_Suc_ex by blast
    have "d < (r + 4095) div 4096 \<longleftrightarrow> Suc d * 4096 \<le> r + 4095"
      unfolding Suc_le_eq [symmetric] by (rule less_eq_div_iff_mult_less_eq) simp
    then show "p < q + (r + 4095) div 4096 \<longleftrightarrow> 4096 * p < 4096 * q + r"
      unfolding d by auto
  qed
  also have "\<dots> \<longleftrightarrow> a < en \<and> st < a + 4096"
    unfolding a st en by auto
  finally show ?thesis .
qed

lemma unat_image_pages:
  assumes "layout_ok lk base sz"
  shows "unat ((get_image_size lk + PAGE_SIZE - 1) div PAGE_SIZE) = image_pages lk"
proof -
  have e: "unat (image_end lk) + 4095 < 2 ^ 64" "unat (image_start lk) < unat (image_end lk)"
    using assms by (simp_all add: layout_ok_def)
  then have sz: "unat (image_end lk - image_start lk) = unat (image_end lk) - unat (image_start lk)"
    by (simp add: unat_sub word_le_nat_alt)
  have "unat (image_end lk - image_start lk + 4095) = unat (image_end lk) - unat (image_start lk) + 4095"
    using e by (subst unat_add_no_wrap) (simp_all add: sz)
  then show ?thesis
    by (simp add: get_image_size_def PAGE_SIZE_def unat_div image_pages_def add_diff_eq [symmetric])
qed

section \<open>Reserving the image\<close>

lemma reserve_image:
  assumes lay: "layout_ok lk base sz" and init: "pool_initialised lk base sz s"
    and free: "\<And>k. \<not> page_used s k" and up: "console_up s"
  obtains s' where "reserve_kerenel_img_pages lk s = (True, s')" and "booted lk base sz s'"
    and "\<And>x. \<not> in_bitmap s' x \<Longrightarrow> mem s' x = mem s x"
    and "in_bitmap s' = in_bitmap s"
proof -
  have reg: "region_ok lk base sz" using lay by (simp add: layout_ok_def)
  note wf = pool_initialised_wf [OF reg init]
  have st: "mem_base s = pool_start base" "total_pages s = pool_pages base sz"
    "bitmap s = page_allocator_bit_map_start lk"
    using init by (simp_all add: pool_initialised_def)
  let ?n = "(get_image_size lk + PAGE_SIZE - 1) div PAGE_SIZE"
  note n = unat_image_pages [OF lay]
  have img: "page_aligned (image_start lk)" "image_start lk \<noteq> 0"
    using lay by (auto simp: layout_ok_def unat_eq_zero [symmetric])
  have "4096 \<le> unat (image_end lk) - unat (image_start lk) + 4095"
    using lay unfolding layout_ok_def by linarith
  then have pos: "0 < image_pages lk" by (simp add: image_pages_def div_greater_zero_iff)
  have pages: "total_pages s \<noteq> 0"
    using lay pos by (auto simp: layout_ok_def st)
  have bm: "bitmap s \<noteq> 0"
    using lay img(2) by (auto simp: layout_ok_def st unat_eq_zero [symmetric])
  define s1 where "s1 = klog ''Reserving kernel image pages: start=%p, size=0x%lx bytes, pages=%u\<newline>''
      [APtr (image_start lk), A64 (get_image_size lk), A64 ?n] s"
  have s1: "mem s1 = mem s" "mem_base s1 = mem_base s" "bitmap s1 = bitmap s"
    "total_pages s1 = total_pages s" "serial_console s1 = serial_console s" "uart0 s1 = uart0 s"
    "alloc_wf s1 = alloc_wf s" "page_used s1 = page_used s"
    by (simp_all add: s1_def)
  have ready: "alloc_ready s1"
    using wf pages bm lay by (simp add: alloc_ready_def s1 st layout_ok_def)
  have pool: "in_pool s1 (image_start lk) (unat ?n)"
    using lay by (simp add: in_pool_def n s1 st layout_ok_def)
  obtain s' where s': "reserve_page (image_start lk) ?n s1 = (True, s')"
    "\<And>k. k < unat (total_pages s1) \<Longrightarrow> page_used s' k \<longleftrightarrow> page_used s1 k \<or>
      (unat (image_start lk) \<le> unat (page_addr s1 k) \<and>
       unat (page_addr s1 k) < unat (image_start lk) + 4096 * unat ?n)"
    "\<And>x. \<not> in_bitmap s1 x \<Longrightarrow> mem s' x = mem s1 x"
    and fr: "mem_base s' = mem_base s1" "bitmap s' = bitmap s1" "total_pages s' = total_pages s1"
    "serial_console s' = serial_console s1" "uart0 s' = uart0 s1"
    by (rule reserve_page_addresses [OF ready img pool]) blast
  note fr = fr [unfolded s1]
  have addr: "page_addr s' = page_addr s" "page_addr s1 = page_addr s"
    by (rule page_addr_cong; simp add: fr s1)+
  have used: "page_used s' k = page_in_image lk s' k" if "k < unat (total_pages s)" for k
  proof -
    have "4096 dvd unat (page_addr s k)" and "4096 dvd unat (image_start lk)"
      using page_addr_aligned [OF wf that] img(1) by (simp_all add: page_aligned_dvd)
    from image_page_bounds [OF this, of "unat (image_end lk)"] show ?thesis
      using s'(2) [unfolded s1, OF that] free lay
      by (simp add: page_in_image_def addr n layout_ok_def image_pages_def)
  qed
  have "unat (page_allocator_bit_map_start lk) + bitmap_len s' \<le> unat (page_allocator_bit_map_end lk)"
    using reg unfolding region_ok_def bitmap_len_def fr st by linarith
  then have "page_in_image lk s' k" if "page_hits_bitmap s' k" for k
    using that lay by (auto simp: page_hits_bitmap_def page_in_image_def layout_ok_def fr st)
  then have "source_inv s'"
    using wf lay used by (simp add: source_inv_def bitmap_safe_iff fr st alloc_wf_cong [of s' s] layout_ok_def)
  then have "booted lk base sz s'"
    using used up init by (simp add: booted_def pool_initialised_def fr list_all_iff console_up_def)
  moreover have bmp: "in_bitmap s' = in_bitmap s" by (rule in_bitmap_cong) (simp_all add: fr)
  moreover have "in_bitmap s1 = in_bitmap s" by (rule in_bitmap_cong) (simp_all add: s1)
  moreover have "reserve_kerenel_img_pages lk s = (True, s')"
    using s'(1) by (simp add: reserve_kerenel_img_pages_def s1_def [symmetric])
  ultimately show thesis
    using s'(3) by (intro that [of s']) (simp_all add: s1)
qed

section \<open>The whole boot\<close>

text \<open>Printing the map touches nothing but the console.\<close>

lemma print_memory_map_frame [simp, frame]:
  shows "mem (print_memory_map mm s) = mem s"
    and "uart0 (print_memory_map mm s) = uart0 s"
    and "serial_console (print_memory_map mm s) = serial_console s"
proof -
  have fold: "g (fold (print_region mm) ks s) = g s"
    if "\<And>i s. g (print_region mm i s) = g s" for ks s and g :: "kernel \<Rightarrow> 'b"
    by (induction ks arbitrary: s) (simp_all add: that)
  show "mem (print_memory_map mm s) = mem s"
    and "uart0 (print_memory_map mm s) = uart0 s"
    and "serial_console (print_memory_map mm s) = serial_console s"
    unfolding print_memory_map_def Let_def
    by (subst fold; simp add: print_region_def)+
qed

text \<open>What the boot loader provides: a valid blob with one region, the one of the layout.\<close>

definition boot_env :: "libfdt \<Rightarrow> linker \<Rightarrow> u64 \<Rightarrow> u64 \<Rightarrow> u64 \<Rightarrow> kernel \<Rightarrow> bool" where
  "boot_env lib lk args base sz s \<longleftrightarrow>
     (let fdt = load64 (mem s) args
      in fdt_check_header lib (mem s) fdt = 0 \<and>
         fdt_describes lib (mem s) fdt [\<lparr>region_base = base, region_size = sz\<rparr>]) \<and>
     layout_ok lk base sz"

lemma page_dump_booted:
  assumes "booted lk base sz s" and "layout_ok lk base sz"
  obtains cs where "page_dump_status s = Some (send cs s)"
proof -
  have init: "pool_initialised lk base sz s" and reg: "region_ok lk base sz"
    using assms by (simp_all add: booted_def layout_ok_def)
  have "0 < image_pages lk"
  proof -
    have "4096 \<le> unat (image_end lk) - unat (image_start lk) + 4095"
      using assms(2) unfolding layout_ok_def by linarith
    then show ?thesis by (simp add: image_pages_def div_greater_zero_iff)
  qed
  then have "total_pages s \<noteq> 0"
    using assms(2) init by (auto simp: layout_ok_def pool_initialised_def)
  with assms(1) show thesis
    using page_dump_status_lines [OF pool_initialised_wf [OF reg init]] that
    by (auto simp: booted_def)
qed

lemma booted_cong:
  assumes "booted lk base sz s" and "mem s' = mem s" "mem_base s' = mem_base s"
    "bitmap s' = bitmap s" "total_pages s' = total_pages s" "uart0 s' = uart0 s"
    "serial_console s' = serial_console s"
  shows "booted lk base sz s'"
proof -
  have used: "page_used s' = page_used s"
    by (rule ext) (simp add: page_used_def is_used_def bm_byte_def assms(2-))
  have "source_inv s'"
    by (rule source_inv_grow [of s]) (use assms(1) in \<open>simp_all add: booted_def assms(2-) used\<close>)
  moreover have "page_in_image lk s' = page_in_image lk s"
    by (rule ext) (simp add: page_in_image_def page_addr_cong [OF assms(3)])
  moreover have "pool_initialised lk base sz s' = pool_initialised lk base sz s"
    by (simp add: pool_initialised_def assms(2-))
  ultimately show ?thesis
    using assms(1) by (simp add: booted_def assms(2-) used console_up_def)
qed

text \<open>What is left of \<open>memory_setup\<close> once the region is known.\<close>

definition setup_region :: "linker \<Rightarrow> u64 \<Rightarrow> u64 \<Rightarrow> kernel \<Rightarrow> bool \<times> kernel" where
  "setup_region lk base sz s =
     (let (page_init_result, s) = page_init lk base sz s
      in if \<not> page_init_result then
           (False, klog ''Failed to initialize page allocator. Halting.\<newline>'' [] s)
         else
           let (reserved, s) = reserve_kerenel_img_pages lk s
           in if \<not> reserved then
                (False, klog ''Error while reserving kernel binary pages\<newline>'' [] s)
              else (True, s))"

lemma memory_setup_region:
  assumes hdr: "fdt_check_header lib (mem s) (load64 (mem s) args) = 0"
    and desc: "fdt_describes lib (mem s) (load64 (mem s) args)
      [\<lparr>region_base = base, region_size = sz\<rparr>]"
    and len: "length (regions mmap) = MAX_MEM_REGIONS"
  obtains mm t where
      "memory_setup lib lk args mmap s = Some (setup_region lk base sz (print_memory_map mm t))"
    and "region_count mm = 1" and "mem t = mem s" and "console_up t" and "faults t = faults s"
proof -
  let ?fdt = "load64 (mem s) args"
  define s1 where "s1 = set_kprintf_console
      \<lparr>con_putc = Ptr_uart0_putchar, con_getc = Con_getc_NULL\<rparr> (s\<lparr>uart0 := pl011_init 0x09000000\<rparr>)"
  have m1: "mem s1 = mem s" and up1: "console_up s1" and f1: "faults s1 = faults s"
    by (simp_all add: s1_def set_kprintf_console_def console_up_def pl011_init_def)
  have fdt: "?fdt \<noteq> 0" using desc by (simp add: fdt_describes_def Let_def)
  define s2 where "s2 = klog ''Valid fdt\<newline>'' [] s1"
  have chk: "check_fdt lib ?fdt s1 = (True, s2)"
    using fdt hdr by (simp add: check_fdt_def m1 s2_def)
  have m2: "mem s2 = mem s" and up2: "console_up s2"
    using up1 by (simp_all add: s2_def m1 console_up_def)
  have f2: "faults s2 = faults s"
    using klog_send [OF up1, of "''Valid fdt\<newline>''" "[]"] by (simp add: s2_def f1 send_def)
  obtain mm where mm: "get_mem lib ?fdt (Some mmap) s2 = Some (0, Some mm, s2)"
    "region_count mm = 1" "take 1 (regions mm) = [\<lparr>region_base = base, region_size = sz\<rparr>]"
    using get_mem_describes [of lib s2 ?fdt "[\<lparr>region_base = base, region_size = sz\<rparr>]" mmap] desc len
    by (auto simp: m2)
  have r0: "regions mm ! 0 = \<lparr>region_base = base, region_size = sz\<rparr>"
    using mm(3) by (cases "regions mm") simp_all
  have "memory_setup lib lk args mmap s = Some (setup_region lk base sz (print_memory_map mm s2))"
    unfolding memory_setup_def setup_region_def Let_def s1_def [symmetric]
    by (simp add: m1 chk mm r0 split_beta)
  then show thesis using mm(2) m2 up2 f2 by (rule that)
qed

lemma boot_setup:
  assumes env: "boot_env lib lk args base sz s" and len: "length (regions mmap) = MAX_MEM_REGIONS"
  obtains s' where "memory_setup lib lk args mmap s = Some (True, s')" and "booted lk base sz s'"
    and "\<And>x. \<not> in_bitmap s' x \<Longrightarrow> mem s' x = mem s x"
proof -
  have lay: "layout_ok lk base sz" and reg: "region_ok lk base sz"
    using env by (simp_all add: boot_env_def layout_ok_def)
  obtain s3 where s3: "memory_setup lib lk args mmap s = Some (setup_region lk base sz s3)"
    "mem s3 = mem s" "console_up s3"
  proof -
    have "fdt_check_header lib (mem s) (load64 (mem s) args) = 0"
      "fdt_describes lib (mem s) (load64 (mem s) args) [\<lparr>region_base = base, region_size = sz\<rparr>]"
      using env by (simp_all add: boot_env_def Let_def)
    then show thesis
      by (rule memory_setup_region [OF _ _ len, where lk = lk])
        (rule that, assumption, simp_all add: console_up_def)
  qed
  obtain s4 where s4: "page_init lk base sz s3 = (True, s4)" "pool_initialised lk base sz s4"
    "\<And>k. \<not> page_used s4 k" "\<And>x. \<not> in_bitmap s4 x \<Longrightarrow> mem s4 x = mem s3 x"
    "serial_console s4 = serial_console s3" "uart0 s4 = uart0 s3"
    by (rule page_init_run [OF reg, of s3]) blast
  have up4: "console_up s4" using s3(3) by (simp add: console_up_def s4)
  obtain s5 where s5: "reserve_kerenel_img_pages lk s4 = (True, s5)" "booted lk base sz s5"
    "\<And>x. \<not> in_bitmap s5 x \<Longrightarrow> mem s5 x = mem s4 x" "in_bitmap s5 = in_bitmap s4"
    by (rule reserve_image [OF lay s4(2,3) up4]) blast
  have "memory_setup lib lk args mmap s = Some (True, s5)"
    by (simp add: s3(1) setup_region_def s4(1) s5(1))
  then show thesis using s5(2-4) s4(4) s3(2) by (intro that [of s5]) simp_all
qed

lemma boot:
  assumes env: "boot_env lib lk args base sz s" and len: "length (regions mmap) = MAX_MEM_REGIONS"
  obtains s' where "main lib lk args mmap s = Some (0, s')" and "booted lk base sz s'"
    and "\<And>x. \<not> in_bitmap s' x \<Longrightarrow> mem s' x = mem s x"
proof -
  have lay: "layout_ok lk base sz" using env by (simp add: boot_env_def)
  obtain s5 where s5: "memory_setup lib lk args mmap s = Some (True, s5)" "booted lk base sz s5"
    "\<And>x. \<not> in_bitmap s5 x \<Longrightarrow> mem s5 x = mem s x"
    by (rule boot_setup [OF env len]) blast
  obtain cs where dump: "page_dump_status s5 = Some (send cs s5)"
    by (rule page_dump_booted [OF s5(2) lay])
  let ?s6 = "klog ''Hello World!\<newline>'' [] (send cs s5)"
  have "main lib lk args mmap s = Some (0, ?s6)" by (simp add: main_def s5(1) dump)
  moreover have "booted lk base sz ?s6" by (rule booted_cong [OF s5(2)]) simp_all
  moreover have "in_bitmap ?s6 = in_bitmap s5" by (rule in_bitmap_cong) simp_all
  ultimately show thesis
    using s5(3) by (intro that [of ?s6]) simp_all
qed

text \<open>A byte of a page that is free after boot lies in the pool and outside the image.\<close>

lemma free_page_address:
  assumes "booted lk base sz s" and "free_page s (page_base x)"
  shows "unat (pool_start base) \<le> unat x"
    and "unat x < unat (pool_start base) + 4096 * unat (pool_pages base sz)"
    and "\<not> (unat (image_start lk) \<le> unat x \<and> unat x < unat (image_end lk))"
proof -
  obtain k where k: "k < unat (total_pages s)" "page_base x = page_addr s k" "\<not> page_used s k"
    using assms(2) by (auto simp: free_page_def)
  have wf: "alloc_wf s" and st: "mem_base s = pool_start base" "total_pages s = pool_pages base sz"
    using assms(1) by (simp_all add: booted_def source_inv_def pool_initialised_def)
  have "unat (page_addr s k) = 4096 * page_no x"
    unfolding k(2) [symmetric] page_base_def unat_page_floor page_no_def
    by (rule minus_mod_eq_mult_div)
  then have b: "unat (page_addr s k) \<le> unat x" "unat x < unat (page_addr s k) + 4096"
    by (simp_all add: page_no_def)
  have a: "unat (page_addr s k) = unat (pool_start base) + 4096 * k"
    using unat_page_addr [OF wf k(1)] by (simp add: st)
  show "unat (pool_start base) \<le> unat x" using a b(1) by simp
  show "unat x < unat (pool_start base) + 4096 * unat (pool_pages base sz)"
    using a b(2) k(1) unfolding st by linarith
  have "\<not> page_in_image lk s k" using assms(1) k(1,3) by (auto simp: booted_def list_all_iff)
  then show "\<not> (unat (image_start lk) \<le> unat x \<and> unat x < unat (image_end lk))"
    using b by (auto simp: page_in_image_def)
qed

end
