(* ===== verification/Panic.thy ===== *)
theory Panic
  imports Console
begin

text \<open>
  The diagnostics that need no console: \<^verbatim>\<open>src/kernel/error/panic.c\<close> with its own write to the
  UART, and the translation of error codes, \<^verbatim>\<open>src/kernel/error/error_strings.c\<close>.
\<close>

section \<open>Error codes\<close>

definition ERROR_CODE_SUCCESS :: u64 where
  "ERROR_CODE_SUCCESS = 0x0"

definition ERROR_CODE_NOT_EL1 :: u64 where
  "ERROR_CODE_NOT_EL1 = 0x1"

text \<open>The table the X-macro expands, in its order.\<close>

definition STRING_MAP :: "(u64 \<times> string) list" where
  "STRING_MAP = [(ERROR_CODE_SUCCESS, ''SUCCESS''), (ERROR_CODE_NOT_EL1, ''CPU not in EL1'')]"

definition error_to_string :: "u64 \<Rightarrow> string" where
  "error_to_string code =
     (case map_of STRING_MAP code of Some str \<Rightarrow> str | None \<Rightarrow> ''UNKNOWN'')"

section \<open>Output\<close>

definition uart0_dr :: u64 where
  "uart0_dr = 0x09000000"

text \<open>The string is a character array; the loop stops at the first NUL, or with the list, whose
  end stands for the NUL of a literal.\<close>

fun print_uart0 :: "string \<Rightarrow> kernel \<Rightarrow> kernel" where
  "print_uart0 [] s = s"
| "print_uart0 (c # str) s =
     (if c \<noteq> CHR 0x00 then
        print_uart0 str (s\<lparr>mmio_log := mmio_log s @ [(uart0_dr, of_char c)]\<rparr>)
      else s)"

definition print_hex_digit :: "u8 \<Rightarrow> kernel \<Rightarrow> kernel" where
  "print_hex_digit digit s =
     (let ten = 10; ascii_0 = 0x30; ascii_upper_a = 0x41
      in if digit < 10 then print_uart0 [char_of (unat (digit + ascii_0)), CHR 0x00] s
         else print_uart0 [char_of (unat (digit - ten + ascii_upper_a)), CHR 0x00] s)"

text \<open>\<^verbatim>\<open>for (int i = 60; i >= 0; i -= 4)\<close>.\<close>

function print_hex_loop :: "int \<Rightarrow> u64 \<Rightarrow> kernel \<Rightarrow> kernel" where
  "print_hex_loop i val s =
     (if i \<ge> 0 then
        print_hex_loop (i - 4) val (print_hex_digit (ucast (drop_bit (nat i) val AND 0xF)) s)
      else s)"
  by pat_completeness auto
termination by (relation "measure (\<lambda>(i, val, s). nat (i + 1))") auto

declare print_hex_loop.simps [simp del]

definition print_hex :: "u64 \<Rightarrow> kernel \<Rightarrow> kernel" where
  "print_hex val s = print_hex_loop 60 val (print_uart0 ''0x'' s)"

abbreviation (input) crlf :: string where
  "crlf \<equiv> [CHR 0x0D, CHR 0x0A]"

definition panic_print_c :: "u64 \<Rightarrow> kernel \<Rightarrow> kernel" where
  "panic_print_c code s =
     (let s = print_uart0 (crlf @ ''!!! KERNEL PANIC !!!'' @ crlf) s;
          s = print_uart0 ''Error Code:    '' s;
          s = print_hex code s;
          s = print_uart0 (crlf @ ''Error Message: '') s;
          s = print_uart0 (error_to_string code) s
      in print_uart0 (crlf @ ''Halting system.'' @ crlf) s)"

end
