(* ===== verification/Platform.thy ===== *)
theory Platform
  imports ConsoleProps
begin

text \<open>
  The ends of the kernel: reception from the UART (\<^verbatim>\<open>pl011_getc\<close> of
  \<^verbatim>\<open>src/kernel/drivers/uart.c\<close>), leaving through semihosting
  (\<^verbatim>\<open>src/kernel/exit/exit.c\<close>) and the exception handler
  (\<^verbatim>\<open>src/kernel/exception_handling/handler.c\<close>).
\<close>

section \<open>Reception\<close>

definition UART_FR :: u64 where
  "UART_FR = 0x18"

definition UART_FR_RXFE :: u32 where
  "UART_FR_RXFE = push_bit 4 1"

text \<open>
  A device register may have another value at each read, so the device is a function \<open>reg\<close> of the
  number of reads made so far and of the address, the driver a function that counts its reads.
  The wait loop ends only if the receive queue fills: its result is an option.
\<close>

type_synonym device = "nat \<Rightarrow> u64 \<Rightarrow> u32"

partial_function (option) pl011_getc_wait :: "device \<Rightarrow> u64 \<Rightarrow> nat \<Rightarrow> nat option" where
  [code]: "pl011_getc_wait reg f_reg t =
     (if reg t f_reg AND UART_FR_RXFE \<noteq> 0 then pl011_getc_wait reg f_reg (t + 1)
      else Some (t + 1))"

definition pl011_getc :: "uart_device \<Rightarrow> device \<Rightarrow> nat \<Rightarrow> (char \<times> nat) option" where
  "pl011_getc dev reg t =
     (let data_reg = mmio_base dev + UART_DR;
          f_reg = mmio_base dev + UART_FR
      in map_option (\<lambda>t. (char_of (unat (reg t data_reg AND 0xFF)), t + 1))
           (pl011_getc_wait reg f_reg t))"

section \<open>Leaving\<close>

text \<open>How control leaves the kernel: a semihosting call with the block of parameters it points to,
  or an endless loop.\<close>

datatype outcome = Semihosting u64 "u64 list" | Hangs

definition exit :: "u32 \<Rightarrow> kernel \<Rightarrow> outcome \<times> kernel" where
  "exit code s =
     (let s = klog ''Exiting QEMU with code: %u\<newline>'' [A32 code] s;
          block = [0x20026, ucast code]
      in (Semihosting 0x18 block, s))"

text \<open>The two system registers the handler reads are arguments.\<close>

definition generic_handler :: "u64 \<Rightarrow> u64 \<Rightarrow> kernel \<Rightarrow> outcome \<times> kernel" where
  "generic_handler current_el sp_sel s =
     (let s = klog ''Generic Handler invoked\<newline>'' [] s;
          el_num = drop_bit 2 current_el AND 0x3;
          s = klog ''Current EL = %lx\<newline>'' [A64 el_num] s;
          s = klog ''Used stack is = EL%lx\<newline>'' [A64 (if sp_sel = 0 then 0 else el_num)] s
      in (Hangs, s))"

section \<open>Properties\<close>

lemma pl011_getc_wait_iff:
  "pl011_getc_wait reg f t = Some t' \<longleftrightarrow>
     (\<exists>k. (\<forall>i. i < k \<longrightarrow> reg (t + i) f AND UART_FR_RXFE \<noteq> 0) \<and>
          reg (t + k) f AND UART_FR_RXFE = 0 \<and> t' = t + k + 1)"
    (is "?l t t' \<longleftrightarrow> (\<exists>k. ?first t k \<and> ?ready (t + k) \<and> t' = t + k + 1)")
proof
  assume run: "?l t t'"
  show "\<exists>k. ?first t k \<and> ?ready (t + k) \<and> t' = t + k + 1"
  proof (rule pl011_getc_wait.raw_induct [where P = "\<lambda>reg f t t'.
      \<exists>k. (\<forall>i. i < k \<longrightarrow> reg (t + i) f AND UART_FR_RXFE \<noteq> 0) \<and>
          reg (t + k) f AND UART_FR_RXFE = 0 \<and> t' = t + k + 1", OF _ run])
    fix self and reg :: device and f t t'
    assume IH: "\<And>reg f t t'. self reg f t = Some t' \<Longrightarrow>
        \<exists>k. (\<forall>i. i < k \<longrightarrow> reg (t + i) f AND UART_FR_RXFE \<noteq> 0) \<and>
          reg (t + k) f AND UART_FR_RXFE = 0 \<and> t' = t + k + 1"
      and step: "(if reg t f AND UART_FR_RXFE \<noteq> 0 then self reg f (t + 1) else Some (t + 1)) = Some t'"
    show "\<exists>k. (\<forall>i. i < k \<longrightarrow> reg (t + i) f AND UART_FR_RXFE \<noteq> 0) \<and>
          reg (t + k) f AND UART_FR_RXFE = 0 \<and> t' = t + k + 1"
    proof (cases "reg t f AND UART_FR_RXFE = 0")
      case True
      with step show ?thesis by (intro exI [of _ 0]) simp
    next
      case False
      with step IH obtain k where k: "\<And>i. i < k \<Longrightarrow> reg (t + 1 + i) f AND UART_FR_RXFE \<noteq> 0"
        "reg (t + 1 + k) f AND UART_FR_RXFE = 0" "t' = t + 1 + k + 1"
        by metis
      have "reg (t + i) f AND UART_FR_RXFE \<noteq> 0" if "i < Suc k" for i
        using k(1) [of "i - 1"] False that by (cases i) auto
      with k show ?thesis by (intro exI [of _ "Suc k"]) simp
    qed
  qed
next
  assume "\<exists>k. ?first t k \<and> ?ready (t + k) \<and> t' = t + k + 1"
  then obtain k where "?first t k" "?ready (t + k)" "t' = t + k + 1" by blast
  then show "?l t t'"
  proof (induction k arbitrary: t)
    case 0
    then show ?case by (subst pl011_getc_wait.simps) simp
  next
    case (Suc k)
    have "pl011_getc_wait reg f (t + 1) = Some t'"
    proof (rule Suc.IH)
      show "\<forall>i. i < k \<longrightarrow> reg (t + 1 + i) f AND UART_FR_RXFE \<noteq> 0"
        using Suc.prems(1) by (metis Suc_less_eq add.assoc plus_1_eq_Suc)
    qed (use Suc.prems in simp_all)
    moreover have "reg t f AND UART_FR_RXFE \<noteq> 0" using Suc.prems(1) by force
    ultimately show ?case by (subst pl011_getc_wait.simps) simp
  qed
qed

text \<open>
  C34: \<open>pl011_getc\<close> returns exactly when the receive queue is ever seen non-empty. It polls the flag
  register until bit 4 is clear for the first time, then reads the data register once, and returns
  the low byte of what it read; if the bit is never clear it never returns.
\<close>

theorem pl011_getc_iff:
  "pl011_getc dev reg t = Some (c, t') \<longleftrightarrow>
     (\<exists>k. (\<forall>i. i < k \<longrightarrow> bit (reg (t + i) (mmio_base dev + 0x18)) 4) \<and>
          \<not> bit (reg (t + k) (mmio_base dev + 0x18)) 4 \<and> t' = t + k + 2 \<and>
          c = char_of (unat (ucast (reg (t + k + 1) (mmio_base dev)) :: u8)))"
proof -
  have bit4: "w AND UART_FR_RXFE = 0 \<longleftrightarrow> \<not> bit w 4" for w :: u32
    by (simp add: UART_FR_RXFE_def bit_iff_and_push_bit_not_eq_0 del: push_bit_of_1)
  have byte: "unat (w AND 0xFF) = unat (ucast w :: u8)" for w :: u32
  proof -
    have "w AND 0xFF = take_bit 8 w" by (simp add: take_bit_eq_mask mask_eq_exp_minus_1)
    then show ?thesis by (simp only: unsigned_take_bit_eq unsigned_ucast_eq) simp
  qed
  show ?thesis
    by (auto simp: pl011_getc_def pl011_getc_wait_iff Let_def bit4 UART_FR_def UART_DR_def byte)
qed

text \<open>A device whose queue is empty for two reads and then holds one character.\<close>

definition demo_device :: device where
  "demo_device t a = (if a = 0x09000018 then (if t < 2 then 0x10 else 0) else 0x341)"

theorem pl011_getc_iff_witness:
  "pl011_getc (pl011_init 0x09000000) demo_device 0 = Some (CHR ''A'', 4)"
  by (subst pl011_getc_iff, rule exI [of _ 2])
    (simp add: pl011_init_def demo_device_def bit_simps char_of_def less_2_cases_iff all_conj_distrib)

text \<open>
  \<open>exit\<close> hands its code to the machine whatever the state of the console: it always ends in the
  semihosting call \<^verbatim>\<open>SYS_EXIT\<close> with the reason \<^verbatim>\<open>ADP_Stopped_ApplicationExit\<close> and the
  unchanged code, and its message writes to no memory.
\<close>

theorem exit_requests_code:
  "\<exists>s'. exit code s = (Semihosting 0x18 [0x20026, ucast code], s') \<and> mem s' = mem s"
  by (simp add: exit_def Let_def)

lemma el_field: "unat (drop_bit 2 (el :: u64) AND 0x3) = unat el div 4 mod 4"
proof -
  have "drop_bit 2 el AND 0x3 = take_bit 2 (drop_bit 2 el)"
    by (simp add: take_bit_eq_mask mask_eq_exp_minus_1)
  then show ?thesis
    using unat_lt_2_64 [of el]
    by (simp only: unsigned_take_bit_eq unsigned_drop_bit_eq) (simp add: take_bit_eq_mod drop_bit_eq_div)
qed

text \<open>
  The exception handler reports the exception level in bits 3 and 2 of \<^verbatim>\<open>CurrentEL\<close> and the
  stack in use (that of level 0 when \<^verbatim>\<open>SPSel\<close> is clear, of the current level otherwise) on three
  lines, changes nothing but the output, and never returns to the faulting code.
\<close>

theorem generic_handler_report:
  assumes "console_up s"
  shows "generic_handler el sp s = (Hangs,
    send (''Generic Handler invoked'' @ [CHR 0x0D, CHR 0x0A] @
      ''Current EL = '' @ [digit_of (unat el div 4 mod 4)] @ [CHR 0x0D, CHR 0x0A] @
      ''Used stack is = EL'' @ [digit_of (if sp = 0 then 0 else unat el div 4 mod 4)] @
      [CHR 0x0D, CHR 0x0A]) s)"
proof -
  have digit: "numeral_in 16 (unat el div 4 mod 4) = [digit_of (unat el div 4 mod 4)]"
    and zero: "numeral_in 16 0 = [digit_of 0]"
    by (simp_all add: numeral_in.simps less_le_trans [of _ 4])
  show ?thesis
    using assms by (simp add: generic_handler_def klog_send hex_text_def el_field digit zero)
qed

theorem generic_handler_report_witness:
  "fst (generic_handler 4 1 console_kernel) = Hangs \<and>
   length (mmio_log (snd (generic_handler 4 1 console_kernel))) = 62"
proof -
  have "mmio_log console_kernel = []" by (simp add: console_kernel_def)
  then show ?thesis
    using generic_handler_report [OF console_kernel_up, of 4 1] by (simp add: send_def)
qed

end
