(* ===== verification/Cache.thy ===== *)
theory Cache
  imports Prelude
begin

text \<open>
  The cache maintenance of the start-up code: \<open>dcache_inval_poc\<close> of \<^verbatim>\<open>src/boot/boot.s\<close> as
  the sequence of maintenance operations it issues, and what the sequence does to a write-back data
  cache in front of a memory.
\<close>

section \<open>The operations\<close>

text \<open>\<^verbatim>\<open>dc civac\<close> (clean and invalidate) and \<^verbatim>\<open>dc ivac\<close> (invalidate) by virtual address.\<close>

datatype cache_op = Dc_civac u64 | Dc_ivac u64

text \<open>\<^verbatim>\<open>ubfm tmp, tmp, #16, #19; mov reg, #4; lsl reg, reg, tmp\<close>\<close>

definition dcache_line_size :: "u64 \<Rightarrow> u64" where
  "dcache_line_size ctr_el0 = push_bit (unat (take_bit 4 (drop_bit 16 ctr_el0))) 4"

text \<open>From label 3: the next line, and back to label 2 while it lies below the end.\<close>

partial_function (option) inval_lines :: "u64 \<Rightarrow> u64 \<Rightarrow> u64 \<Rightarrow> cache_op list option" where
  [code]: "inval_lines x2 x0 x1 =
     (let x0 = x0 + x2
      in if x0 < x1 then Option.bind (inval_lines x2 x0 x1) (\<lambda>ops. Some (Dc_ivac x0 # ops)) else Some [])"

definition dcache_inval_poc :: "u64 \<Rightarrow> u64 \<Rightarrow> u64 \<Rightarrow> cache_op list option" where
  "dcache_inval_poc ctr_el0 x0 x1 =
     (let x2 = dcache_line_size ctr_el0;
          x3 = x2 - 1;
          end_aligned = (x1 AND x3 = 0);
          x1 = x1 AND NOT x3;
          at_end = (if end_aligned then [] else [Dc_civac x1]);
          start_aligned = (x0 AND x3 = 0);
          x0 = x0 AND NOT x3;
          at_start = (if start_aligned then Dc_ivac x0 else Dc_civac x0)
      in map_option (\<lambda>ops. at_end @ at_start # ops) (inval_lines x2 x0 x1))"

section \<open>A write-back cache\<close>

text \<open>
  The bytes held in cache, any of which may be newer than the memory behind it, and that memory.
  An operation acts on the whole line of its address.
\<close>

record cached_memory =
  cached :: "u64 \<Rightarrow> u8 option"
  behind :: "u64 \<Rightarrow> u8"

definition same_line :: "u64 \<Rightarrow> u64 \<Rightarrow> u64 \<Rightarrow> bool" where
  "same_line line a x \<longleftrightarrow> a AND NOT (line - 1) = x AND NOT (line - 1)"

definition view :: "cached_memory \<Rightarrow> u64 \<Rightarrow> u8" where
  "view st x = (case cached st x of Some b \<Rightarrow> b | None \<Rightarrow> behind st x)"

fun cache_step :: "u64 \<Rightarrow> cache_op \<Rightarrow> cached_memory \<Rightarrow> cached_memory" where
  "cache_step line (Dc_civac a) st =
     st\<lparr>cached := \<lambda>x. if same_line line a x then None else cached st x,
        behind := \<lambda>x. if same_line line a x then view st x else behind st x\<rparr>"
| "cache_step line (Dc_ivac a) st =
     st\<lparr>cached := \<lambda>x. if same_line line a x then None else cached st x\<rparr>"

section \<open>What a sequence of operations leaves\<close>

fun op_addr :: "cache_op \<Rightarrow> u64" where
  "op_addr (Dc_civac a) = a"
| "op_addr (Dc_ivac a) = a"

lemma cached_fold:
  "cached (fold (cache_step line) ops st) x =
     (if \<exists>op \<in> set ops. same_line line (op_addr op) x then None else cached st x)"
proof (induction ops arbitrary: st)
  case (Cons op ops)
  then show ?case by (cases op) auto
qed simp

text \<open>A byte keeps its value if no cached copy of it is invalidated without being cleaned.\<close>

lemma view_fold:
  assumes "cached st x = None \<or> (\<forall>a. Dc_ivac a \<in> set ops \<longrightarrow> \<not> same_line line a x)"
  shows "view (fold (cache_step line) ops st) x = view st x"
  using assms
proof (induction ops arbitrary: st)
  case (Cons op ops)
  have "cached (cache_step line op st) x = None \<or>
      (\<forall>a. Dc_ivac a \<in> set ops \<longrightarrow> \<not> same_line line a x)"
    using Cons.prems by (cases op) auto
  from Cons.IH [OF this] have "view (fold (cache_step line) (op # ops) st) x =
      view (cache_step line op st) x"
    by simp
  also have "\<dots> = view st x"
    using Cons.prems by (cases op) (auto simp: view_def split: option.splits)
  finally show ?case .
qed simp

section \<open>Lines\<close>

text \<open>The line size is a power of two; lines are numbered from address 0.\<close>

definition line_bits :: "u64 \<Rightarrow> nat" where
  "line_bits ctr_el0 = 2 + unat (take_bit 4 (drop_bit 16 ctr_el0))"

lemma line_bits_less: "line_bits ctr < 18"
proof -
  have "unat (take_bit 4 (drop_bit 16 ctr)) < 2 ^ 4"
    unfolding unsigned_take_bit_eq by (rule take_bit_nat_less_exp)
  then show ?thesis by (simp add: line_bits_def)
qed

lemma line_size_eq: "dcache_line_size ctr = 2 ^ line_bits ctr"
  by (simp add: dcache_line_size_def line_bits_def push_bit_eq_mult power_add)

lemma unat_line_mask:
  fixes x :: u64
  shows "unat (x AND (2 ^ s - 1)) = unat x mod 2 ^ s"
proof -
  have "x AND (2 ^ s - 1) = take_bit s x" by (simp add: take_bit_eq_mask mask_eq_exp_minus_1)
  then show ?thesis by (simp only: unsigned_take_bit_eq) (simp only: take_bit_eq_mod)
qed

lemma unat_line_start:
  fixes x :: u64
  shows "unat (x AND NOT (2 ^ s - 1)) = unat x div 2 ^ s * 2 ^ s"
proof -
  have m: "2 ^ s - 1 = (mask s :: u64)" by (simp add: mask_eq_exp_minus_1)
  have "(x AND mask s) + (x AND NOT (mask s)) = (x AND mask s) OR (x AND NOT (mask s))"
    by (rule disjunctive_add) (auto simp: bit_simps)
  also have "\<dots> = x" by (simp flip: bit.conj_disj_distrib)
  finally have *: "x AND NOT (mask s) = x - (x AND mask s)" by (simp add: algebra_simps)
  have "unat (x AND NOT (mask s)) = unat x - unat x mod 2 ^ s"
    unfolding * using unat_line_mask [of x s] unfolding m
    by (subst unat_sub) (simp_all add: word_le_nat_alt)
  then show ?thesis by (simp add: m minus_mod_eq_div_mult)
qed

lemma same_line_iff: "same_line (2 ^ s) a x \<longleftrightarrow> unat a div 2 ^ s = unat x div 2 ^ s"
  by (simp add: same_line_def word_unat_eq_iff unat_line_start)

lemma line_start_zero: "x AND (2 ^ s - 1) = 0 \<longleftrightarrow> 2 ^ s dvd unat (x :: u64)"
  by (simp only: unat_eq_0 [symmetric] unat_line_mask dvd_eq_mod_eq_0)

text \<open>
  The loop always ends when the start lies below the end and both are at the start of a line: it
  issues one operation for each line strictly between them.
\<close>

lemma next_line_le: "2 ^ s dvd m \<Longrightarrow> 2 ^ s dvd n \<Longrightarrow> m < n \<Longrightarrow> m + 2 ^ s \<le> (n :: nat)"
  using dvd_imp_le [OF dvd_diff_nat, of "2 ^ s" n m] by linarith

lemma unat_line_size_word: "s < 64 \<Longrightarrow> unat (2 ^ s :: u64) = 2 ^ s"
proof -
  assume "s < 64"
  then have "(2 :: nat) ^ s < 2 ^ 64" by (intro power_strict_increasing) simp_all
  then have "unat (word_of_nat (2 ^ s) :: u64) = 2 ^ s"
    by (simp only: unat_of_nat take_bit_eq_mod) simp
  then show ?thesis by simp
qed

lemma inval_lines_run:
  assumes "2 ^ s dvd unat x0" and "2 ^ s dvd unat x1" and "s < 64" and "unat x0 + 2 ^ s < 2 ^ 64"
  shows "\<exists>ops. inval_lines (2 ^ s) x0 x1 = Some ops \<and>
    (\<forall>op. op \<in> set ops \<longleftrightarrow> (\<exists>a. op = Dc_ivac a \<and> 2 ^ s dvd unat a \<and> x0 < a \<and> a < x1))"
  using assms
proof (induction "unat x1 - unat x0" arbitrary: x0 rule: less_induct)
  case less
  have x0': "unat (x0 + 2 ^ s) = unat x0 + 2 ^ s"
    using less.prems(3,4) by (subst unat_add_no_wrap) (simp_all add: unat_line_size_word)
  have nxt: "2 ^ s dvd unat (x0 + 2 ^ s)" using less.prems(1) by (simp add: x0')
  have above: "x0 + 2 ^ s \<le> a" if "2 ^ s dvd unat a" "x0 < a" for a
    using next_line_le [OF less.prems(1) that(1)] that(2)
    by (simp add: word_le_nat_alt word_less_nat_alt x0')
  have between: "x0 < x0 + 2 ^ s"
    by (simp add: word_less_nat_alt x0')
  show ?case
  proof (cases "x0 + 2 ^ s < x1")
    case True
    then have lt: "unat (x0 + 2 ^ s) < unat x1" by (simp add: word_less_nat_alt)
    have "unat (x0 + 2 ^ s) + 2 ^ s < 2 ^ 64"
      using next_line_le [OF nxt less.prems(2) lt] unat_lt_2_64 [of x1] by simp
    moreover have "unat x1 - unat (x0 + 2 ^ s) < unat x1 - unat x0"
      using lt between by (simp add: word_less_nat_alt)
    ultimately obtain ops where ops: "inval_lines (2 ^ s) (x0 + 2 ^ s) x1 = Some ops"
      "\<forall>op. op \<in> set ops \<longleftrightarrow>
        (\<exists>a. op = Dc_ivac a \<and> 2 ^ s dvd unat a \<and> x0 + 2 ^ s < a \<and> a < x1)"
      using less.hyps [OF _ nxt less.prems(2,3)] by blast
    have "inval_lines (2 ^ s) x0 x1 = Some (Dc_ivac (x0 + 2 ^ s) # ops)"
      using True ops(1) by (subst inval_lines.simps) (simp add: Let_def)
    moreover have "2 ^ s dvd unat a \<and> x0 < a \<and> a < x1 \<longleftrightarrow>
        a = x0 + 2 ^ s \<or> 2 ^ s dvd unat a \<and> x0 + 2 ^ s < a \<and> a < x1" for a
      using above [of a] True nxt between by (auto simp: order_le_less)
    ultimately show ?thesis using ops(2) by auto
  next
    case False
    then have "inval_lines (2 ^ s) x0 x1 = Some []"
      by (subst inval_lines.simps) (simp add: Let_def)
    moreover have "\<not> (2 ^ s dvd unat a \<and> x0 < a \<and> a < x1)" for a
      using above [of a] False by auto
    ultimately show ?thesis by auto
  qed
qed

section \<open>What the routine achieves\<close>

text \<open>The line an address lies in, and the facts about lines and intervals the proof needs.\<close>

abbreviation line_no :: "nat \<Rightarrow> u64 \<Rightarrow> nat" where
  "line_no s x \<equiv> unat x div 2 ^ s"

lemma line_bounds: "n div 2 ^ s * 2 ^ s \<le> n \<and> n < n div 2 ^ s * 2 ^ s + (2 ^ s :: nat)"
proof -
  have "n mod 2 ^ s < 2 ^ s" by simp
  then show ?thesis using div_mult_mod_eq [of n "2 ^ s"] by linarith
qed

lemma line_mono: "q < r \<Longrightarrow> q * 2 ^ s + 2 ^ s \<le> r * (2 ^ s :: nat)"
  using mult_le_mono1 [of "Suc q" r "2 ^ s"] by simp

lemma interval_lines:
  fixes x x0 x1 :: u64
  assumes "x0 \<le> x" and "x < x1"
  shows "line_no s x = line_no s x0 \<or> line_no s x = line_no s x1 \<and> \<not> 2 ^ s dvd unat x1 \<or>
    line_no s x0 < line_no s x \<and> line_no s x < line_no s x1"
proof -
  have "line_no s x0 \<le> line_no s x" "line_no s x \<le> line_no s x1"
    using assms by (simp_all add: div_le_mono word_le_nat_alt word_less_nat_alt)
  moreover have "line_no s x \<noteq> line_no s x1" if "2 ^ s dvd unat x1"
    using line_bounds [of "unat x" s] assms(2) that
    by (metis dvd_div_mult_self linorder_not_le word_less_nat_alt)
  ultimately show ?thesis by linarith
qed

lemma first_line_outside:
  fixes x x0 x1 :: u64
  assumes "x0 < x1" and "\<not> (x0 \<le> x \<and> x < x1)" and "line_no s x = line_no s x0" and "2 ^ s dvd unat x0"
  shows "line_no s x = line_no s x1 \<and> \<not> 2 ^ s dvd unat x1"
proof -
  have "unat x0 \<le> unat x"
    using line_bounds [of "unat x" s] assms(3,4) by (metis dvd_div_mult_self)
  then have x1: "unat x1 \<le> unat x" using assms(2) by (simp add: word_le_nat_alt word_less_nat_alt)
  have lt: "unat x0 < unat x1" using assms(1) by (simp add: word_less_nat_alt)
  then have "line_no s x0 \<le> line_no s x1" "line_no s x1 \<le> line_no s x"
    using x1 by (simp_all add: div_le_mono)
  then have eq: "line_no s x1 = line_no s x0" using assms(3) by simp
  have "\<not> 2 ^ s dvd unat x1"
    using lt eq assms(4) by (metis dvd_div_mult_self less_irrefl)
  then show ?thesis using eq assms(3) by simp
qed

lemma inner_line:
  fixes x x0 x1 :: u64
  assumes "line_no s x0 < line_no s x" and "line_no s x < line_no s x1"
  shows "x0 \<le> x \<and> x < x1"
  using line_bounds [of "unat x" s] line_bounds [of "unat x0" s] line_bounds [of "unat x1" s]
    line_mono [OF assms(1), of s] line_mono [OF assms(2), of s]
  unfolding word_le_nat_alt word_less_nat_alt by linarith

text \<open>The operations of a run: the two ends, then one for each line between them.\<close>

definition end_ops :: "nat \<Rightarrow> u64 \<Rightarrow> cache_op list" where
  "end_ops s x1 = (if 2 ^ s dvd unat x1 then [] else [Dc_civac (x1 AND NOT (2 ^ s - 1))])"

definition start_op :: "nat \<Rightarrow> u64 \<Rightarrow> cache_op" where
  "start_op s x0 =
     (let a = x0 AND NOT (2 ^ s - 1) in if 2 ^ s dvd unat x0 then Dc_ivac a else Dc_civac a)"

lemma dcache_run:
  assumes "x0 < x1" and "unat x1 + 2 ^ s \<le> 2 ^ 64" and s: "s = line_bits ctr"
  obtains ops where "dcache_inval_poc ctr x0 x1 = Some (end_ops s x1 @ start_op s x0 # ops)"
    and "\<And>op. op \<in> set ops \<Longrightarrow>
      \<exists>c. op = Dc_ivac c \<and> line_no s x0 < line_no s c \<and> line_no s c < line_no s x1"
    and "\<And>x. line_no s x0 < line_no s x \<Longrightarrow> line_no s x < line_no s x1 \<Longrightarrow>
      Dc_ivac (x AND NOT (2 ^ s - 1)) \<in> set ops"
proof -
  let ?a = "x0 AND NOT (2 ^ s - 1)" and ?b = "x1 AND NOT (2 ^ s - 1)"
  have s64: "s < 64" using line_bits_less [of ctr] by (simp add: s)
  have "unat ?a + 2 ^ s < 2 ^ 64"
    using line_bounds [of "unat x0" s] assms(1,2) unfolding unat_line_start word_less_nat_alt
    by linarith
  then obtain ops where ops: "inval_lines (2 ^ s) ?a ?b = Some ops"
    "\<And>op. op \<in> set ops \<longleftrightarrow> (\<exists>c. op = Dc_ivac c \<and> 2 ^ s dvd unat c \<and> ?a < c \<and> c < ?b)"
    using inval_lines_run [of s ?a ?b] s64 by (auto simp: unat_line_start)
  show thesis
  proof (rule that [of ops])
    show "dcache_inval_poc ctr x0 x1 = Some (end_ops s x1 @ start_op s x0 # ops)"
      by (simp add: dcache_inval_poc_def line_size_eq s [symmetric] Let_def line_start_zero ops(1)
          end_ops_def start_op_def)
  next
    fix op
    assume "op \<in> set ops"
    then obtain c where c: "op = Dc_ivac c" "2 ^ s dvd unat c" "?a < c" "c < ?b"
      using ops(2) by blast
    have "unat c = line_no s c * 2 ^ s" using c(2) by (simp add: dvd_div_mult_self)
    then have "line_no s x0 * 2 ^ s < line_no s c * 2 ^ s" "line_no s c * 2 ^ s < line_no s x1 * 2 ^ s"
      using c(3,4) by (simp_all add: word_less_nat_alt unat_line_start)
    with c(1) show "\<exists>c. op = Dc_ivac c \<and> line_no s x0 < line_no s c \<and> line_no s c < line_no s x1"
      by auto
  next
    fix x
    assume "line_no s x0 < line_no s x" and "line_no s x < line_no s x1"
    then show "Dc_ivac (x AND NOT (2 ^ s - 1)) \<in> set ops"
      by (simp add: ops(2) word_less_nat_alt unat_line_start)
  qed
qed

lemma dcache_outside:
  assumes "x0 < x1" and "\<not> (x0 \<le> x \<and> x < x1)"
    and inner: "\<And>op. op \<in> set ops \<Longrightarrow>
      \<exists>c. op = Dc_ivac c \<and> line_no s x0 < line_no s c \<and> line_no s c < line_no s x1"
  shows "view (fold (cache_step (2 ^ s)) (end_ops s x1 @ start_op s x0 # ops) st) x = view st x"
proof -
  let ?st = "fold (cache_step (2 ^ s)) (end_ops s x1) st"
  have "view ?st x = view st x" by (rule view_fold) (simp add: end_ops_def)
  moreover have "view (fold (cache_step (2 ^ s)) [start_op s x0] ?st) x = view ?st x"
  proof (rule view_fold, cases "2 ^ s dvd unat x0 \<and> line_no s x = line_no s x0")
    case True
    note first_line_outside [OF assms(1,2) conjunct2 [OF True] conjunct1 [OF True]]
    then have "cached ?st x = None" by (simp add: end_ops_def same_line_iff unat_line_start)
    then show "cached ?st x = None \<or>
        (\<forall>c. Dc_ivac c \<in> set [start_op s x0] \<longrightarrow> \<not> same_line (2 ^ s) c x)" ..
  next
    case False
    then show "cached ?st x = None \<or>
        (\<forall>c. Dc_ivac c \<in> set [start_op s x0] \<longrightarrow> \<not> same_line (2 ^ s) c x)"
      by (auto simp: start_op_def Let_def same_line_iff unat_line_start)
  qed
  moreover have "\<not> same_line (2 ^ s) c x" if "Dc_ivac c \<in> set ops" for c
    using inner [OF that] inner_line [where s = s and x = x and ?x0.0 = x0 and ?x1.0 = x1] assms(2) by (auto simp: same_line_iff)
  then have "view (fold (cache_step (2 ^ s)) ops u) x = view u x" for u
    by (intro view_fold) blast
  ultimately show ?thesis by simp
qed

lemma dcache_correct:
  assumes "x0 < x1" and "unat x1 + unat (dcache_line_size ctr) \<le> 2 ^ 64"
  shows "\<exists>ops. dcache_inval_poc ctr x0 x1 = Some ops \<and>
    (\<forall>st x. let st' = fold (cache_step (dcache_line_size ctr)) ops st
      in if x0 \<le> x \<and> x < x1 then cached st' x = None else view st' x = view st x)"
proof -
  define s where "s = line_bits ctr"
  have size: "dcache_line_size ctr = 2 ^ s" by (simp add: line_size_eq s_def)
  have "unat x1 + 2 ^ s \<le> 2 ^ 64"
    using assms(2) line_bits_less [of ctr] by (simp add: size unat_line_size_word s_def)
  then obtain ops where run: "dcache_inval_poc ctr x0 x1 = Some (end_ops s x1 @ start_op s x0 # ops)"
    and inner: "\<And>op. op \<in> set ops \<Longrightarrow>
      \<exists>c. op = Dc_ivac c \<and> line_no s x0 < line_no s c \<and> line_no s c < line_no s x1"
    and all: "\<And>x. line_no s x0 < line_no s x \<Longrightarrow> line_no s x < line_no s x1 \<Longrightarrow>
      Dc_ivac (x AND NOT (2 ^ s - 1)) \<in> set ops"
    by (rule dcache_run [OF assms(1) _ s_def]) blast
  have "\<exists>op \<in> set (end_ops s x1 @ start_op s x0 # ops). same_line (2 ^ s) (op_addr op) x"
    if "x0 \<le> x" "x < x1" for x
    using interval_lines [OF that, of s]
  proof (elim disjE conjE)
    assume "line_no s x = line_no s x0"
    then have "same_line (2 ^ s) (op_addr (start_op s x0)) x"
      by (simp add: start_op_def Let_def same_line_iff unat_line_start)
    then show ?thesis by simp
  next
    assume "line_no s x = line_no s x1" "\<not> 2 ^ s dvd unat x1"
    then show ?thesis by (simp add: end_ops_def same_line_iff unat_line_start)
  next
    assume "line_no s x0 < line_no s x" "line_no s x < line_no s x1"
    from all [OF this] have "Dc_ivac (x AND NOT (2 ^ s - 1)) \<in> set ops" .
    moreover have "same_line (2 ^ s) (x AND NOT (2 ^ s - 1)) x"
      by (simp add: same_line_iff unat_line_start)
    ultimately show ?thesis by force
  qed
  with run dcache_outside [OF assms(1) _ inner] show ?thesis
    unfolding size by (auto simp: Let_def cached_fold simp del: fold_append fold.simps)
qed

text \<open>
  C18: For an interval that is not empty and does not reach into the last line of the address space the
  routine ends, and after its operations no byte of the interval is in the cache, while every byte
  outside keeps the value a reader saw before: lines the interval covers in part are written back
  first.
\<close>

theorem dcache_inval_poc_correct:
  assumes "x0 < x1" and "unat x1 + unat (dcache_line_size ctr) \<le> 2 ^ 64"
  shows "\<exists>ops. dcache_inval_poc ctr x0 x1 = Some ops \<and>
    (\<forall>st x. let st' = fold (cache_step (dcache_line_size ctr)) ops st
      in if x0 \<le> x \<and> x < x1 then cached st' x = None else view st' x = view st x)"
  using assms by (rule dcache_correct)

text \<open>The 32 bytes of the boot arguments in the middle of a line of 64 bytes.\<close>

theorem dcache_inval_poc_correct_witness:
  "\<exists>ops. dcache_inval_poc 0x84448004 0x40013010 0x40013030 = Some ops \<and>
    cached (fold (cache_step 64) ops \<lparr>cached = \<lambda>_. Some 7, behind = \<lambda>_. 0\<rparr>) 0x40013010 = None \<and>
    view (fold (cache_step 64) ops \<lparr>cached = \<lambda>_. Some 7, behind = \<lambda>_. 0\<rparr>) 0x40013000 = 7"
proof -
  have size: "dcache_line_size 0x84448004 = 64"
    by (simp add: dcache_line_size_def)
  obtain ops where ops: "dcache_inval_poc 0x84448004 0x40013010 0x40013030 = Some ops"
    "\<forall>st x. let st' = fold (cache_step 64) ops st
      in if 0x40013010 \<le> x \<and> x < 0x40013030 then cached st' x = None else view st' x = view st x"
    using dcache_inval_poc_correct [of "0x40013010" "0x40013030" "0x84448004"] unfolding size by auto
  show ?thesis
    using ops(1) spec [OF spec [OF ops(2), of "\<lparr>cached = \<lambda>_. Some 7, behind = \<lambda>_. 0\<rparr>"], of "0x40013010"]
      spec [OF spec [OF ops(2), of "\<lparr>cached = \<lambda>_. Some 7, behind = \<lambda>_. 0\<rparr>"], of "0x40013000"]
    by (simp add: Let_def view_def)
qed

end
