(* ===== verification/Startup.thy ===== *)
theory Startup
  imports BootProps Panic Platform Cache
begin

text \<open>
  The way into the kernel, \<^verbatim>\<open>src/boot/boot.s\<close>: the entry point with its instructions in
  order, as functions of the registers it reads. The boot loader's registers, the system registers
  and the symbols of the linker are arguments. The cache operations are recorded in their order;
  the memory is the one behind the cache, which the code writes with the cache off. The barriers
  have no counterpart.
\<close>

section \<open>Registers and symbols\<close>

text \<open>
  What the core holds at entry; the stack pointer, the system registers and the cache as the code
  leaves them; and the symbols it uses. \<open>bss_size\<close> counts words of eight bytes, as in the linker
  script; \<open>after_setup\<close> is the address behind the call of \<^verbatim>\<open>setup_sctlr_el1\<close>. The code reaches
  \<open>boot_args\<close>, \<open>vector_table\<close> and \<open>emergency_stack_top\<close> relative to the program counter, but
  \<open>bss_start\<close>, \<open>bss_size\<close> and \<open>stack_top\<close> from its literal pool, which holds what was linked.
  \<open>c_bss\<close> is where the running code has its BSS: at \<open>bss_start\<close> if it runs where it was linked.
  \<open>c_frames\<close> is what the compiled \<^verbatim>\<open>panic_print_c\<close> leaves below the stack pointer.
\<close>

record entry_regs =
  x0 :: u64
  x1 :: u64
  x2 :: u64
  x3 :: u64
  x29 :: u64
  mpidr_el1 :: u64
  CurrentEL :: u64
  ctr_el0 :: u64

record sys_regs =
  sctlr_el1 :: u64
  vbar_el1 :: u64
  sp_el1 :: u64
  cache_ops :: "cache_op list"

record symbols =
  boot_args :: u64
  bss_start :: u64
  bss_size :: u64
  vector_table :: u64
  stack_top :: u64
  emergency_stack_top :: u64
  after_setup :: u64
  c_bss :: u64
  c_frames :: stack_use

definition EL1_VALUE :: u64 where
  "EL1_VALUE = 0x4"

section \<open>The system control register\<close>

definition SCTLR_EL1_64_MMU :: nat where "SCTLR_EL1_64_MMU = 0"
definition SCTLR_EL1_64_ALIGN_CHECK :: nat where "SCTLR_EL1_64_ALIGN_CHECK = 1"
definition SCTLR_EL1_64_D_CACHE :: nat where "SCTLR_EL1_64_D_CACHE = 2"
definition SCTLR_EL1_64_I_CACHE :: nat where "SCTLR_EL1_64_I_CACHE = 12"
definition SCTLR_EL1_64_EOE :: nat where "SCTLR_EL1_64_EOE = 24"
definition SCTLR_EL1_64_EE :: nat where "SCTLR_EL1_64_EE = 25"

text \<open>The instructions \<^verbatim>\<open>bic\<close> and \<^verbatim>\<open>orr\<close> with the bit \<open>n\<close>.\<close>

definition bic :: "u64 \<Rightarrow> nat \<Rightarrow> u64" where
  "bic x n = x AND NOT (push_bit n 1)"

definition orr :: "u64 \<Rightarrow> nat \<Rightarrow> u64" where
  "orr x n = x OR push_bit n 1"

definition setup_sctlr_el1 :: "u64 \<Rightarrow> u64" where
  "setup_sctlr_el1 x19 =
     (let x19 = bic x19 SCTLR_EL1_64_MMU;
          x19 = orr x19 SCTLR_EL1_64_ALIGN_CHECK;
          x19 = bic x19 SCTLR_EL1_64_D_CACHE;
          x19 = orr x19 SCTLR_EL1_64_I_CACHE;
          x19 = bic x19 SCTLR_EL1_64_EOE
      in bic x19 SCTLR_EL1_64_EE)"

section \<open>Clearing the BSS\<close>

text \<open>\<^verbatim>\<open>str xzr, [x0], #8; subs x1, x1, #1; bne clear_bss\<close>, skipped for a size of 0.\<close>

function clear_bss :: "u64 \<Rightarrow> u64 \<Rightarrow> memory \<Rightarrow> memory" where
  "clear_bss p n m = (if n = 0 then m else clear_bss (p + 8) (n - 1) (store64 m p 0))"
  by pat_completeness auto
termination
  by (relation "measure (\<lambda>(p, n, m). unat n)") (simp_all add: measure_unat)

declare clear_bss.simps [simp del]

text \<open>The static variables of the C files are in the BSS too.\<close>

definition zero_statics :: "kernel \<Rightarrow> kernel" where
  "zero_statics s =
     s\<lparr>mem_base := 0, bitmap := 0, total_pages := 0,
       uart0 := \<lparr>mmio_base = 0, dev_putc = Dev_putc_NULL, dev_getc = Dev_getc_NULL\<rparr>,
       serial_console := \<lparr>con_putc = Con_putc_NULL, con_getc = Con_getc_NULL\<rparr>\<rparr>"

text \<open>The cleared range holds them if the code runs where it was linked.\<close>

definition zero_bss :: "symbols \<Rightarrow> kernel \<Rightarrow> kernel" where
  "zero_bss syms s =
     (let s = s\<lparr>mem := clear_bss (bss_start syms) (bss_size syms) (mem s)\<rparr>
      in if c_bss syms = bss_start syms then zero_statics s else s)"

section \<open>The entry point\<close>

definition save_boot_args :: "symbols \<Rightarrow> entry_regs \<Rightarrow> memory \<Rightarrow> memory" where
  "save_boot_args syms regs m =
     (let m = store64 m (boot_args syms) (x0 regs);
          m = store64 m (boot_args syms + 8) (x1 regs);
          m = store64 m (boot_args syms + 16) (x2 regs)
      in store64 m (boot_args syms + 24) (x3 regs))"

text \<open>\<^verbatim>\<open>install_vectors\<close> of \<^verbatim>\<open>src/kernel/exception_handling/vector.s\<close>\<close>

definition install_vectors :: "symbols \<Rightarrow> sys_regs \<Rightarrow> sys_regs" where
  "install_vectors syms sys = (let x0 = vector_table syms in sys\<lparr>vbar_el1 := x0\<rparr>)"

text \<open>
  The macro \<^verbatim>\<open>panic_print\<close>: the frame pointer and the return address on the emergency stack,
  the report, which has its own frames below, and the frame off the stack again.
\<close>

definition panic_print :: "symbols \<Rightarrow> entry_regs \<Rightarrow> u64 \<Rightarrow> u64 \<Rightarrow> sys_regs \<Rightarrow> kernel \<Rightarrow> sys_regs \<times> kernel" where
  "panic_print syms regs x30 error_code sys s =
     (let x20 = x30;
          sp = emergency_stack_top syms - 16;
          s = s\<lparr>mem := store64 (store64 (mem s) sp (x29 regs)) (sp + 8) x20\<rparr>;
          s = panic_print_c error_code (s\<lparr>mem := c_frames syms sp (mem s)\<rparr>);
          sp = sp + 16
      in (sys\<lparr>sp_el1 := sp\<rparr>, s))"

definition primary_entry ::
  "libfdt \<Rightarrow> linker \<Rightarrow> symbols \<Rightarrow> memory_map \<Rightarrow> entry_regs \<Rightarrow> sys_regs \<Rightarrow> kernel \<Rightarrow>
   (outcome \<times> sys_regs \<times> kernel) option" where
  "primary_entry lib lk syms mmap regs sys s =
     (if mpidr_el1 regs AND 0xFF \<noteq> 0 then
        let sys = sys\<lparr>sp_el1 := stack_top syms\<rparr>;
            (end, s) = exit (ucast (x0 regs)) s in Some (end, sys, s)
      else
        let s = s\<lparr>mem := save_boot_args syms regs (mem s)\<rparr>
        in case dcache_inval_poc (ctr_el0 regs) (boot_args syms) (boot_args syms + 0x20) of
             None \<Rightarrow> None
           | Some ops \<Rightarrow>
               let sys = sys\<lparr>cache_ops := cache_ops sys @ ops\<rparr>
               in if CurrentEL regs \<noteq> EL1_VALUE then
                    let (sys, s) = panic_print syms regs (after_setup syms) ERROR_CODE_NOT_EL1 sys s
                    in Some (Hangs, sys, s)
                  else
                    let sys = sys\<lparr>sctlr_el1 := setup_sctlr_el1 (sctlr_el1 sys)\<rparr>;
                        sys = install_vectors syms sys;
                        sys = sys\<lparr>sp_el1 := stack_top syms\<rparr>;
                        s = zero_bss syms s
                    in case main lib lk (boot_args syms) mmap s of
                         None \<Rightarrow> None
                       | Some (r, s) \<Rightarrow>
                           let sys = sys\<lparr>sp_el1 := stack_top syms\<rparr>;
                               (end, s) = exit (word_of_int r) s in Some (end, sys, s))"

end
