(* ===== verification/BootTheorems.thy ===== *)
theory BootTheorems
  imports BootProps
begin

text \<open>
  The theorems about the boot sequence and about the kernel it leaves, on the layout of the linker
  script and a device tree with 128 MiB of memory.
\<close>

section \<open>A concrete boot\<close>

definition demo_boot :: kernel where
  "demo_boot = \<lparr>mem = demo_blob, mem_base = 0, bitmap = 0, total_pages = 0,
     uart0 = \<lparr>mmio_base = 0, dev_putc = Dev_putc_NULL, dev_getc = Dev_getc_NULL\<rparr>,
     serial_console = \<lparr>con_putc = Con_putc_NULL, con_getc = Con_getc_NULL\<rparr>,
     mmio_log = [], faults = [], va_junk = (\<lambda>_. 0)\<rparr>"

lemma demo_layout: "layout_ok demo_linker 0x40000000 0x8000000"
  using demo_region
  by (simp add: layout_ok_def demo_linker_def image_pages_def page_aligned_def pool_start_def
      pool_pages_def PAGE_SIZE_def)

lemma demo_args: "load64 demo_blob 0x40013000 = 0x48000000"
  by (simp add: load64_def demo_blob_def)

lemma demo_env: "boot_env demo_lib demo_linker 0x40013000 0x40000000 0x8000000 demo_boot"
  using demo_layout demo_describes
  by (simp add: boot_env_def demo_boot_def demo_args demo_region_list_def)

section \<open>Boot\<close>

text \<open>
  C9: given a valid device tree with one memory region, and an image laid out as the linker script
  does it inside that region, \<open>main\<close> returns 0 with the allocator's contract established: the
  pages of the pool that hold bytes of the image are in use, all others are free, and no byte
  outside the bitmap has changed.
\<close>

theorem boot_establishes:
  assumes "boot_env lib lk args base sz s" and "length (regions mmap) = MAX_MEM_REGIONS"
  shows "\<exists>s'. main lib lk args mmap s = Some (0, s') \<and> source_inv s' \<and> console_up s' \<and>
    mem_base s' = pool_start base \<and> total_pages s' = pool_pages base sz \<and>
    (\<forall>k < unat (total_pages s'). page_used s' k \<longleftrightarrow> page_in_image lk s' k) \<and>
    (\<forall>x. \<not> in_bitmap s' x \<longrightarrow> mem s' x = mem s x)"
proof -
  obtain s' where "main lib lk args mmap s = Some (0, s')" "booted lk base sz s'"
    "\<And>x. \<not> in_bitmap s' x \<Longrightarrow> mem s' x = mem s x"
    by (rule boot [OF assms]) blast
  then show ?thesis
    by (auto simp: booted_def pool_initialised_def list_all_iff)
qed

theorem boot_establishes_witness:
  "\<exists>s'. main demo_lib demo_linker 0x40013000 demo_map0 demo_boot = Some (0, s') \<and> source_inv s' \<and>
     total_pages s' = 0x8000"
  using boot_establishes [OF demo_env demo_map0_len]
  by (auto simp: pool_pages_def pool_start_def PAGE_SIZE_def)

lemma demo_booted:
  obtains s' where "main demo_lib demo_linker 0x40013000 demo_map0 demo_boot = Some (0, s')"
    and "booted demo_linker 0x40000000 0x8000000 s'"
  by (rule boot [OF demo_env demo_map0_len]) blast



lemma main_refuses:
  assumes "load64 (mem s) args = 0 \<or> fdt_check_header lib (mem s) (load64 (mem s) args) \<noteq> 0 \<or>
      (fdt_describes lib (mem s) (load64 (mem s) args) rs \<and> length rs \<noteq> 1)"
    and "length (regions mmap) = MAX_MEM_REGIONS"
  shows "\<exists>s'. main lib lk args mmap s = Some (1, s') \<and> mem s' = mem s \<and>
    mem_base s' = mem_base s \<and> total_pages s' = total_pages s \<and> bitmap s' = bitmap s"
proof -
  let ?fdt = "load64 (mem s) args"
  define s1 where "s1 = set_kprintf_console
      \<lparr>con_putc = Ptr_uart0_putchar, con_getc = Con_getc_NULL\<rparr> (s\<lparr>uart0 := pl011_init 0x09000000\<rparr>)"
  have s1: "mem s1 = mem s" "mem_base s1 = mem_base s" "total_pages s1 = total_pages s" "bitmap s1 = bitmap s"
    by (simp_all add: s1_def set_kprintf_console_def)
  show ?thesis
  proof (cases "?fdt = 0 \<or> fdt_check_header lib (mem s) ?fdt \<noteq> 0")
    case True
    then have "\<not> fst (check_fdt lib ?fdt s1)"
      by (auto simp: check_fdt_def s1 Let_def)
    moreover have "mem (snd (check_fdt lib ?fdt s1)) = mem s"
      "mem_base (snd (check_fdt lib ?fdt s1)) = mem_base s"
      "total_pages (snd (check_fdt lib ?fdt s1)) = total_pages s"
      "bitmap (snd (check_fdt lib ?fdt s1)) = bitmap s"
      by (simp_all add: check_fdt_def s1 Let_def)
    ultimately show ?thesis
      unfolding main_def memory_setup_def Let_def s1_def [symmetric] by (simp add: s1 split_beta)
  next
    case False
    define s2 where "s2 = klog ''Valid fdt\<newline>'' [] s1"
    have chk: "check_fdt lib ?fdt s1 = (True, s2)"
      using False by (simp add: check_fdt_def s1 s2_def)
    have s2: "mem s2 = mem s" "mem_base s2 = mem_base s" "total_pages s2 = total_pages s" "bitmap s2 = bitmap s"
      by (simp_all add: s2_def s1)
    have rs: "fdt_describes lib (mem s) ?fdt rs" "length rs \<noteq> 1" using False assms(1) by auto
    obtain mm where "get_mem lib ?fdt (Some mmap) s2 = Some (0, Some mm, s2)"
      "region_count mm = int (length rs)"
      using get_mem_describes [of lib s2 ?fdt rs mmap] rs(1) assms(2) by (auto simp: s2)
    then show ?thesis
      using rs(2) unfolding main_def memory_setup_def Let_def s1_def [symmetric]
      by (simp add: s1 chk) (simp add: s2)
  qed
qed

text \<open>
  C39: what \<open>main\<close> refuses: a null or invalid device tree, and one that describes no region or
  several. It returns 1 and has touched none of the three variables of the allocator and no byte of
  memory.
\<close>

theorem boot_refuses:
  assumes "load64 (mem s) args = 0 \<or> fdt_check_header lib (mem s) (load64 (mem s) args) \<noteq> 0 \<or>
      (fdt_describes lib (mem s) (load64 (mem s) args) rs \<and> length rs \<noteq> 1)"
    and "length (regions mmap) = MAX_MEM_REGIONS"
  shows "\<exists>s'. main lib lk args mmap s = Some (1, s') \<and> mem s' = mem s \<and>
    mem_base s' = mem_base s \<and> total_pages s' = total_pages s \<and> bitmap s' = bitmap s"
  using assms by (rule main_refuses)

theorem boot_refuses_witness:
  "\<exists>s'. main demo_lib demo_linker 0x1000 demo_map0 demo_boot = Some (1, s')"
proof -
  have "load64 (mem demo_boot) 0x1000 = 0" by (simp add: demo_boot_def demo_blob_def load64_def)
  then show ?thesis using boot_refuses [of demo_boot "0x1000"] demo_map0_len by blast
qed

section \<open>The image after boot\<close>

text \<open>
  after boot, building an address space and mapping a page in it, whether that succeeds or
  not, changes no byte of the kernel image outside the allocation bitmap.
\<close>

theorem image_survives_mapping:
  assumes "layout_ok lk base sz" and "booted lk base sz s"
    and "unat (pool_start base) + 4096 * unat (pool_pages base sz) \<le> 2 ^ 48"
    and "root_table s = (root, s1)" and "root \<noteq> 0"
    and "unat (image_start lk) \<le> unat x" and "unat x < unat (image_end lk)" and "\<not> in_bitmap s x"
  shows "mem (snd (map_page root va pa perms s1)) x = mem s x"
proof -
  have src: "source_inv s" and wf: "alloc_wf s" and init: "pool_initialised lk base sz s"
    using assms(2) by (simp_all add: booted_def source_inv_def)
  have low: "unat (mem_base s) + 4096 * unat (total_pages s) \<le> 2 ^ 48"
    using assms(3) init by (simp add: pool_initialised_def)
  have "\<not> free_page s (page_base x)"
    using free_page_address(3) [OF assms(2)] assms(6,7) by blast
  note p = new_root_protected [OF src assms(4,5,8) this]
  show ?thesis
    using map_page_protected [OF new_root(1) [OF src low assms(4,5)] p(2)] p(1) by simp
qed

text \<open>The first page after the demonstration image is free, so a root table can be made.\<close>

lemma demo_booted_root:
  assumes "booted demo_linker 0x40000000 0x8000000 s"
  shows "fst (root_table s) \<noteq> 0"
proof
  assume "fst (root_table s) = 0"
  then have "page_alloc 1 s = (0, snd (page_alloc 1 s))"
    by (simp add: root_table_def split_beta prod_eq_iff)
  then have "free_pages s = 0"
    using alloc_free_pages(1) assms by (simp add: booted_def)
  moreover have total: "unat (total_pages s) = 0x8000" and base: "mem_base s = 0x40000000"
    using assms by (simp_all add: booted_def pool_initialised_def pool_pages_def pool_start_def
        PAGE_SIZE_def)
  ultimately have "page_used s 0x20" by (auto simp: free_pages_def filter_empty_conv)
  then have "page_in_image demo_linker s 0x20"
    using assms by (auto simp: booted_def list_all_iff total)
  then show False by (simp add: page_in_image_def page_addr_def base PAGE_SIZE_def demo_linker_def)
qed

theorem image_survives_mapping_witness:
  "\<exists>s root s1. booted demo_linker 0x40000000 0x8000000 s \<and> root_table s = (root, s1) \<and> root \<noteq> 0 \<and>
    mem (snd (map_page root 0x1000 0x7000 demo_perms s1)) 0x40000010 = mem s 0x40000010"
proof -
  obtain s' where s': "booted demo_linker 0x40000000 0x8000000 s'" by (rule demo_booted)
  obtain root s1 where run: "root_table s' = (root, s1)" by (cases "root_table s'")
  then have nz: "root \<noteq> 0" using demo_booted_root [OF s'] by simp
  have bm: "\<not> in_bitmap s' 0x40000010"
    using s' by (simp add: booted_def pool_initialised_def in_bitmap_def demo_linker_def)
  have low: "unat (pool_start 0x40000000) + 4096 * unat (pool_pages 0x40000000 0x8000000) \<le> 2 ^ 48"
    by (simp add: pool_start_def pool_pages_def PAGE_SIZE_def)
  have "mem (snd (map_page root 0x1000 0x7000 demo_perms s1)) 0x40000010 = mem s' 0x40000010"
    by (rule image_survives_mapping [OF demo_layout s' low run nz _ _ bm])
      (simp_all add: demo_linker_def)
  then show ?thesis using s' run nz by blast
qed

end
