(* ===== verification/CString.thy ===== *)
theory CString
  imports Memory
begin

text \<open>
  The freestanding string functions, \<^verbatim>\<open>src/kernel/utils/string.c\<close>, over the byte memory: a
  pointer is an address, the null pointer 0. \<^verbatim>\<open>while (size--)\<close> is recursion on the size. The
  functions that look for a terminating NUL have an option result, for the loop that never finds
  one. A \<^verbatim>\<open>char\<close> is an unsigned byte, as on AArch64.
\<close>

section \<open>Blocks of memory\<close>

text \<open>\<^verbatim>\<open>while (size--) *d_ptr++ = *s_ptr++;\<close>\<close>

function copy_forward :: "u64 \<Rightarrow> u64 \<Rightarrow> u64 \<Rightarrow> memory \<Rightarrow> memory" where
  "copy_forward d_ptr s_ptr num m =
     (if num = 0 then m
      else copy_forward (d_ptr + 1) (s_ptr + 1) (num - 1) (m(d_ptr := m s_ptr)))"
  by pat_completeness auto
termination
  by (relation "measure (\<lambda>(d, s, n, m). unat n)") (simp_all add: measure_unat)

declare copy_forward.simps [simp del]

text \<open>\<^verbatim>\<open>while (size--) *--d_ptr = *--s_ptr;\<close>\<close>

function copy_backward :: "u64 \<Rightarrow> u64 \<Rightarrow> u64 \<Rightarrow> memory \<Rightarrow> memory" where
  "copy_backward d_ptr s_ptr num m =
     (if num = 0 then m
      else copy_backward (d_ptr - 1) (s_ptr - 1) (num - 1) (m(d_ptr - 1 := m (s_ptr - 1))))"
  by pat_completeness auto
termination
  by (relation "measure (\<lambda>(d, s, n, m). unat n)") (simp_all add: measure_unat)

declare copy_backward.simps [simp del]

definition memcpy :: "u64 \<Rightarrow> u64 \<Rightarrow> u64 \<Rightarrow> memory \<Rightarrow> u64 \<times> memory" where
  "memcpy dest src num m = (dest, copy_forward dest src num m)"

definition memmove :: "u64 \<Rightarrow> u64 \<Rightarrow> u64 \<Rightarrow> memory \<Rightarrow> u64 \<times> memory" where
  "memmove dest src num m =
     (if dest < src then (dest, copy_forward dest src num m)
      else if dest > src then (dest, copy_backward (dest + num) (src + num) num m)
      else (dest, m))"

function fill :: "u64 \<Rightarrow> u8 \<Rightarrow> u64 \<Rightarrow> memory \<Rightarrow> memory" where
  "fill ptr val num m =
     (if num = 0 then m else fill (ptr + 1) val (num - 1) (m(ptr := val)))"
  by pat_completeness auto
termination
  by (relation "measure (\<lambda>(p, v, n, m). unat n)") (simp_all add: measure_unat)

declare fill.simps [simp del]

text \<open>The value argument is a C \<^verbatim>\<open>int\<close>, converted to \<^verbatim>\<open>unsigned char\<close>.\<close>

definition memset :: "u64 \<Rightarrow> u32 \<Rightarrow> u64 \<Rightarrow> memory \<Rightarrow> u64 \<times> memory" where
  "memset s_ptr val num m = (s_ptr, fill s_ptr (ucast val) num m)"

function memcmp :: "u64 \<Rightarrow> u64 \<Rightarrow> u64 \<Rightarrow> memory \<Rightarrow> int" where
  "memcmp ptr1 ptr2 num m =
     (if num = 0 then 0
      else if m ptr1 \<noteq> m ptr2 then uint (m ptr1) - uint (m ptr2)
      else memcmp (ptr1 + 1) (ptr2 + 1) (num - 1) m)"
  by pat_completeness auto
termination
  by (relation "measure (\<lambda>(p, q, n, m). unat n)") (simp_all add: measure_unat)

declare memcmp.simps [simp del]

function memchr :: "u64 \<Rightarrow> u32 \<Rightarrow> u64 \<Rightarrow> memory \<Rightarrow> u64" where
  "memchr ptr chr num m =
     (if num = 0 then 0
      else if m ptr = ucast chr then ptr
      else memchr (ptr + 1) chr (num - 1) m)"
  by pat_completeness auto
termination
  by (relation "measure (\<lambda>(p, c, n, m). unat n)") (simp_all add: measure_unat)

declare memchr.simps [simp del]

section \<open>Strings\<close>

partial_function (option) strchr :: "u64 \<Rightarrow> u32 \<Rightarrow> memory \<Rightarrow> u64 option" where
  [code]: "strchr str chr m =
     (if m str = ucast chr then Some str
      else if m str = 0 then Some 0
      else strchr (str + 1) chr m)"

partial_function (option) strrchr_loop :: "u64 \<Rightarrow> u32 \<Rightarrow> u64 \<Rightarrow> memory \<Rightarrow> u64 option" where
  [code]: "strrchr_loop str chr found m =
     (let found = (if m str = ucast chr then str else found)
      in if m str = 0 then Some found else strrchr_loop (str + 1) chr found m)"

definition strrchr :: "u64 \<Rightarrow> u32 \<Rightarrow> memory \<Rightarrow> u64 option" where
  "strrchr str chr m = strrchr_loop str chr 0 m"

partial_function (option) strlen_loop :: "u64 \<Rightarrow> u64 \<Rightarrow> memory \<Rightarrow> u64 option" where
  [code]: "strlen_loop str len m =
     (if m (str + len) \<noteq> 0 then strlen_loop str (len + 1) m else Some len)"

definition strlen :: "u64 \<Rightarrow> memory \<Rightarrow> u64 option" where
  "strlen str m = strlen_loop str 0 m"

function strnlen_loop :: "u64 \<Rightarrow> u64 \<Rightarrow> u64 \<Rightarrow> memory \<Rightarrow> u64" where
  "strnlen_loop str len maxlen m =
     (if len < maxlen \<and> m (str + len) \<noteq> 0 then strnlen_loop str (len + 1) maxlen m else len)"
  by pat_completeness auto
termination
proof (relation "measure (\<lambda>(p, l, n, m). unat n - unat l)", goal_cases)
  case (2 str len maxlen m)
  then have "unat (len + 1) = Suc (unat len)" and "unat len < unat maxlen"
    using unat_add1 [of len maxlen] by (simp_all add: word_less_nat_alt)
  then show ?case by simp
qed simp

declare strnlen_loop.simps [simp del]

definition strnlen :: "u64 \<Rightarrow> u64 \<Rightarrow> memory \<Rightarrow> u64" where
  "strnlen str maxlen m = strnlen_loop str 0 maxlen m"

section \<open>strtoul\<close>

text \<open>The value of a digit character, \<open>None\<close> for the \<^verbatim>\<open>break\<close> of the last \<^verbatim>\<open>else\<close>.\<close>

definition digit_value :: "u8 \<Rightarrow> int option" where
  "digit_value chr =
     (if chr \<ge> 0x30 \<and> chr \<le> 0x39 then Some (uint chr - 0x30)
      else if chr \<ge> 0x61 \<and> chr \<le> 0x66 then Some (uint chr - 0x61 + 10)
      else if chr \<ge> 0x41 \<and> chr \<le> 0x46 then Some (uint chr - 0x41 + 10)
      else None)"

text \<open>The base is a C \<^verbatim>\<open>int\<close>; the accumulator wraps at 64 bits. The result is the number and the
  final \<^verbatim>\<open>nptr\<close>.\<close>

partial_function (option) strtoul_loop :: "u64 \<Rightarrow> int \<Rightarrow> u64 \<Rightarrow> memory \<Rightarrow> (u64 \<times> u64) option" where
  [code]: "strtoul_loop nptr base res m =
     (if m nptr = 0 then Some (res, nptr)
      else
        case digit_value (m nptr) of
          None \<Rightarrow> Some (res, nptr)
        | Some value \<Rightarrow>
            if value \<ge> base then Some (res, nptr)
            else strtoul_loop (nptr + 1) base (res * word_of_int base + word_of_int value) m)"

definition strtoul :: "u64 \<Rightarrow> u64 \<Rightarrow> int \<Rightarrow> memory \<Rightarrow> (u64 \<times> memory) option" where
  "strtoul nptr endptr base m =
     (let (base, nptr) =
            (if (base = 0 \<or> base = 16) \<and> m nptr = 0x30 \<and>
                (m (nptr + 1) = 0x78 \<or> m (nptr + 1) = 0x58) then (16, nptr + 2)
             else if base = 0 then (10, nptr)
             else (base, nptr))
      in map_option
           (\<lambda>(res, nptr). (res, if endptr \<noteq> 0 then store64 m endptr nptr else m))
           (strtoul_loop nptr base 0 m))"

end
