(* ===== verification/RegisterDecoder.thy ===== *)
theory RegisterDecoder
  imports ConsoleProps CString
begin

text \<open>
  The register decoder, \<^verbatim>\<open>tools/register_decoder\<close>: a hosted command-line tool that prints the
  bit-fields of \<^verbatim>\<open>SCTLR_EL1\<close>. A union of a raw value and a struct of bit-fields is the raw
  value with the layout that the bit-field rules of the C ABI give the declarations; the output is
  the text written to standard output, the standard input a text too.
\<close>

section \<open>Bit-fields\<close>

text \<open>
  Bit-fields in declaration order with their widths, placed in storage units of \<open>unit\<close> bits: a
  field follows the one before it unless it would straddle a unit, then it starts the next unit.
\<close>

fun place_fields :: "nat \<Rightarrow> nat \<Rightarrow> (string \<times> nat) list \<Rightarrow> (string \<times> nat \<times> nat) list" where
  "place_fields unit pos [] = []"
| "place_fields unit pos ((f, w) # fs) =
     (let start = (if pos mod unit + w > unit then (pos div unit + 1) * unit else pos)
      in (f, start, w) # place_fields unit (start + w) fs)"

definition bits_get :: "(string \<times> nat \<times> nat) list \<Rightarrow> u64 \<Rightarrow> string \<Rightarrow> nat" where
  "bits_get layout raw f =
     (case map_of layout f of None \<Rightarrow> 0 | Some (off, w) \<Rightarrow> unat (take_bit w (drop_bit off raw)))"

definition sctlr_el1_32_fields :: "(string \<times> nat) list" where
  "sctlr_el1_32_fields =
     [(''M'', 1), (''A'', 1), (''C'', 1), (''nTLSMD'', 1), (''LSMAOE'', 1), (''CP15BEN'', 1),
      (''UNK'', 1), (''ITD'', 1), (''SED'', 1), (''RES0_9'', 1), (''EnRCTX'', 1),
      (''RES1_11'', 1), (''I'', 1), (''V'', 1), (''RES0_14'', 1), (''RES0_15'', 1), (''nTWI'', 1),
      (''RES0_17'', 1), (''nTWE'', 1), (''WXN'', 1), (''UWXN'', 1), (''RES0_21'', 1),
      (''RES0_22'', 1), (''SPAN'', 1), (''RES0_24'', 1), (''EE'', 1), (''RES0_26'', 1),
      (''RES0_27'', 1), (''TRE'', 1), (''AFE'', 1), (''TE'', 1), (''DSSBS'', 1)]"

definition sctlr_el1_64_fields :: "(string \<times> nat) list" where
  "sctlr_el1_64_fields =
     [(''M'', 1), (''A'', 1), (''C'', 1), (''SA'', 1), (''SA0'', 1), (''CP15BEN'', 1),
      (''nAA'', 1), (''ITD'', 1), (''SED'', 1), (''UMA'', 1), (''EnRCTX'', 1), (''EOS'', 1),
      (''I'', 1), (''EnDB'', 1), (''DZE'', 1), (''UCT'', 1), (''nTWI'', 1), (''RES0_1'', 1),
      (''nTWE'', 1), (''WXN'', 1), (''TSCXT'', 1), (''IESB'', 1), (''EIS'', 1), (''SPAN'', 1),
      (''E0E'', 1), (''EE'', 1), (''UCI'', 1), (''EnDA'', 1), (''nTLSMD'', 1), (''LSMAOE'', 1),
      (''EnIB'', 1), (''EnIA'', 1), (''RES0_2'', 3), (''BT0'', 1), (''BT1'', 1), (''ITFSB'', 1),
      (''TCF0'', 2), (''TCF'', 2), (''ATA0'', 1), (''ATA'', 1), (''DSSBS'', 1), (''TWEDEn'', 1),
      (''TWEDEL'', 4), (''RES0_3'', 4), (''EnASR'', 1), (''EnAS0'', 1), (''EnALS'', 1),
      (''EPAN'', 1), (''RES0_4'', 28)]"

definition sctlr_el1_32_layout :: "(string \<times> nat \<times> nat) list" where
  "sctlr_el1_32_layout = place_fields 32 0 sctlr_el1_32_fields"

definition sctlr_el1_64_layout :: "(string \<times> nat \<times> nat) list" where
  "sctlr_el1_64_layout = place_fields 64 0 sctlr_el1_64_fields"

section \<open>The decoders\<close>

text \<open>A \<^verbatim>\<open>printf\<close> of one bit-field: the text before the conversion, the field, and the conversion:
  \<^verbatim>\<open>%u\<close>, \<^verbatim>\<open>%X\<close>, or \<^verbatim>\<open>%u (%s)\<close> with one text for a set and one for a clear field.\<close>

datatype conversion = Dec | Hex | Flag string string

type_synonym row = "string \<times> string \<times> conversion"

definition ascii_upper :: "char \<Rightarrow> char" where
  "ascii_upper c =
     (if 97 \<le> (of_char c :: nat) \<and> (of_char c :: nat) \<le> 122 then char_of (of_char c - 32 :: nat) else c)"

definition printf_u :: "nat \<Rightarrow> string" where
  "printf_u n = numeral_in 10 n"

definition printf_X :: "nat \<Rightarrow> string" where
  "printf_X n = map ascii_upper (numeral_in 16 n)"

text \<open>\<^verbatim>\<open>%0<w>X\<close>: at least \<open>w\<close> digits.\<close>

definition printf_0X :: "nat \<Rightarrow> nat \<Rightarrow> string" where
  "printf_0X w n = replicate (w - length (printf_X n)) CHR ''0'' @ printf_X n"

fun print_field :: "(string \<times> nat \<times> nat) list \<Rightarrow> u64 \<Rightarrow> row \<Rightarrow> string" where
  "print_field layout raw (label, f, Dec) = label @ printf_u (bits_get layout raw f) @ [CHR 0x0A]"
| "print_field layout raw (label, f, Hex) = label @ printf_X (bits_get layout raw f) @ [CHR 0x0A]"
| "print_field layout raw (label, f, Flag yes no) =
     label @ printf_u (bits_get layout raw f) @ '' ('' @
     (if bits_get layout raw f \<noteq> 0 then yes else no) @ '')'' @ [CHR 0x0A]"

definition sctlr_el1_32_rows :: "row list" where
  "sctlr_el1_32_rows =
     [(''MMU Enable [M]                [0]:  '', ''M'', Dec),
      (''Alignment Check [A]           [1]:  '', ''A'', Dec),
      (''Data Cache [C]                [2]:  '', ''C'', Dec),
      (''No Trap LDM/STM Device [nTLSMD][3]: '', ''nTLSMD'', Dec),
      (''LDM/STM Atomicity En [LSMAOE] [4]:  '', ''LSMAOE'', Dec),
      (''CP15 Barrier Enable [CP15BEN] [5]:  '', ''CP15BEN'', Dec),
      (''Unknown/Ignored [UNK]         [6]:  '', ''UNK'', Dec),
      (''IT Disable [ITD]              [7]:  '', ''ITD'', Dec),
      (''SETEND Disable [SED]          [8]:  '', ''SED'', Dec),
      (''Reserved [RES0_9]             [9]:  '', ''RES0_9'', Dec),
      (''Disable Predictor Flush [EnRCTX][10]: '', ''EnRCTX'', Dec),
      (''Reserved [RES1_11]            [11]: '', ''RES1_11'', Dec),
      (''Instr Cache [I]               [12]: '', ''I'', Dec),
      (''Vectors Bit [V]               [13]: '', ''V'', Flag ''High (0xFFFF0000)'' ''Low (0x00000000)''),
      (''Reserved [RES0_14]            [14]: '', ''RES0_14'', Dec),
      (''Reserved [RES0_15]            [15]: '', ''RES0_15'', Dec),
      (''Not Trap WFI [nTWI]           [16]: '', ''nTWI'', Dec),
      (''Reserved [RES0_17]            [17]: '', ''RES0_17'', Dec),
      (''Not Trap WFE [nTWE]           [18]: '', ''nTWE'', Dec),
      (''Write XN [WXN]                [19]: '', ''WXN'', Dec),
      (''Unprivileged WXN [UWXN]       [20]: '', ''UWXN'', Dec),
      (''Reserved [RES0_21]            [21]: '', ''RES0_21'', Dec),
      (''Reserved [RES1_22]            [22]: '', ''RES0_22'', Dec),
      (''Set Priv Access Never [SPAN]  [23]: '', ''SPAN'', Dec),
      (''Reserved [RES0_24]            [24]: '', ''RES0_24'', Dec),
      (''EL1 Endianness [EE]           [25]: '', ''EE'', Flag ''Big'' ''Little''),
      (''Reserved [RES0_26]            [26]: '', ''RES0_26'', Dec),
      (''Reserved [RES0_27]            [27]: '', ''RES0_27'', Dec),
      (''TEX Remap Enable [TRE]        [28]: '', ''TRE'', Dec),
      (''Access Flag Enable [AFE]      [29]: '', ''AFE'', Dec),
      (''T32 Exception Enable [TE]     [30]: '', ''TE'', Dec),
      (''Spec Store Bypass Safe [DSSBS][31]: '', ''DSSBS'', Dec)]"

definition sctlr_el1_64_rows :: "row list" where
  "sctlr_el1_64_rows =
     [(''MMU Enable [M]                [0]:  '', ''M'', Dec),
      (''Alignment Check [A]           [1]:  '', ''A'', Dec),
      (''Data Cache [C]                [2]:  '', ''C'', Dec),
      (''Stack Align EL1 [SA]          [3]:  '', ''SA'', Dec),
      (''Stack Align EL0 [SA0]         [4]:  '', ''SA0'', Dec),
      (''CP15 Barrier Enable [CP15BEN] [5]:  '', ''CP15BEN'', Dec),
      (''Non-aligned Access [nAA]      [6]:  '', ''nAA'', Dec),
      (''IT Disable [ITD]              [7]:  '', ''ITD'', Dec),
      (''SETEND Disable [SED]          [8]:  '', ''SED'', Dec),
      (''User Mask Access [UMA]        [9]:  '', ''UMA'', Dec),
      (''Enforce RCTX [EnRCTX]         [10]: '', ''EnRCTX'', Dec),
      (''Exception Exit Sync [EOS]     [11]: '', ''EOS'', Dec),
      (''Instr Cache [I]               [12]: '', ''I'', Dec),
      (''PAuth EnDB [EnDB]             [13]: '', ''EnDB'', Dec),
      (''DC ZVA at EL0 [DZE]           [14]: '', ''DZE'', Dec),
      (''CTR_EL0 Access [UCT]          [15]: '', ''UCT'', Dec),
      (''Not Trap WFI [nTWI]           [16]: '', ''nTWI'', Dec),
      (''Not Trap WFE [nTWE]           [18]: '', ''nTWE'', Dec),
      (''Write XN [WXN]                [19]: '', ''WXN'', Dec),
      (''Trap SCXTNUM [TSCXT]          [20]: '', ''TSCXT'', Dec),
      (''Implicit Error Sync [IESB]    [21]: '', ''IESB'', Dec),
      (''Exception Entry Sync [EIS]    [22]: '', ''EIS'', Dec),
      (''Set Priv Access Never [SPAN]  [23]: '', ''SPAN'', Dec),
      (''EL0 Endianness [E0E]          [24]: '', ''E0E'', Flag ''BE'' ''LE''),
      (''EL1 Endianness [EE]           [25]: '', ''EE'', Flag ''BE'' ''LE''),
      (''Trap EL0 Cache Ops [UCI]      [26]: '', ''UCI'', Dec),
      (''PAuth EnDA [EnDA]             [27]: '', ''EnDA'', Dec),
      (''No Trap LDM/STM Device [nTLSMD][28]: '', ''nTLSMD'', Dec),
      (''LDM/STM Atomicity En [LSMAOE] [29]: '', ''LSMAOE'', Dec),
      (''PAuth EnIB [EnIB]             [30]: '', ''EnIB'', Dec),
      (''PAuth EnIA [EnIA]             [31]: '', ''EnIA'', Dec),
      (''PAC Branch Type EL0 [BT0]     [35]: '', ''BT0'', Dec),
      (''PAC Branch Type EL1 [BT1]     [36]: '', ''BT1'', Dec),
      (''Instr Tag Flood Barrier [ITFSB][37]: '', ''ITFSB'', Dec),
      (''Tag Check Fault EL0 [TCF0]    [38:39]: 0x'', ''TCF0'', Hex),
      (''Tag Check Fault EL1 [TCF]     [40:41]: 0x'', ''TCF'', Hex),
      (''Alloc Tag Access EL0 [ATA0]   [42]: '', ''ATA0'', Dec),
      (''Alloc Tag Access EL1 [ATA]    [43]: '', ''ATA'', Dec),
      (''Spec Store Bypass Safe [DSSBS][44]: '', ''DSSBS'', Dec),
      (''TWE Delay Enable [TWEDEn]     [45]: '', ''TWEDEn'', Dec),
      (''TWE Delay Value [TWEDEL]      [46:49]: 0x'', ''TWEDEL'', Hex),
      (''Trap ST64BV EL0 [EnASR]       [54]: '', ''EnASR'', Dec),
      (''Trap ST64BV0 EL0 [EnAS0]      [55]: '', ''EnAS0'', Dec),
      (''Trap LD64B/ST64B EL0 [EnALS]  [56]: '', ''EnALS'', Dec),
      (''Enhanced PAN [EPAN]           [57]: '', ''EPAN'', Dec)]"

definition rule_line :: string where
  "rule_line = replicate 66 CHR ''-'' @ [CHR 0x0A]"

definition decode_sctlr_el1_32 :: "u64 \<Rightarrow> string" where
  "decode_sctlr_el1_32 val =
     (let raw = (ucast val :: u32)
      in ''SCTLR_EL1 (32-bit Mapping) Decode (0x'' @ printf_0X 8 (unat raw) @ ''):'' @ [CHR 0x0A] @
         rule_line @ concat (map (print_field sctlr_el1_32_layout (ucast raw)) sctlr_el1_32_rows) @
         rule_line)"

definition decode_sctlr_el1_64 :: "u64 \<Rightarrow> string" where
  "decode_sctlr_el1_64 val =
     ''SCTLR_EL1 Decode (0x'' @ printf_0X 16 (unat val) @ ''):'' @ [CHR 0x0A] @
     rule_line @ concat (map (print_field sctlr_el1_64_layout val) sctlr_el1_64_rows) @ rule_line"

end
