(* ===== verification/CStringProps.thy ===== *)
theory CStringProps
  imports CString ConsoleProps
begin

text \<open>
  The string functions against their specifications: copying and comparing blocks with the
  overlap each function allows, the search for a byte or for the end of a string, and the reader
  of numerals as the inverse of the writer in \<open>Console\<close>.
\<close>

section \<open>Blocks\<close>

text \<open>The block of \<open>num\<close> bytes at \<open>p\<close>, and the memory after copying a block as if at once.\<close>

definition copied :: "u64 \<Rightarrow> u64 \<Rightarrow> u64 \<Rightarrow> memory \<Rightarrow> memory" where
  "copied dest src num m = (\<lambda>x. if x - dest < num then m (src + (x - dest)) else m x)"

lemma word_less_step:
  fixes a n :: u64
  assumes "n \<noteq> 0"
  shows "a < n \<longleftrightarrow> a = 0 \<or> (a \<noteq> 0 \<and> a - 1 < n - 1)"
proof (cases "a = 0")
  case True
  then show ?thesis using assms by (simp add: word_gt_0)
next
  case False
  then have "unat (a - 1) = unat a - 1" and "unat (n - 1) = unat n - 1"
    and "0 < unat a" and "0 < unat n"
    using assms by (simp_all add: unat_minus_one unat_gt_0)
  with False show ?thesis by (auto simp: word_less_nat_alt)
qed

lemma word_less_last:
  fixes a n :: u64
  assumes "n \<noteq> 0"
  shows "a < n \<longleftrightarrow> a < n - 1 \<or> a = n - 1"
proof -
  have "unat (n - 1) = unat n - 1" and "0 < unat n"
    using assms by (simp_all add: unat_minus_one unat_gt_0)
  then show ?thesis by (auto simp: word_less_nat_alt word_unat_eq_iff)
qed

text \<open>A forward copy is the simultaneous copy when no byte is read after it was written.\<close>

lemma copy_forward_copied:
  assumes "\<And>i j. i < j \<Longrightarrow> j < num \<Longrightarrow> src + j \<noteq> dest + i"
  shows "copy_forward dest src num m = copied dest src num m"
  using assms
proof (induction dest src num m rule: copy_forward.induct)
  case (1 dest src num m)
  show ?case
  proof (cases "num = 0")
    case True
    then show ?thesis by (simp add: copy_forward.simps copied_def)
  next
    case False
    let ?m = "m(dest := m src)"
    have step: "i + 1 < j + 1 \<and> j + 1 < num" if "i < j" "j < num - 1" for i j
    proof -
      have "j < num" using word_less_last [OF False] that(2) by blast
      moreover have "j + 1 < num"
      proof -
        have "unat (j + 1) = unat j + 1" using unat_add1 [OF \<open>j < num\<close>] by simp
        moreover have "unat (num - 1) = unat num - 1" using False by (simp add: unat_minus_one)
        ultimately show ?thesis using that(2) by (simp add: word_less_nat_alt)
      qed
      moreover have "i + 1 < j + 1"
        using that(1) unat_add1 [OF that(1)] unat_add1 [OF \<open>j < num\<close>] by (simp add: word_less_nat_alt)
      ultimately show ?thesis by blast
    qed
    have disj: "src + 1 + j \<noteq> dest + 1 + i" if "i < j" "j < num - 1" for i j
      using "1.prems" [of "i + 1" "j + 1"] step [OF that] by (simp add: algebra_simps)
    have IH: "copy_forward (dest + 1) (src + 1) (num - 1) ?m = copied (dest + 1) (src + 1) (num - 1) ?m"
      by (rule "1.IH" [OF False]) (rule disj)
    have "copied (dest + 1) (src + 1) (num - 1) ?m x = copied dest src num m x" for x
    proof (cases "x = dest")
      case True
      have "\<not> (- 1 :: u64) < num - 1" by (simp add: not_less)
      then show ?thesis using True False by (simp add: copied_def word_gt_0)
    next
      case neq: False
      define a where "a = x - dest"
      have a: "a \<noteq> 0" "x = dest + a" using neq by (simp_all add: a_def)
      have less: "a < num \<longleftrightarrow> a - 1 < num - 1" using word_less_step [OF False, of a] a(1) by blast
      have "src + a \<noteq> dest" if "a < num"
        using "1.prems" [of 0 a] that a(1) by (simp add: word_gt_0)
      then show ?thesis using less a neq by (simp add: copied_def algebra_simps)
    qed
    then show ?thesis
      using False IH by (subst copy_forward.simps) (simp add: fun_eq_iff)
  qed
qed

text \<open>A backward copy likewise, with the order reversed.\<close>

lemma copy_backward_copied:
  assumes "\<And>i j. i < j \<Longrightarrow> j < num \<Longrightarrow> src + i \<noteq> dest + j"
  shows "copy_backward (dest + num) (src + num) num m = copied dest src num m"
  using assms
proof (induction "unat num" arbitrary: num m)
  case 0
  then have "num = 0" by (simp add: unat_eq_zero)
  then show ?case by (simp add: copy_backward.simps copied_def)
next
  case (Suc n)
  then have nz: "num \<noteq> 0" by auto
  let ?n = "num - 1"
  let ?m = "m(dest + ?n := m (src + ?n))"
  have last: "i < num" if "i < ?n" for i using word_less_last [OF nz] that by blast
  have un: "unat ?n = n" using Suc.hyps(2) nz by (simp add: unat_minus_one)
  have IH: "copy_backward (dest + ?n) (src + ?n) ?n ?m = copied dest src ?n ?m"
    by (rule Suc.hyps(1)) (use un Suc.prems last in auto)
  have nl: "?n < num" using word_less_last [OF nz] by blast
  have "copied dest src ?n ?m x = copied dest src num m x" for x
  proof (cases "x - dest = ?n")
    case True
    then have "x = dest + ?n" by (simp add: algebra_simps)
    then show ?thesis using nl by (simp add: copied_def)
  next
    case False
    define a where "a = x - dest"
    have a: "x = dest + a" "a \<noteq> ?n" using False by (simp_all add: a_def)
    have less: "a < num \<longleftrightarrow> a < ?n" using word_less_last [OF nz, of a] a(2) by blast
    have "src + a \<noteq> dest + ?n" if "a < ?n" using Suc.prems [OF that nl] .
    then show ?thesis using less a by (simp add: copied_def)
  qed
  then show ?case
    using nz IH by (subst copy_backward.simps) (simp add: fun_eq_iff algebra_simps)
qed

text \<open>A block that does not wrap around the address space.\<close>

definition block :: "u64 \<Rightarrow> u64 \<Rightarrow> bool" where
  "block p num \<longleftrightarrow> unat p + unat num \<le> 2 ^ 64"

lemma block_offset: "block p num \<Longrightarrow> i < num \<Longrightarrow> unat (p + i) = unat p + unat i"
  by (intro unat_add_no_wrap) (simp add: block_def word_less_nat_alt)

lemma memmove_copied:
  assumes "block dest num" and "block src num"
  shows "memmove dest src num m = (dest, copied dest src num m)"
proof -
  have neq: "unat src + unat j \<noteq> unat dest + unat i \<Longrightarrow> i < num \<Longrightarrow> j < num \<Longrightarrow> src + j \<noteq> dest + i"
    for i j
    using block_offset [OF assms(1), of i] block_offset [OF assms(2), of j] by auto
  consider "dest < src" | "dest > src" | "dest = src" by (meson linorder_less_linear)
  then show ?thesis
  proof cases
    case 1
    have "src + j \<noteq> dest + i" if "i < j" "j < num" for i j
      by (rule neq) (use 1 that less_trans [OF that] in \<open>auto simp: word_less_nat_alt\<close>)
    then show ?thesis using 1 by (simp add: memmove_def copy_forward_copied)
  next
    case 2
    have "src + i \<noteq> dest + j" if "i < j" "j < num" for i j
      by (rule neq) (use 2 that less_trans [OF that] in \<open>auto simp: word_less_nat_alt\<close>)
    then have "copy_backward (dest + num) (src + num) num m = copied dest src num m"
      by (rule copy_backward_copied)
    moreover have "\<not> dest < src" using 2 by simp
    ultimately show ?thesis using 2 by (simp add: memmove_def)
  next
    case 3
    then show ?thesis by (simp add: memmove_def copied_def fun_eq_iff)
  qed
qed

lemma memcpy_copied:
  assumes "\<And>i j. i < num \<Longrightarrow> j < num \<Longrightarrow> src + j \<noteq> dest + i"
  shows "memcpy dest src num m = (dest, copied dest src num m)"
  unfolding memcpy_def
  by (subst copy_forward_copied) (use assms less_trans in blast)+

lemma fill_filled: "fill p v num m = (\<lambda>x. if x - p < num then v else m x)"
proof (induction p v num m rule: fill.induct)
  case (1 p v num m)
  show ?case
  proof (cases "num = 0")
    case True
    then show ?thesis by (simp add: fill.simps)
  next
    case False
    have "(x - (p + 1) < num - 1 \<or> x = p) \<longleftrightarrow> x - p < num" for x
      using word_less_step [OF False, of "x - p"] by (auto simp: diff_diff_eq)
    then have "(if x - (p + 1) < num - 1 then v else (m(p := v)) x) = (if x - p < num then v else m x)"
      for x using False by (cases "x = p") (auto simp: word_gt_0)
    then show ?thesis
      using False by (subst fill.simps) (simp add: "1.IH" [OF False] del: fun_upd_apply)
  qed
qed

section \<open>Searching\<close>

text \<open>The reference: the least index below \<open>n\<close> with a property.\<close>

definition first_index :: "nat \<Rightarrow> (u64 \<Rightarrow> bool) \<Rightarrow> u64 option" where
  "first_index n P = map_option word_of_nat (find (\<lambda>i. P (word_of_nat i)) [0 ..< n])"

lemma first_index_0 [simp]: "first_index 0 P = None"
  by (simp add: first_index_def)

lemma first_index_Suc:
  "first_index (Suc n) P =
     (if P 0 then Some 0 else map_option (\<lambda>i. i + 1) (first_index n (\<lambda>i. P (i + 1))))"
proof -
  have "find Q (map Suc xs) = map_option Suc (find (\<lambda>i. Q (Suc i)) xs)" for Q xs
    by (induction xs) simp_all
  moreover have "[0 ..< Suc n] = 0 # map Suc [0 ..< n]" by (simp add: map_Suc_upt upt_conv_Cons)
  ultimately show ?thesis
    by (simp add: first_index_def option.map_comp comp_def add.commute)
qed

lemma unat_pred: "(num :: u64) \<noteq> 0 \<Longrightarrow> unat num = Suc (unat (num - 1))"
  by (simp add: unat_minus_one unat_gt_0 Suc_diff_1 del: One_nat_def)

lemma memcmp_first:
  "memcmp p q num m =
     (case first_index (unat num) (\<lambda>i. m (p + i) \<noteq> m (q + i)) of
        None \<Rightarrow> 0 | Some i \<Rightarrow> uint (m (p + i)) - uint (m (q + i)))"
proof (induction p q num m rule: memcmp.induct)
  case (1 p q num m)
  show ?case
  proof (cases "num = 0")
    case True
    then show ?thesis by (simp add: memcmp.simps)
  next
    case False
    then show ?thesis
      using "1.IH" [OF False]
      by (subst memcmp.simps)
        (auto simp: unat_pred first_index_Suc add.assoc add.commute [of 1] split: option.splits)
  qed
qed

lemma memchr_first:
  "memchr p c num m =
     (case first_index (unat num) (\<lambda>i. m (p + i) = ucast c) of None \<Rightarrow> 0 | Some i \<Rightarrow> p + i)"
proof (induction p c num m rule: memchr.induct)
  case (1 p c num m)
  show ?case
  proof (cases "num = 0")
    case True
    then show ?thesis by (simp add: memchr.simps)
  next
    case False
    then show ?thesis
      using "1.IH" [OF False]
      by (subst memchr.simps)
        (auto simp: unat_pred first_index_Suc add.assoc add.commute [of 1] split: option.splits)
  qed
qed

section \<open>Strings\<close>

text \<open>A NUL-terminated string in memory.\<close>

fun c_string :: "memory \<Rightarrow> u64 \<Rightarrow> u8 list \<Rightarrow> bool" where
  "c_string m p [] \<longleftrightarrow> m p = 0"
| "c_string m p (c # cs) \<longleftrightarrow> m p = c \<and> c \<noteq> 0 \<and> c_string m (p + 1) cs"

lemma strlen_loop_string:
  "c_string m (p + len) cs \<Longrightarrow> strlen_loop p len m = Some (len + word_of_nat (length cs))"
  by (induction cs arbitrary: len)
    (subst strlen_loop.simps, simp add: add.assoc add.commute [of 1])+

lemma strlen_string: "c_string m p cs \<Longrightarrow> strlen p m = Some (word_of_nat (length cs))"
  using strlen_loop_string [of m p 0 cs] by (simp add: strlen_def)

lemma strchr_string:
  "c_string m p cs \<Longrightarrow> strchr p c m =
     Some (case first_index (Suc (length cs)) (\<lambda>i. m (p + i) = ucast c) of
       None \<Rightarrow> 0 | Some i \<Rightarrow> p + i)"
proof (induction cs arbitrary: p)
  case Nil
  then show ?case by (subst strchr.simps) (simp add: first_index_Suc)
next
  case (Cons d cs)
  then show ?case
    by (subst strchr.simps, subst first_index_Suc)
      (auto simp: add.assoc add.commute [of 1] split: option.splits)
qed

text \<open>The last occurrence, of which the terminating NUL may be one.\<close>

fun last_at :: "u64 \<Rightarrow> u8 list \<Rightarrow> u8 \<Rightarrow> u64 \<Rightarrow> u64" where
  "last_at p [] c found = found"
| "last_at p (d # cs) c found = last_at (p + 1) cs c (if d = c then p else found)"

lemma strrchr_loop_string:
  "c_string m p cs \<Longrightarrow> strrchr_loop p c found m = Some (last_at p (cs @ [0]) (ucast c) found)"
proof (induction cs arbitrary: p found)
  case Nil
  then show ?case by (subst strrchr_loop.simps) (simp add: Let_def)
next
  case (Cons d cs)
  then show ?case by (subst strrchr_loop.simps) (simp add: Let_def)
qed

lemma strnlen_loop_string:
  "c_string m (p + len) cs \<Longrightarrow> unat len + length cs < 2 ^ 64 \<Longrightarrow> len \<le> maxlen \<Longrightarrow>
   unat (strnlen_loop p len maxlen m) = min (unat maxlen) (unat len + length cs)"
proof (induction cs arbitrary: len)
  case Nil
  then show ?case by (subst strnlen_loop.simps) (simp add: word_le_nat_alt)
next
  case (Cons d cs)
  show ?case
  proof (cases "len < maxlen")
    case True
    note u = unat_add1 [OF True]
    have "unat (strnlen_loop p (len + 1) maxlen m) = min (unat maxlen) (unat (len + 1) + length cs)"
      by (rule Cons.IH)
        (use Cons.prems u True in \<open>simp_all add: add.assoc word_le_nat_alt word_less_nat_alt\<close>)
    with True Cons.prems(1) show ?thesis
      by (subst strnlen_loop.simps) (simp add: u)
  next
    case False
    then have "len = maxlen" using Cons.prems(3) by simp
    then show ?thesis by (subst strnlen_loop.simps) simp
  qed
qed

section \<open>Numerals\<close>

text \<open>\<open>strtoul\<close> reads back what \<open>itoa\<close> writes.\<close>

abbreviation bytes :: "string \<Rightarrow> u8 list" where
  "bytes \<equiv> map of_char"

lemma digit_value_of: "d < 16 \<Longrightarrow> digit_value (of_char (digit_of d)) = Some (int d)"
proof -
  assume "d < 16"
  then have "d = 0 \<or> d = 1 \<or> d = 2 \<or> d = 3 \<or> d = 4 \<or> d = 5 \<or> d = 6 \<or> d = 7 \<or> d = 8 \<or> d = 9 \<or>
      d = 10 \<or> d = 11 \<or> d = 12 \<or> d = 13 \<or> d = 14 \<or> d = 15"
    by presburger
  then show ?thesis
    by (elim disjE; simp add: digit_value_def digit_of_def char_of_def bit_0 of_char_def)
qed

lemma strtoul_digit_value:
  assumes "digit_value (m p) = Some (int d)" and "int d < base"
  shows "strtoul_loop p base res m = strtoul_loop (p + 1) base (res * word_of_int base + word_of_nat d) m"
proof -
  have "m p \<noteq> 0" using assms(1) by (auto simp: digit_value_def)
  then show ?thesis
    using assms by (subst strtoul_loop.simps) simp
qed

lemma strtoul_digit:
  assumes "m p = of_char (digit_of d)" and "d < 16" and "int d < base"
  shows "strtoul_loop p base res m = strtoul_loop (p + 1) base (res * word_of_int base + word_of_nat d) m"
  using assms by (intro strtoul_digit_value) (simp_all add: digit_value_of)

lemma c_string_append:
  "c_string m p (xs @ ys) \<Longrightarrow> c_string m (p + word_of_nat (length xs)) ys"
proof (induction xs arbitrary: p)
  case (Cons x xs)
  then have "c_string m (p + 1 + word_of_nat (length xs)) ys" by simp
  then show ?case by (simp add: add.assoc)
qed simp

lemma strtoul_loop_numeral:
  "2 \<le> b \<Longrightarrow> b \<le> 16 \<Longrightarrow> c_string m p (bytes (numeral_in b n) @ ys) \<Longrightarrow>
    strtoul_loop p (int b) 0 m =
    strtoul_loop (p + word_of_nat (length (numeral_in b n))) (int b) (word_of_nat n) m"
proof (induction b n arbitrary: ys rule: numeral_in.induct)
  case (1 b n)
  note b = "1.prems"(1,2)
  show ?case
  proof (cases "n < b")
    case True
    with "1.prems" show ?thesis
      by (simp add: numeral_in.simps [of b n] strtoul_digit [of m p n "int b" 0])
  next
    case False
    let ?hd = "numeral_in b (n div b)" and ?d = "n mod b"
    let ?q = "p + word_of_nat (length ?hd) :: u64"
    have num: "numeral_in b n = ?hd @ [digit_of ?d]"
      using b False by (subst numeral_in.simps) simp
    have str: "c_string m p (bytes ?hd @ (of_char (digit_of ?d) # ys))"
      using "1.prems"(3) by (simp add: num)
    have "m ?q = of_char (digit_of ?d)"
      using c_string_append [OF str] by simp
    then have "strtoul_loop ?q (int b) (word_of_nat (n div b)) m =
        strtoul_loop (?q + 1) (int b) (word_of_nat (n div b) * word_of_int (int b) + word_of_nat ?d) m"
      using b by (intro strtoul_digit) (simp_all add: less_le_trans [of _ b])
    moreover have "word_of_nat (n div b) * word_of_int (int b) + word_of_nat ?d = (word_of_nat n :: u64)"
      by (simp flip: of_nat_mult of_nat_add)
    moreover have "strtoul_loop p (int b) 0 m = strtoul_loop ?q (int b) (word_of_nat (n div b)) m"
      using "1.IH" b False str by simp
    ultimately show ?thesis by (simp add: num add.assoc add.commute [of 1])
  qed
qed

lemma numeral_digits: "2 \<le> b \<Longrightarrow> c \<in> set (numeral_in b n) \<Longrightarrow> \<exists>d < b. c = digit_of d"
proof (induction b n rule: numeral_in.induct)
  case (1 b n)
  show ?case
  proof (cases "n < b")
    case True
    with "1.prems" show ?thesis by (auto simp: numeral_in.simps [of b n])
  next
    case False
    with "1.prems"(1) have "numeral_in b n = numeral_in b (n div b) @ [digit_of (n mod b)]"
      by (subst numeral_in.simps) simp
    then have "c = digit_of (n mod b) \<or> c \<in> set (numeral_in b (n div b))"
      using "1.prems"(2) by simp
    then show ?thesis
    proof
      assume "c = digit_of (n mod b)"
      then show ?thesis using "1.prems"(1) by (intro exI [of _ "n mod b"]) simp
    next
      assume "c \<in> set (numeral_in b (n div b))"
      then show ?thesis using "1.IH" "1.prems"(1) False by simp
    qed
  qed
qed

text \<open>A numeral never starts with the prefix \<open>0x\<close>.\<close>

lemma numeral_no_prefix:
  assumes "2 \<le> b" and "b \<le> 16" and str: "c_string m p (bytes (numeral_in b n))"
  shows "m (p + 1) \<noteq> 0x78 \<and> m (p + 1) \<noteq> 0x58"
proof -
  obtain c cs where num: "numeral_in b n = c # cs" by (cases "numeral_in b n") auto
  show ?thesis
  proof (cases cs)
    case Nil
    with str num show ?thesis by simp
  next
    case (Cons d ds)
    then obtain k where "k < b" and "d = digit_of k"
      using numeral_digits [OF assms(1), of d n] num by auto
    then have "digit_value (of_char d) = Some (int k)"
      using assms(2) by (simp add: digit_value_of)
    moreover have "m (p + 1) = of_char d" using str num Cons by simp
    ultimately show ?thesis by (auto simp: digit_value_def)
  qed
qed

lemma strtoul_numeral:
  assumes "2 \<le> b" and "b \<le> 16" and base: "base = int b \<or> base = 0 \<and> b = 10"
    and str: "c_string m p (bytes (numeral_in b n))"
  shows "strtoul p endptr base m =
    Some (word_of_nat n,
      if endptr \<noteq> 0 then store64 m endptr (p + word_of_nat (length (numeral_in b n))) else m)"
proof -
  let ?q = "p + word_of_nat (length (numeral_in b n)) :: u64"
  have "m ?q = 0"
    using c_string_append [of m p "bytes (numeral_in b n)" "[]"] str by simp
  then have "strtoul_loop ?q (int b) (word_of_nat n) m = Some (word_of_nat n, ?q)"
    by (subst strtoul_loop.simps) simp
  then have "strtoul_loop p (int b) 0 m = Some (word_of_nat n, ?q)"
    using strtoul_loop_numeral [OF assms(1,2), of m p n "[]"] str by simp
  moreover have "\<not> (m (p + 1) = 0x78 \<or> m (p + 1) = 0x58)"
    using numeral_no_prefix [OF assms(1,2) str] by simp
  ultimately show ?thesis
    using base assms(1) by (auto simp: strtoul_def)
qed

end
