(* ===== verification/PanicTheorems.thy ===== *)
theory PanicTheorems
  imports Panic CStringProps
begin

text \<open>
  What the diagnostics send: the exact text of a panic, whatever the state of the console, and
  the hexadecimal numeral as something \<open>strtoul\<close> reads back.
\<close>

section \<open>The numeral\<close>

text \<open>Sixteen digits, upper case, most significant first.\<close>

definition hex_digit :: "nat \<Rightarrow> char" where
  "hex_digit d = (if d < 10 then char_of (d + 0x30) else char_of (d - 10 + 0x41))"

definition hex16 :: "u64 \<Rightarrow> string" where
  "hex16 v = map (\<lambda>k. hex_digit (unat v div 16 ^ k mod 16)) (rev [0 ..< 16])"

text \<open>Sending text past the console, straight to the data register.\<close>

definition emit :: "string \<Rightarrow> kernel \<Rightarrow> kernel" where
  "emit cs s = s\<lparr>mmio_log := mmio_log s @ map (\<lambda>c. (0x09000000, of_char c)) cs\<rparr>"

lemma emit_Nil [simp]: "emit [] s = s"
  by (simp add: emit_def)

lemma emit_emit [simp]: "emit ds (emit cs s) = emit (cs @ ds) s"
  by (simp add: emit_def)

lemma print_uart0_emit: "CHR 0x00 \<notin> set cs \<Longrightarrow> print_uart0 cs s = emit cs s"
proof (induction cs arbitrary: s)
  case (Cons c cs)
  then have "c \<noteq> CHR 0x00" and "CHR 0x00 \<notin> set cs" by auto
  then have "print_uart0 (c # cs) s = emit cs (emit [c] s)"
    using Cons.IH by (simp add: emit_def [of "[c]"] uart0_dr_def)
  then show ?case by simp
qed simp

declare print_uart0.simps [simp del]

lemma print_hex_digit_emit:
  assumes "unat d = k" and "k < 16"
  shows "print_hex_digit d s = emit [hex_digit k] s"
proof -
  have d: "d = word_of_nat (unat d)" by simp
  have "unat d \<in> {0 ..< 16}" using assms by simp
  then have "unat d = 0 \<or> unat d = 1 \<or> unat d = 2 \<or> unat d = 3 \<or> unat d = 4 \<or> unat d = 5 \<or>
      unat d = 6 \<or> unat d = 7 \<or> unat d = 8 \<or> unat d = 9 \<or> unat d = 10 \<or> unat d = 11 \<or>
      unat d = 12 \<or> unat d = 13 \<or> unat d = 14 \<or> unat d = 15"
    by (simp only: atLeastLessThan_iff) presburger
  then show ?thesis
    unfolding assms(1) [symmetric]
    by (subst (1) d) (elim disjE; simp add: print_uart0.simps print_hex_digit_def hex_digit_def emit_def uart0_dr_def char_of_def bit_simps)
qed

lemma hex_nibble: "unat (ucast (drop_bit n (v :: u64) AND 0xF) :: u8) = unat v div 2 ^ n mod 16"
proof -
  have "drop_bit n v AND 0xF = take_bit 4 (drop_bit n v)"
    by (simp add: take_bit_eq_mask mask_eq_exp_minus_1)
  then have "unat (drop_bit n v AND 0xF) = unat v div 2 ^ n mod 16"
    using unat_lt_2_64 [of v]
    by (simp only: unsigned_take_bit_eq unsigned_drop_bit_eq) (simp add: take_bit_eq_mod drop_bit_eq_div)
  moreover have "unat v div 2 ^ n mod 16 < 16" by simp
  ultimately show ?thesis
    by (simp add: unsigned_ucast_eq take_bit_nat_eq_self)
qed

lemma print_hex_loop_emit:
  "print_hex_loop (4 * int n - 4) v s =
     emit (map (\<lambda>k. hex_digit (unat v div 16 ^ k mod 16)) (rev [0 ..< n])) s"
proof (induction n arbitrary: s)
  case 0
  show ?case by (subst print_hex_loop.simps) simp
next
  case (Suc n)
  have "(2 :: nat) ^ (4 * n) = 16 ^ n" by (simp add: power_mult)
  moreover have "nat (4 * int n) = 4 * n" by simp
  ultimately have "unat (ucast (drop_bit (nat (4 * int n)) v AND 0xF) :: u8) =
      unat v div 16 ^ n mod 16"
    by (simp only: hex_nibble)
  then have dig: "print_hex_digit (ucast (drop_bit (nat (4 * int n)) v AND 0xF)) s =
      emit [hex_digit (unat v div 16 ^ n mod 16)] s"
    by (rule print_hex_digit_emit) simp
  show ?case
    by (subst print_hex_loop.simps) (simp add: dig Suc.IH)
qed

lemma print_hex_emit: "print_hex v s = emit (''0x'' @ hex16 v) s"
  using print_hex_loop_emit [of 16] by (simp add: print_hex_def print_uart0_emit hex16_def)

section \<open>The panic report\<close>

lemma error_to_string_printable: "CHR 0x00 \<notin> set (error_to_string code)"
  by (simp add: error_to_string_def STRING_MAP_def)

lemma panic_print_c_emit:
  "panic_print_c code s =
     emit (crlf @ ''!!! KERNEL PANIC !!!'' @ crlf @ ''Error Code:    0x'' @ hex16 code @
       crlf @ ''Error Message: '' @ error_to_string code @ crlf @ ''Halting system.'' @ crlf) s"
  using error_to_string_printable [of code]
  by (simp add: panic_print_c_def print_uart0_emit print_hex_emit)

text \<open>
  C33: A panic always gets its report out: whatever the console, the allocator or the device
  structures hold, \<open>panic_print_c\<close> returns after sending exactly the banner, the code as sixteen
  hexadecimal digits, the message of the code and the halting notice to the UART, and changes
  nothing else.
\<close>

theorem panic_report:
  "panic_print_c code s =
     emit (crlf @ ''!!! KERNEL PANIC !!!'' @ crlf @ ''Error Code:    0x'' @ hex16 code @
       crlf @ ''Error Message: '' @ error_to_string code @ crlf @ ''Halting system.'' @ crlf) s"
  by (rule panic_print_c_emit)

section \<open>Reading the numeral back\<close>

lemma digit_value_hex: "d < 16 \<Longrightarrow> digit_value (of_char (hex_digit d)) = Some (int d)"
proof -
  assume "d < 16"
  then have "d = 0 \<or> d = 1 \<or> d = 2 \<or> d = 3 \<or> d = 4 \<or> d = 5 \<or> d = 6 \<or> d = 7 \<or> d = 8 \<or> d = 9 \<or>
      d = 10 \<or> d = 11 \<or> d = 12 \<or> d = 13 \<or> d = 14 \<or> d = 15"
    by presburger
  then show ?thesis
    by (elim disjE; simp add: digit_value_def hex_digit_def char_of_def bit_simps of_char_def)
qed

lemma strtoul_loop_hex:
  "c_string m p (bytes (map (\<lambda>k. hex_digit (v div 16 ^ k mod 16)) (rev [0 ..< n])) @ ys) \<Longrightarrow>
   strtoul_loop p 16 r m =
   strtoul_loop (p + word_of_nat n) 16 (r * 16 ^ n + word_of_nat (v mod 16 ^ n)) m"
proof (induction n arbitrary: p r)
  case (Suc n)
  let ?d = "v div 16 ^ n mod 16"
  have "strtoul_loop p 16 r m = strtoul_loop (p + 1) 16 (r * 16 + word_of_nat ?d) m"
    using strtoul_digit_value [of m p ?d 16 r] Suc.prems by (simp add: digit_value_hex)
  also have "\<dots> = strtoul_loop (p + 1 + word_of_nat n) 16
      ((r * 16 + word_of_nat ?d) * 16 ^ n + word_of_nat (v mod 16 ^ n)) m"
    by (rule Suc.IH) (use Suc.prems in simp)
  also have "(r * 16 + word_of_nat ?d) * 16 ^ n + word_of_nat (v mod 16 ^ n) =
      r * 16 ^ Suc n + (word_of_nat (16 ^ n * ?d + v mod 16 ^ n) :: u64)"
    by (simp add: algebra_simps)
  also have "16 ^ n * ?d + v mod 16 ^ n = v mod 16 ^ Suc n"
    using mod_mult2_eq [of v "16 ^ n" 16] by (simp add: mult.commute)
  finally show ?case by (simp add: add.assoc)
qed simp

text \<open>
  The number a panic prints can be read back: \<open>strtoul\<close> on the text of \<open>print_hex\<close>, with base
  16 or automatic detection, gives the printed value and stops at the terminating NUL.
\<close>

theorem strtoul_reads_print_hex:
  assumes "c_string m p (bytes (''0x'' @ hex16 v))" and "base = 0 \<or> base = 16"
  shows "print_hex v s = emit (''0x'' @ hex16 v) s \<and> strtoul p 0 base m = Some (v, m)"
proof -
  let ?q = "p + 2 + word_of_nat 16 :: u64"
  have str: "m p = 0x30" "m (p + 1) = 0x78" "c_string m (p + 2) (bytes (hex16 v))"
    using assms(1) by (simp_all add: of_char_def add.assoc)
  have "unat v < 16 ^ 16" using unat_lt_2_64 [of v] by simp
  then have "strtoul_loop (p + 2) 16 0 m = strtoul_loop ?q 16 v m"
    using strtoul_loop_hex [of m "p + 2" "unat v" 16 "[]" 0] str(3)
    by (simp only: hex16_def append_Nil2 mult_zero_left add_0 mod_less) simp
  moreover have "m ?q = 0"
    using c_string_append [of m "p + 2" "bytes (hex16 v)" "[]"] str(3) by (simp add: hex16_def)
  then have "strtoul_loop ?q 16 v m = Some (v, ?q)"
    by (subst strtoul_loop.simps) simp
  ultimately have "strtoul_loop (p + 2) 16 0 m = Some (v, ?q)" by simp
  then show ?thesis
    using assms(2) str(1,2) print_hex_emit by (simp add: strtoul_def)
qed

text \<open>A memory that holds one string.\<close>

fun string_at :: "u64 \<Rightarrow> string \<Rightarrow> memory" where
  "string_at p [] = (\<lambda>_. 0)"
| "string_at p (c # cs) = (string_at (p + 1) cs)(p := of_char c)"

theorem strtoul_reads_print_hex_witness:
  "strtoul 0x100 0 0 (string_at 0x100 ''0x000000000000BEEF'') =
    Some (0xBEEF, string_at 0x100 ''0x000000000000BEEF'')"
proof -
  have hex: "''0x'' @ hex16 0xBEEF = ''0x000000000000BEEF''"
    by (simp add: hex16_def hex_digit_def upt_rec char_of_def bit_0)
  have "c_string (string_at 0x100 ''0x000000000000BEEF'') 0x100 (bytes (''0x'' @ hex16 0xBEEF))"
    unfolding hex by (simp add: of_char_def)
  from strtoul_reads_print_hex [OF this, of 0] show ?thesis by blast
qed

end
