(* ===== verification/Vectors.thy ===== *)
theory Vectors
  imports Platform
begin

text \<open>
  The exception vectors, \<^verbatim>\<open>src/kernel/exception_handling/vector.s\<close>: the table of branches, the
  stub that saves the general-purpose registers on the stack around the call of the C handler, and
  what of the processor they use. The stack lies in the memory of the kernel.
\<close>

section \<open>The processor\<close>

text \<open>
  The registers \<open>x0\<close> to \<open>x30\<close>, the selected stack pointer, the program counter, the processor
  state, and the registers exception entry and return use.
\<close>

record cpu =
  gpr :: "nat \<Rightarrow> u64"
  stack_ptr :: u64
  pc :: u64
  pstate :: u64
  elr_el1 :: u64
  spsr_el1 :: u64

datatype instr =
    Sub_sp u64
  | Add_sp u64
  | Stp nat nat u64
  | Str nat u64
  | Ldp nat nat u64
  | Ldr nat u64
  | Eret

fun exec_instr :: "instr \<Rightarrow> cpu \<times> memory \<Rightarrow> cpu \<times> memory" where
  "exec_instr (Sub_sp n) (c, m) = (c\<lparr>stack_ptr := stack_ptr c - n\<rparr>, m)"
| "exec_instr (Add_sp n) (c, m) = (c\<lparr>stack_ptr := stack_ptr c + n\<rparr>, m)"
| "exec_instr (Stp a b off) (c, m) =
     (c, store64 (store64 m (stack_ptr c + off) (gpr c a)) (stack_ptr c + off + 8) (gpr c b))"
| "exec_instr (Str a off) (c, m) = (c, store64 m (stack_ptr c + off) (gpr c a))"
| "exec_instr (Ldp a b off) (c, m) =
     (c\<lparr>gpr := (gpr c)(a := load64 m (stack_ptr c + off), b := load64 m (stack_ptr c + off + 8))\<rparr>, m)"
| "exec_instr (Ldr a off) (c, m) = (c\<lparr>gpr := (gpr c)(a := load64 m (stack_ptr c + off))\<rparr>, m)"
| "exec_instr Eret (c, m) = (c\<lparr>pc := elr_el1 c, pstate := spsr_el1 c\<rparr>, m)"

definition exec_code :: "instr list \<Rightarrow> cpu \<times> memory \<Rightarrow> cpu \<times> memory" where
  "exec_code is cm = fold exec_instr is cm"

section \<open>The macros\<close>

definition SAVE_REGS :: "instr list" where
  "SAVE_REGS =
     [Sub_sp 256,
      Stp 0 1 0, Stp 2 3 16, Stp 4 5 32, Stp 6 7 48, Stp 8 9 64, Stp 10 11 80, Stp 12 13 96,
      Stp 14 15 112, Stp 16 17 128, Stp 18 19 144, Stp 20 21 160, Stp 22 23 176, Stp 24 25 192,
      Stp 26 27 208, Stp 28 29 224, Str 30 240]"

definition RESTORE_REGS :: "instr list" where
  "RESTORE_REGS =
     [Ldr 30 240, Ldp 28 29 224, Ldp 26 27 208, Ldp 24 25 192, Ldp 22 23 176, Ldp 20 21 160,
      Ldp 18 19 144, Ldp 16 17 128, Ldp 14 15 112, Ldp 12 13 96, Ldp 10 11 80, Ldp 8 9 64,
      Ldp 6 7 48, Ldp 4 5 32, Ldp 2 3 16, Ldp 0 1 0,
      Add_sp 256, Eret]"

section \<open>The table\<close>

datatype vector_group = Curr_el_sp0 | Curr_el_curr_sp | Lower_el_64 | Lower_el_32

datatype exception_kind = Sync | Irq | Fiq | Serror

text \<open>Both types are finite, and so are the sixteen vectors: the evaluator decides what holds of all.\<close>

lemma UNIV_vector_group: "UNIV = {Curr_el_sp0, Curr_el_curr_sp, Lower_el_64, Lower_el_32}"
  using vector_group.exhaust by auto

instantiation vector_group :: enum
begin

definition enum_vector_group :: "vector_group list" where
  "enum_vector_group = [Curr_el_sp0, Curr_el_curr_sp, Lower_el_64, Lower_el_32]"

definition enum_all_vector_group :: "(vector_group \<Rightarrow> bool) \<Rightarrow> bool" where
  "enum_all_vector_group P = list_all P [Curr_el_sp0, Curr_el_curr_sp, Lower_el_64, Lower_el_32]"

definition enum_ex_vector_group :: "(vector_group \<Rightarrow> bool) \<Rightarrow> bool" where
  "enum_ex_vector_group P = list_ex P [Curr_el_sp0, Curr_el_curr_sp, Lower_el_64, Lower_el_32]"

instance
  by standard (simp_all add: UNIV_vector_group enum_vector_group_def enum_all_vector_group_def enum_ex_vector_group_def)

end

lemma UNIV_exception_kind: "UNIV = {Sync, Irq, Fiq, Serror}"
  using exception_kind.exhaust by auto

instantiation exception_kind :: enum
begin

definition enum_exception_kind :: "exception_kind list" where
  "enum_exception_kind = [Sync, Irq, Fiq, Serror]"

definition enum_all_exception_kind :: "(exception_kind \<Rightarrow> bool) \<Rightarrow> bool" where
  "enum_all_exception_kind P = list_all P [Sync, Irq, Fiq, Serror]"

definition enum_ex_exception_kind :: "(exception_kind \<Rightarrow> bool) \<Rightarrow> bool" where
  "enum_ex_exception_kind P = list_ex P [Sync, Irq, Fiq, Serror]"

instance
  by standard (simp_all add: UNIV_exception_kind enum_exception_kind_def enum_all_exception_kind_def enum_ex_exception_kind_def)

end

type_synonym vector = "vector_group \<times> exception_kind"

text \<open>The branch at each offset, and the labels at the stub, in the order of the file.\<close>

definition vector_branches :: "(u64 \<times> vector) list" where
  "vector_branches =
     [(0x000, Curr_el_sp0, Sync), (0x080, Curr_el_sp0, Irq),
      (0x100, Curr_el_sp0, Fiq), (0x180, Curr_el_sp0, Serror),
      (0x200, Curr_el_curr_sp, Sync), (0x280, Curr_el_curr_sp, Irq),
      (0x300, Curr_el_curr_sp, Fiq), (0x380, Curr_el_curr_sp, Serror),
      (0x400, Lower_el_64, Sync), (0x480, Lower_el_64, Irq),
      (0x500, Lower_el_64, Fiq), (0x580, Lower_el_64, Serror),
      (0x600, Lower_el_32, Sync), (0x680, Lower_el_32, Irq),
      (0x700, Lower_el_32, Fiq), (0x780, Lower_el_32, Serror)]"

definition stub_labels :: "vector list" where
  "stub_labels =
     [(Curr_el_sp0, Sync), (Curr_el_sp0, Irq), (Curr_el_sp0, Fiq), (Curr_el_sp0, Serror),
      (Curr_el_curr_sp, Sync), (Curr_el_curr_sp, Irq), (Curr_el_curr_sp, Serror),
      (Curr_el_curr_sp, Fiq),
      (Lower_el_64, Sync), (Lower_el_64, Irq), (Lower_el_64, Fiq), (Lower_el_64, Serror),
      (Lower_el_32, Sync), (Lower_el_32, Irq), (Lower_el_32, Fiq), (Lower_el_32, Serror)]"

section \<open>Taking an exception\<close>

text \<open>
  The stub: save, call, restore. \<open>ret\<close> is the address after the call, \<open>el\<close> and \<open>sp_sel\<close> the
  system registers the handler reads, and \<open>frames\<close> is what the compiled handler and the functions it
  calls leave below the stack pointer. Both outcomes of C code in this kernel end the run, so the
  restoring half is not reached.
\<close>

definition exception_stub ::
  "stack_use \<Rightarrow> u64 \<Rightarrow> u64 \<Rightarrow> u64 \<Rightarrow> cpu \<Rightarrow> kernel \<Rightarrow> outcome \<times> cpu \<times> kernel" where
  "exception_stub frames ret el sp_sel c s =
     (let (c, m) = exec_code SAVE_REGS (c, mem s);
          c = c\<lparr>gpr := (gpr c)(30 := ret)\<rparr>;
          s = s\<lparr>mem := frames (stack_ptr c) m\<rparr>;
          (end, s) = generic_handler el sp_sel s
      in (end, c, s))"

text \<open>
  Exception entry as the architecture defines it: the return state is kept in the two system
  registers and control goes to the vector of the group and kind. No branch there, or a branch to
  a label that is not at the stub, is \<open>None\<close>.
\<close>

fun group_no :: "vector_group \<Rightarrow> u64" where
  "group_no Curr_el_sp0 = 0"
| "group_no Curr_el_curr_sp = 1"
| "group_no Lower_el_64 = 2"
| "group_no Lower_el_32 = 3"

fun kind_no :: "exception_kind \<Rightarrow> u64" where
  "kind_no Sync = 0"
| "kind_no Irq = 1"
| "kind_no Fiq = 2"
| "kind_no Serror = 3"

definition vector_offset :: "vector \<Rightarrow> u64" where
  "vector_offset v = 0x200 * group_no (fst v) + 0x80 * kind_no (snd v)"

definition take_exception ::
  "stack_use \<Rightarrow> vector \<Rightarrow> u64 \<Rightarrow> u64 \<Rightarrow> u64 \<Rightarrow> u64 \<Rightarrow> cpu \<Rightarrow> kernel \<Rightarrow>
   (outcome \<times> cpu \<times> kernel) option" where
  "take_exception frames v vbar ret el sp_sel c s =
     (let c = c\<lparr>elr_el1 := pc c, spsr_el1 := pstate c, pc := vbar + vector_offset v\<rparr>
      in case map_of vector_branches (pc c - vbar) of
           None \<Rightarrow> None
         | Some label \<Rightarrow>
             if label \<in> set stub_labels then Some (exception_stub frames ret el sp_sel c s) else None)"

section \<open>Saving and restoring\<close>

lemma register_list: "[0 ..< 31] = [0, 1, 2, 3, 4, 5, 6, 7, 8, 9, 10, 11, 12, 13, 14, 15, 16, 17, 18,
    19, 20, 21, 22, 23, 24, 25, 26, 27, 28, 29, 30]"
  by code_simp

lemma save_regs_eq:
  "exec_code SAVE_REGS (c, m) =
     (c\<lparr>stack_ptr := stack_ptr c - 256\<rparr>, put_words (stack_ptr c - 256) (gpr c) 31 m)"
proof -
  define b where "b = stack_ptr c - 256"
  show ?thesis
    unfolding b_def [symmetric] put_words_def register_list
    by (simp add: exec_code_def SAVE_REGS_def b_def [symmetric] add.assoc)
qed

lemma restore_regs_eq:
  "exec_code RESTORE_REGS (c, m) =
     (c\<lparr>gpr := \<lambda>r. if r < 31 then load64 m (stack_ptr c + 8 * word_of_nat r) else gpr c r,
        stack_ptr := stack_ptr c + 256, pc := elr_el1 c, pstate := spsr_el1 c\<rparr>, m)"
proof -
  let ?g = "gpr (fst (exec_code RESTORE_REGS (c, m)))"
  have "list_all (\<lambda>r. ?g r = load64 m (stack_ptr c + 8 * word_of_nat r)) [0 ..< 31]"
    unfolding register_list
    by (simp add: exec_code_def RESTORE_REGS_def add.commute [of "stack_ptr c"])
  moreover have "?g r = gpr c r" if "\<not> r < 31" for r
    using that by (simp add: exec_code_def RESTORE_REGS_def)
  ultimately have "?g = (\<lambda>r. if r < 31 then load64 m (stack_ptr c + 8 * word_of_nat r) else gpr c r)"
    by (auto simp: fun_eq_iff list_all_iff)
  moreover have "exec_code RESTORE_REGS (c, m) = (c\<lparr>gpr := ?g, stack_ptr := stack_ptr c + 256,
      pc := elr_el1 c, pstate := spsr_el1 c\<rparr>, m)"
    by (simp add: exec_code_def RESTORE_REGS_def)
  ultimately show ?thesis by simp
qed

text \<open>
  C19: \<open>RESTORE_REGS\<close> undoes \<open>SAVE_REGS\<close>: if the code between them keeps the stack pointer and the 248
  bytes of the frame, then whatever it does to the registers and to other memory, all 31 registers
  and the stack pointer have their old values again, control is back where the exception was
  taken, and saving has written nowhere but in the frame.
\<close>

theorem exception_frame_roundtrip:
  assumes "exec_code SAVE_REGS (c, m) = (c1, m1)" and "stack_ptr c2 = stack_ptr c1"
    and "\<forall>i < 248. m2 (stack_ptr c1 + word_of_nat i) = m1 (stack_ptr c1 + word_of_nat i)"
    and "exec_code RESTORE_REGS (c2, m2) = (c3, m3)"
  shows "(\<forall>r < 31. gpr c3 r = gpr c r) \<and> stack_ptr c3 = stack_ptr c \<and>
    pc c3 = elr_el1 c2 \<and> pstate c3 = spsr_el1 c2 \<and> m3 = m2 \<and>
    (\<forall>x. 248 \<le> unat (x - stack_ptr c1) \<longrightarrow> m1 x = m x)"
proof -
  define b where "b = stack_ptr c - 256"
  have c1: "stack_ptr c1 = b" and m1: "m1 = put_words b (gpr c) 31 m"
    using assms(1) by (auto simp: save_regs_eq b_def)
  have "load64 m2 (b + 8 * word_of_nat r) = gpr c r" if r: "r < 31" for r
  proof -
    have "m2 (b + 8 * word_of_nat r + k) = m1 (b + 8 * word_of_nat r + k)" if k: "k < 8" for k
    proof -
      have "8 * r + unat k < 248" using r k by (simp add: word_less_nat_alt)
      then have "m2 (b + word_of_nat (8 * r + unat k)) = m1 (b + word_of_nat (8 * r + unat k))"
        using assms(3) unfolding c1 by blast
      then show ?thesis by (simp add: add.assoc)
    qed
    then have "load64 m2 (b + 8 * word_of_nat r) = load64 m1 (b + 8 * word_of_nat r)"
      by (rule load64_cong)
    then show ?thesis using r by (simp add: m1 load_put_words)
  qed
  then have "\<forall>r < 31. gpr c3 r = gpr c r"
    using assms(2,4) by (auto simp: restore_regs_eq c1)
  moreover have "stack_ptr c3 = stack_ptr c" "pc c3 = elr_el1 c2" "pstate c3 = spsr_el1 c2" "m3 = m2"
    using assms(2,4) by (auto simp: restore_regs_eq c1 b_def)
  moreover have "m1 x = m x" if "248 \<le> unat (x - stack_ptr c1)" for x
    using that by (simp add: m1 c1 put_words_outside)
  ultimately show ?thesis by blast
qed

text \<open>A processor in the middle of a computation, and a handler that leaves rubbish behind.\<close>

definition demo_cpu :: cpu where
  "demo_cpu = \<lparr>gpr = \<lambda>r. 0x100 + word_of_nat r, stack_ptr = 0x40012000, pc = 0x40000400,
     pstate = 0x3C5, elr_el1 = 0, spsr_el1 = 0\<rparr>"

definition demo_rubbish :: "cpu \<Rightarrow> cpu" where
  "demo_rubbish c = c\<lparr>gpr := \<lambda>_. 0, elr_el1 := 0x40000400\<rparr>"

theorem exception_frame_roundtrip_witness:
  "gpr (fst (exec_code RESTORE_REGS (demo_rubbish (fst (exec_code SAVE_REGS (demo_cpu, \<lambda>_. 7))),
     snd (exec_code SAVE_REGS (demo_cpu, \<lambda>_. 7))))) 29 = 0x11D"
proof -
  let ?s = "exec_code SAVE_REGS (demo_cpu, \<lambda>_. 7)"
  let ?r = "exec_code RESTORE_REGS (demo_rubbish (fst ?s), snd ?s)"
  have "\<forall>r < 31. gpr (fst ?r) r = gpr demo_cpu r"
    using exception_frame_roundtrip [of demo_cpu "\<lambda>_. 7" "fst ?s" "snd ?s" "demo_rubbish (fst ?s)"
        "snd ?s" "fst ?r" "snd ?r"]
    by (simp add: demo_rubbish_def)
  then show ?thesis by (simp add: demo_cpu_def)
qed

section \<open>Every exception ends in the report\<close>

lemma vectors_wired:
  "\<forall>v. \<exists>label. map_of vector_branches (vector_offset v) = Some label \<and> label \<in> set stub_labels \<and> label = v"
  by code_simp

lemma vector_reaches_stub:
  "\<exists>label. map_of vector_branches (vector_offset v) = Some label \<and> label \<in> set stub_labels \<and> label = v"
  by (rule vectors_wired [THEN spec])

text \<open>The text of the report, for the level in bits 3 and 2 of \<^verbatim>\<open>CurrentEL\<close>.\<close>

definition exception_text :: "u64 \<Rightarrow> u64 \<Rightarrow> string" where
  "exception_text el sp_sel =
     (let level = digit_of (unat el div 4 mod 4); eol = [CHR 0x0D, CHR 0x0A]
      in ''Generic Handler invoked'' @ eol @ ''Current EL = '' @ [level] @ eol @
         ''Used stack is = EL'' @ [if sp_sel = 0 then digit_of 0 else level] @ eol)"

text \<open>
  C20: Each of the sixteen exceptions reaches the stub through its own vector, and the machine then
  stays in the handler: with the console set up the report is sent, the interrupted program
  counter and state are in the return registers, and the 31 registers are in the frame below the
  stack pointer. The compiled handler has its own frames below that one; if they take at most \<open>n\<close>
  bytes, they leave the saved registers alone, and no byte of memory outside the \<open>256 + n\<close> bytes
  below the interrupted stack pointer has changed.
\<close>

theorem exception_reported:
  assumes "console_up s" and "frames_within n frames" and "n + 256 \<le> 2 ^ 64"
  shows "\<exists>c' s'. take_exception frames v vbar ret el sp_sel c s = Some (Hangs, c', s') \<and>
    elr_el1 c' = pc c \<and> spsr_el1 c' = pstate c \<and> stack_ptr c' = stack_ptr c - 256 \<and>
    (\<forall>r < 31. load64 (mem s') (stack_ptr c - 256 + 8 * word_of_nat r) = gpr c r) \<and>
    (\<forall>x. 256 + n \<le> unat (stack_ptr c - 1 - x) \<longrightarrow> mem s' x = mem s x) \<and>
    s' = send (exception_text el sp_sel) (s\<lparr>mem := mem s'\<rparr>)"
proof -
  let ?b = "stack_ptr c - 256"
  let ?m = "put_words ?b (gpr c) 31 (mem s)"
  let ?m' = "frames ?b ?m"
  obtain label where l: "map_of vector_branches (vector_offset v) = Some label" "label \<in> set stub_labels"
    using vector_reaches_stub by blast
  have up: "console_up (s\<lparr>mem := m\<rparr>)" for m using assms(1) by (simp add: console_up_def)
  let ?s = "send (exception_text el sp_sel) (s\<lparr>mem := ?m'\<rparr>)"
  have m: "mem ?s = ?m'" by (simp add: send_def)
  obtain c' where c': "take_exception frames v vbar ret el sp_sel c s = Some (Hangs, c', ?s)"
      "elr_el1 c' = pc c" "spsr_el1 c' = pstate c" "stack_ptr c' = ?b"
    using l by (simp add: take_exception_def exception_stub_def save_regs_eq Let_def
        generic_handler_report [OF up] exception_text_def)
  show ?thesis
  proof (intro exI [of _ c'] exI [of _ ?s] conjI c' allI impI)
    fix r :: nat
    assume r: "r < 31"
    have "?m' (?b + 8 * word_of_nat r + k) = ?m (?b + 8 * word_of_nat r + k)" if "k < 8" for k
    proof (rule frames_within_below [OF assms(2)])
      have k: "unat k < 8" using that by (simp add: word_less_nat_alt)
      have "?b + 8 * word_of_nat r + k - ?b = word_of_nat (8 * r + unat k)" by simp
      then have "unat (?b + 8 * word_of_nat r + k - ?b) = 8 * r + unat k"
        using r k by (simp only:) (simp only: unsigned_of_nat take_bit_nat_eq_self_iff, simp add: take_bit_nat_eq_self)
      then show "unat (?b + 8 * word_of_nat r + k - ?b) + n < 2 ^ 64"
        using r k assms(3) by simp
    qed
    then have "load64 ?m' (?b + 8 * word_of_nat r) = load64 ?m (?b + 8 * word_of_nat r)"
      by (rule load64_cong)
    then show "load64 (mem ?s) (?b + 8 * word_of_nat r) = gpr c r" using r by (simp add: m load_put_words)
  next
    fix x
    assume x: "256 + n \<le> unat (stack_ptr c - 1 - x)"
    show "mem ?s x = mem s x"
      using frames_below [OF assms(2), of 256 "stack_ptr c" x] x by (simp add: m put_words_outside)
  next
    show "?s = send (exception_text el sp_sel) (s\<lparr>mem := mem ?s\<rparr>)" by (simp only: m)
  qed
qed

theorem exception_reported_witness:
  "\<exists>c' s'. take_exception demo_frames (Lower_el_64, Irq) 0x40000800 0x40000900 4 1 demo_cpu
     console_kernel = Some (Hangs, c', s') \<and> elr_el1 c' = 0x40000400 \<and> length (mmio_log s') = 62 \<and>
     load64 (mem s') 0x40011F08 = 0x101"
proof -
  have fits: "(16 :: nat) + 256 \<le> 2 ^ 64" by simp
  obtain c' s' where r: "take_exception demo_frames (Lower_el_64, Irq) 0x40000800 0x40000900 4 1 demo_cpu
      console_kernel = Some (Hangs, c', s')" "elr_el1 c' = pc demo_cpu"
    "\<forall>r < 31. load64 (mem s') (stack_ptr demo_cpu - 256 + 8 * word_of_nat r) = gpr demo_cpu r"
    "s' = send (exception_text 4 1) (console_kernel\<lparr>mem := mem s'\<rparr>)"
    using exception_reported [OF console_kernel_up demo_frames_within fits, of "(Lower_el_64, Irq)"
        "0x40000800" "0x40000900" 4 1 demo_cpu]
    by (elim exE conjE) (rule that)
  have "mmio_log console_kernel = []" by (simp add: console_kernel_def)
  then have "length (mmio_log s') = 62"
    using arg_cong [OF r(4), of "\<lambda>s. length (mmio_log s)"]
    by (simp add: send_def exception_text_def Let_def)
  moreover have "load64 (mem s') 0x40011F08 = 0x101"
    using spec [OF r(3), of 1] by (simp add: demo_cpu_def)
  ultimately show ?thesis using r(1,2) by (simp add: demo_cpu_def)
qed

end
