(* ===== verification/StartupTheorems.thy ===== *)
theory StartupTheorems
  imports Startup BootTheorems RegisterDecoder PanicTheorems Vectors
begin

text \<open>
  The start-up code: what it makes of the system control register, read with the layout of the
  register decoder, and how the arguments of the boot loader reach \<open>main\<close>.
\<close>

section \<open>The system control register\<close>

lemma bit_bic: "bit (bic x n) k \<longleftrightarrow> bit x k \<and> k \<noteq> n"
  using bit_imp_le_length [of x k] by (auto simp: bic_def bit_simps)

lemma bit_orr: "bit (orr x n) k \<longleftrightarrow> bit x k \<or> k = n \<and> n < 64"
  by (auto simp: orr_def bit_simps)

lemmas sctlr_bits =
  SCTLR_EL1_64_MMU_def SCTLR_EL1_64_ALIGN_CHECK_def SCTLR_EL1_64_D_CACHE_def
  SCTLR_EL1_64_I_CACHE_def SCTLR_EL1_64_EOE_def SCTLR_EL1_64_EE_def

lemma bit_setup_sctlr:
  "bit (setup_sctlr_el1 v) n \<longleftrightarrow> n = 1 \<or> n = 12 \<or> n \<notin> {0, 2, 24, 25} \<and> bit v n"
  by (auto simp: setup_sctlr_el1_def bit_bic bit_orr sctlr_bits)

text \<open>The whole function as one mask and one set of bits.\<close>

lemma setup_sctlr_eq: "setup_sctlr_el1 v = (v AND NOT 0x3001007) OR 0x1002"
proof (rule bit_word_eqI)
  fix n
  assume "n < LENGTH(64)"
  have "(0x3001007 :: u64) = orr (orr (orr (orr (orr (orr 0 0) 1) 2) 12) 24) 25"
    and "(0x1002 :: u64) = orr (orr 0 1) 12"
    by (simp_all add: orr_def)
  then have "bit (0x3001007 :: u64) n \<longleftrightarrow> n \<in> {0, 1, 2, 12, 24, 25}"
    and "bit (0x1002 :: u64) n \<longleftrightarrow> n \<in> {1, 12}"
    by (auto simp only: bit_orr bit_0_eq bot_apply) auto
  then show "bit (setup_sctlr_el1 v) n = bit ((v AND NOT 0x3001007) OR 0x1002) n"
    using \<open>n < LENGTH(64)\<close>
    by (simp only: bit_setup_sctlr bit_or_iff bit_and_iff bit_not_iff_eq) auto
qed

lemma bits_get_bit:
  assumes "map_of layout f = Some (off, 1)"
  shows "bits_get layout raw f = of_bool (bit raw off)"
proof -
  have "take_bit 1 (drop_bit off raw) = of_bool (bit raw off)"
    by (cases "bit raw off") (simp_all add: take_bit_Suc bit_iff_odd_drop_bit odd_iff_mod_2_eq_one even_iff_mod_2_eq_zero)
  then show ?thesis by (simp add: bits_get_def assms)
qed

text \<open>
  After \<open>setup_sctlr_el1\<close> the fields of the register, as the register decoder names them, are:
  MMU and data cache off, alignment check and instruction cache on, both data accesses little
  endian; every other bit has the value it had.
\<close>

theorem setup_sctlr_fields:
  "bits_get sctlr_el1_64_layout (setup_sctlr_el1 v) ''M'' = 0 \<and>
   bits_get sctlr_el1_64_layout (setup_sctlr_el1 v) ''A'' = 1 \<and>
   bits_get sctlr_el1_64_layout (setup_sctlr_el1 v) ''C'' = 0 \<and>
   bits_get sctlr_el1_64_layout (setup_sctlr_el1 v) ''I'' = 1 \<and>
   bits_get sctlr_el1_64_layout (setup_sctlr_el1 v) ''E0E'' = 0 \<and>
   bits_get sctlr_el1_64_layout (setup_sctlr_el1 v) ''EE'' = 0 \<and>
   setup_sctlr_el1 v = (v AND NOT 0x3001007) OR 0x1002"
proof -
  have fields: "map_of sctlr_el1_64_layout ''M'' = Some (0, 1)"
    "map_of sctlr_el1_64_layout ''A'' = Some (1, 1)" "map_of sctlr_el1_64_layout ''C'' = Some (2, 1)"
    "map_of sctlr_el1_64_layout ''I'' = Some (12, 1)" "map_of sctlr_el1_64_layout ''E0E'' = Some (24, 1)"
    "map_of sctlr_el1_64_layout ''EE'' = Some (25, 1)"
    by code_simp+
  show ?thesis
    by (intro conjI setup_sctlr_eq)
      (simp_all add: bits_get_bit [OF fields(1)] bits_get_bit [OF fields(2)] bits_get_bit [OF fields(3)]
        bits_get_bit [OF fields(4)] bits_get_bit [OF fields(5)] bits_get_bit [OF fields(6)]
        bit_setup_sctlr)
qed

section \<open>The BSS\<close>

lemma store64_0: "store64 m a 0 = (\<lambda>x. if x - a < 8 then 0 else m x)"
  by (simp add: store64_def fun_eq_iff)

lemma clear_bss_eq:
  "8 * unat n < 2 ^ 64 \<Longrightarrow> clear_bss p n m = (\<lambda>x. if unat (x - p) < 8 * unat n then 0 else m x)"
proof (induction p n m rule: clear_bss.induct)
  case (1 p n m)
  show ?case
  proof (cases "n = 0")
    case True
    then show ?thesis by (simp add: clear_bss.simps)
  next
    case False
    then have un: "unat n = Suc (unat (n - 1))" by (rule unat_pred)
    have "(if unat (x - (p + 8)) < 8 * unat (n - 1) then 0 else if x - p < 8 then 0 else m x) =
        (if unat (x - p) < 8 * unat n then 0 else m x)" for x
    proof -
      define d where "d = x - p"
      have x: "x - (p + 8) = d - 8" by (simp add: d_def)
      have "unat (d - 8) = unat d - 8" if "\<not> d < 8"
        using that by (simp add: unat_sub not_less)
      moreover have "unat (d - 8) = unat d + 2 ^ 64 - 8" if "d < 8"
        using that by (simp add: unat_sub_if_size word_size word_less_nat_alt not_le)
      ultimately show ?thesis
        using un "1.prems" unfolding x d_def [symmetric] by (auto simp: word_less_nat_alt)
    qed
    then show ?thesis
      using False "1.IH" un "1.prems" by (subst clear_bss.simps) (simp only: store64_0, simp)
  qed
qed

text \<open>
  \<open>clear_bss\<close> always ends, and zeroes exactly the BSS: the words the linker script counts.
\<close>

theorem clear_bss_zeroes:
  assumes "8 * unat n < 2 ^ 64"
  shows "clear_bss p n m = (\<lambda>x. if unat (x - p) < 8 * unat n then 0 else m x)"
  using assms by (rule clear_bss_eq)

theorem clear_bss_zeroes_witness:
  "clear_bss 0x40010000 2 (\<lambda>_. 7) 0x4001000F = 0 \<and> clear_bss 0x40010000 2 (\<lambda>_. 7) 0x40010010 = 7"
  using clear_bss_zeroes [of 2 "0x40010000" "\<lambda>_. 7"] by simp

section \<open>The arguments of the boot loader\<close>

text \<open>
  The memory \<open>main\<close> starts with, and a core that gets there: core 0 at exception level 1, with the
  array of arguments below the last cache line of the address space.
\<close>

definition handed_over :: "symbols \<Rightarrow> entry_regs \<Rightarrow> memory \<Rightarrow> memory" where
  "handed_over syms regs m = clear_bss (bss_start syms) (bss_size syms) (save_boot_args syms regs m)"

definition handed_state :: "symbols \<Rightarrow> entry_regs \<Rightarrow> kernel \<Rightarrow> kernel" where
  "handed_state syms regs s = zero_bss syms (s\<lparr>mem := save_boot_args syms regs (mem s)\<rparr>)"

lemma handed_state_mem: "mem (handed_state syms regs s) = handed_over syms regs (mem s)"
  by (simp add: handed_state_def handed_over_def zero_bss_def zero_statics_def Let_def)

definition args_placed :: "symbols \<Rightarrow> entry_regs \<Rightarrow> bool" where
  "args_placed syms regs \<longleftrightarrow>
     unat (boot_args syms) + 32 + unat (dcache_line_size (ctr_el0 regs)) \<le> 2 ^ 64"

definition boot_core :: "symbols \<Rightarrow> entry_regs \<Rightarrow> bool" where
  "boot_core syms regs \<longleftrightarrow> mpidr_el1 regs AND 0xFF = 0 \<and> CurrentEL regs = 4 \<and>
     8 * unat (bss_size syms) < 2 ^ 64 \<and> args_placed syms regs"

lemma boot_args_interval:
  assumes "args_placed syms regs"
  shows "boot_args syms < boot_args syms + 0x20"
    and "unat (boot_args syms + 0x20) + unat (dcache_line_size (ctr_el0 regs)) \<le> 2 ^ 64"
proof -
  have "0 < unat (dcache_line_size (ctr_el0 regs))"
    using line_bits_less [of "ctr_el0 regs"] by (simp add: line_size_eq unat_line_size_word)
  then have "unat (boot_args syms + 0x20) = unat (boot_args syms) + 32"
    using assms by (subst unat_add_no_wrap) (simp_all add: args_placed_def)
  then show "boot_args syms < boot_args syms + 0x20"
    and "unat (boot_args syms + 0x20) + unat (dcache_line_size (ctr_el0 regs)) \<le> 2 ^ 64"
    using assms by (simp_all add: args_placed_def word_less_nat_alt)
qed

lemma boot_args_invalidated:
  assumes "args_placed syms regs"
  obtains ops where
    "dcache_inval_poc (ctr_el0 regs) (boot_args syms) (boot_args syms + 0x20) = Some ops"
  using dcache_correct [OF boot_args_interval [OF assms]] by blast

text \<open>The system state \<open>main\<close> runs in.\<close>

definition sys_ready :: "symbols \<Rightarrow> cache_op list \<Rightarrow> sys_regs \<Rightarrow> sys_regs" where
  "sys_ready syms ops sys = sys\<lparr>sctlr_el1 := setup_sctlr_el1 (sctlr_el1 sys),
     vbar_el1 := vector_table syms, sp_el1 := stack_top syms, cache_ops := cache_ops sys @ ops\<rparr>"

lemma primary_entry_main:
  assumes "boot_core syms regs"
    and "dcache_inval_poc (ctr_el0 regs) (boot_args syms) (boot_args syms + 0x20) = Some ops"
    and "main lib lk (boot_args syms) mmap (handed_state syms regs s) = Some (r, s')"
  shows "primary_entry lib lk syms mmap regs sys s =
    Some (Semihosting 0x18 [0x20026, ucast (word_of_int r :: u32)], sys_ready syms ops sys,
      snd (exit (word_of_int r) s'))"
  using assms
  by (simp add: primary_entry_def boot_core_def EL1_VALUE_def handed_state_def exit_def Let_def
      sys_ready_def install_vectors_def)

lemma word_minus_add:
  fixes a p k :: u64
  assumes "unat (a - p) + unat k < 2 ^ 64"
  shows "unat (a + k - p) = unat (a - p) + unat k"
proof -
  have eq: "a + k - p = (a - p) + k" by simp
  show ?thesis unfolding eq by (rule unat_add_no_wrap [OF assms])
qed

lemma load64_zero: "(\<And>k. k < 8 \<Longrightarrow> m (a + k) = 0) \<Longrightarrow> load64 m a = 0"
  using load64_cong [of m a "\<lambda>_. 0"] by (simp add: load64_def)

text \<open>
  With the array \<open>boot_args\<close> inside the range that is cleared, the device tree address saved just
  before is lost, and \<open>main\<close> fails.
\<close>

lemma boot_args_erased:
  assumes "boot_core syms regs" and "length (regions mmap) = MAX_MEM_REGIONS"
    and "unat (boot_args syms - bss_start syms) + 8 \<le> 8 * unat (bss_size syms)"
  shows "\<exists>sys' s'. primary_entry lib lk syms mmap regs sys s =
    Some (Semihosting 0x18 [0x20026, 1], sys', s')"
proof -
  let ?s = "handed_state syms regs s"
  have n: "8 * unat (bss_size syms) < 2 ^ 64" using assms(1) by (simp add: boot_core_def)
  have "mem ?s (boot_args syms + k) = 0" if "k < 8" for k
  proof -
    have "unat k < 8" using that by (simp add: word_less_nat_alt)
    then have "unat (boot_args syms + k - bss_start syms) < 8 * unat (bss_size syms)"
      using assms(3) n by (subst word_minus_add) linarith+
    then show ?thesis by (simp add: handed_state_mem handed_over_def clear_bss_eq [OF n])
  qed
  then have "load64 (mem ?s) (boot_args syms) = 0" by (rule load64_zero)
  then obtain s' where "main lib lk (boot_args syms) mmap ?s = Some (1, s')"
    using main_refuses [of ?s "boot_args syms"] assms(2) by blast
  moreover obtain ops where
    "dcache_inval_poc (ctr_el0 regs) (boot_args syms) (boot_args syms + 0x20) = Some ops"
    using assms(1) by (auto simp: boot_core_def intro: boot_args_invalidated)
  ultimately show ?thesis using primary_entry_main [OF assms(1)] by simp
qed

text \<open>Symbols of an image with a BSS of 4 KiB, the array outside it, and a loader's registers.\<close>

definition demo_symbols :: symbols where
  "demo_symbols = \<lparr>boot_args = 0x40013000, bss_start = 0x40001000, bss_size = 0x200,
     vector_table = 0x40000800, stack_top = 0x40012000, emergency_stack_top = 0x40013200,
     after_setup = 0x40000448, c_bss = 0x40001000, c_frames = demo_frames\<rparr>"

definition demo_regs :: entry_regs where
  "demo_regs = \<lparr>x0 = 0x48000000, x1 = 0, x2 = 0, x3 = 0, x29 = 0, mpidr_el1 = 0x80000000,
     CurrentEL = 4, ctr_el0 = 0x84448004\<rparr>"

definition demo_sys :: sys_regs where
  "demo_sys = \<lparr>sctlr_el1 = 0x30d00800, vbar_el1 = 0, sp_el1 = 0, cache_ops = []\<rparr>"

lemma demo_line_size: "dcache_line_size 0x84448004 = 64"
  by (simp add: dcache_line_size_def)

text \<open>Outside the BSS the saved arguments survive.\<close>

lemma store64_apart:
  fixes a b k :: u64
  assumes "k < 8" and "8 \<le> unat (b - a)" and "unat (b - a) + 8 \<le> 2 ^ 64"
  shows "store64 m b v (a + k) = m (a + k)"
proof (rule store64_other_byte)
  define d where "d = b - a"
  have b: "a + k - b = k - d" by (simp add: d_def)
  have k: "unat k < 8" using assms(1) by (simp add: word_less_nat_alt)
  then have "unat (k - d) = unat k + 2 ^ 64 - unat d"
    using assms(2) by (simp add: d_def unat_sub_if_size word_size)
  then show "\<not> a + k - b < 8"
    using assms(3) k unfolding b by (simp add: word_less_nat_alt d_def)
qed

lemma handed_over_arg:
  assumes "boot_core syms regs"
    and "8 * unat (bss_size syms) \<le> unat (boot_args syms - bss_start syms)"
    and "unat (boot_args syms - bss_start syms) + 8 \<le> 2 ^ 64"
  shows "load64 (handed_over syms regs m) (boot_args syms) = x0 regs"
proof -
  have n: "8 * unat (bss_size syms) < 2 ^ 64" using assms(1) by (simp add: boot_core_def)
  let ?m = "store64 m (boot_args syms) (x0 regs)"
  have "handed_over syms regs m (boot_args syms + k) = ?m (boot_args syms + k)" if k: "k < 8" for k
  proof -
    have "unat k < 8" using k by (simp add: word_less_nat_alt)
    then have "\<not> unat (boot_args syms + k - bss_start syms) < 8 * unat (bss_size syms)"
      using assms(2,3) by (subst word_minus_add) linarith+
    then show ?thesis
      by (simp add: handed_over_def clear_bss_eq [OF n] save_boot_args_def store64_apart [OF k])
  qed
  then have "load64 (handed_over syms regs m) (boot_args syms) = load64 ?m (boot_args syms)"
    by (rule load64_cong)
  then show ?thesis by simp
qed

text \<open>
  With \<open>boot_args\<close> outside the cleared range the start-up code does its work: on the boot core
  at exception level 1, with a valid device tree and image layout in the memory it leaves, the
  machine ends with exit code 0, the control register, the vector base and the stack pointer are
  set, and the allocator holds its boot state.
\<close>

lemma primary_entry_boots:
  assumes "boot_core syms regs" and "length (regions mmap) = MAX_MEM_REGIONS"
    and "8 * unat (bss_size syms) \<le> unat (boot_args syms - bss_start syms)"
    and "unat (boot_args syms - bss_start syms) + 8 \<le> 2 ^ 64"
    and "fdt_check_header lib (handed_over syms regs (mem s)) (x0 regs) = 0"
    and "fdt_describes lib (handed_over syms regs (mem s)) (x0 regs)
      [\<lparr>region_base = base, region_size = sz\<rparr>]"
    and "layout_ok lk base sz"
  shows "\<exists>s' ops. dcache_inval_poc (ctr_el0 regs) (boot_args syms) (boot_args syms + 0x20) = Some ops \<and>
    primary_entry lib lk syms mmap regs sys s = Some (Semihosting 0x18 [0x20026, 0],
      sys\<lparr>sctlr_el1 := setup_sctlr_el1 (sctlr_el1 sys), vbar_el1 := vector_table syms,
        sp_el1 := stack_top syms, cache_ops := cache_ops sys @ ops\<rparr>, s') \<and>
    booted lk base sz s'"
proof -
  let ?s = "handed_state syms regs s"
  note mem = handed_state_mem [of syms regs s]
  have "boot_env lib lk (boot_args syms) base sz ?s"
    using assms(5-7) unfolding boot_env_def mem handed_over_arg [OF assms(1,3,4)] by (simp add: Let_def)
  then obtain s' where s': "main lib lk (boot_args syms) mmap ?s = Some (0, s')" "booted lk base sz s'"
    by (rule boot [OF _ assms(2)]) blast
  have "booted lk base sz (snd (exit (word_of_int 0) s'))"
    by (rule booted_cong [OF s'(2)]) (simp_all add: exit_def Let_def)
  moreover obtain ops where
    "dcache_inval_poc (ctr_el0 regs) (boot_args syms) (boot_args syms + 0x20) = Some ops"
    using assms(1) by (auto simp: boot_core_def intro: boot_args_invalidated)
  ultimately show ?thesis using primary_entry_main [OF assms(1) _ s'(1)] by (simp add: sys_ready_def)
qed

section \<open>The wrong exception level\<close>

lemma save_boot_args_words:
  "save_boot_args syms regs m =
     put_words (boot_args syms) (\<lambda>i. [x0 regs, x1 regs, x2 regs, x3 regs] ! i) 4 m"
  by (simp add: save_boot_args_def numeral_eq_Suc)

text \<open>
  C17: Started at another exception level the boot core reports the panic on the UART and stops there.
  Of the system registers only the stack pointer has changed, to the top of the emergency stack, and
  the lines of the saved arguments have been cleaned or invalidated; the static state is as before.
  The only bytes of memory written are the saved arguments and those just below the top of the
  emergency stack: the frame of the macro, and below it what the compiled report takes for its own
  frames, up to \<open>n\<close> bytes. The emergency stack holds them if \<open>n\<close> is at most 240.
\<close>

theorem primary_entry_wrong_level:
  assumes "mpidr_el1 regs AND 0xFF = 0" and "CurrentEL regs \<noteq> 4" and "args_placed syms regs"
    and "frames_within n (c_frames syms)"
  shows "\<exists>ops s'. dcache_inval_poc (ctr_el0 regs) (boot_args syms) (boot_args syms + 0x20) = Some ops \<and>
    primary_entry lib lk syms mmap regs sys s = Some (Hangs,
      sys\<lparr>sp_el1 := emergency_stack_top syms, cache_ops := cache_ops sys @ ops\<rparr>, s') \<and>
    s' = emit (crlf @ ''!!! KERNEL PANIC !!!'' @ crlf @ ''Error Code:    0x'' @ hex16 1 @ crlf @
      ''Error Message: CPU not in EL1'' @ crlf @ ''Halting system.'' @ crlf) (s\<lparr>mem := mem s'\<rparr>) \<and>
    (\<forall>x. 32 \<le> unat (x - boot_args syms) \<and> 16 + n \<le> unat (emergency_stack_top syms - 1 - x) \<longrightarrow>
      mem s' x = mem s x)"
proof -
  let ?top = "emergency_stack_top syms"
  let ?m = "put_words (boot_args syms) (\<lambda>i. [x0 regs, x1 regs, x2 regs, x3 regs] ! i) 4 (mem s)"
  let ?m' = "put_words (?top - 16) (\<lambda>i. [x29 regs, after_setup syms] ! i) 2 ?m"
  let ?m'' = "c_frames syms (?top - 16) ?m'"
  let ?text = "crlf @ ''!!! KERNEL PANIC !!!'' @ crlf @ ''Error Code:    0x'' @ hex16 1 @ crlf @
      ''Error Message: CPU not in EL1'' @ crlf @ ''Halting system.'' @ crlf"
  obtain ops where ops:
    "dcache_inval_poc (ctr_el0 regs) (boot_args syms) (boot_args syms + 0x20) = Some ops"
    using assms(3) by (rule boot_args_invalidated)
  have code: "error_to_string ERROR_CODE_NOT_EL1 = ''CPU not in EL1''" "ERROR_CODE_NOT_EL1 = 1"
    by (simp_all add: error_to_string_def STRING_MAP_def ERROR_CODE_SUCCESS_def ERROR_CODE_NOT_EL1_def)
  have frame: "put_words (?top - 16) (\<lambda>i. [x29 regs, after_setup syms] ! i) 2 m =
      store64 (store64 m (?top - 16) (x29 regs)) (?top - 16 + 8) (after_setup syms)" for m
    by (simp add: numeral_2_eq_2)
  have run: "primary_entry lib lk syms mmap regs sys s = Some (Hangs,
      sys\<lparr>sp_el1 := ?top, cache_ops := cache_ops sys @ ops\<rparr>, emit ?text (s\<lparr>mem := ?m''\<rparr>))"
    using assms(1,2) code(1)
    by (simp add: primary_entry_def EL1_VALUE_def ops panic_print_def panic_print_c_emit Let_def
        save_boot_args_words frame code(2))
  have mem: "mem (emit ?text (s\<lparr>mem := ?m''\<rparr>)) = ?m''" by (simp add: emit_def)
  have "?m'' x = mem s x" if x: "32 \<le> unat (x - boot_args syms)" "16 + n \<le> unat (?top - 1 - x)" for x
    using frames_below [OF assms(4), of 16 ?top x] x by (simp add: put_words_outside)
  with run mem ops show ?thesis by fastforce
qed

theorem primary_entry_wrong_level_witness:
  "\<exists>sys' s'. primary_entry demo_lib demo_linker demo_symbols demo_map0 (demo_regs\<lparr>CurrentEL := 8\<rparr>)
     demo_sys demo_boot = Some (Hangs, sys', s') \<and> sctlr_el1 sys' = 0x30d00800 \<and>
     mem s' 0x48000000 = mem demo_boot 0x48000000"
  using primary_entry_wrong_level [of "demo_regs\<lparr>CurrentEL := 8\<rparr>" demo_symbols 16 demo_lib demo_linker
      demo_map0 demo_sys demo_boot]
  by (auto simp: demo_regs_def args_placed_def demo_symbols_def demo_line_size demo_sys_def
      demo_frames_within)

end
