(* ===== verification/Layout.thy ===== *)
theory Layout
  imports StartupTheorems
begin

text \<open>
  The linker script \<^verbatim>\<open>src/scripts/linker.ld\<close>: the location counter runs over the output
  sections, and the symbols the kernel uses are its values at certain points. The sizes and
  alignments of the input sections are parameters; so are the places of the symbols inside them.
\<close>

section \<open>The location counter\<close>

definition align_up :: "nat \<Rightarrow> nat \<Rightarrow> nat" where
  "align_up a x = (x + a - 1) div a * a"

text \<open>
  What the compiler hands to the linker. An output section starts at a multiple of the alignment
  the script demands and of the one its input demands. Alignments are powers of two, and the
  fields \<open>_align\<close> are the exponents. Sections the script does not name, which the linker puts
  behind one of their kind, count towards the length of that one.
\<close>

record sections =
  header_len :: nat
  text_len :: nat
  text_align :: nat
  rodata_len :: nat
  rodata_align :: nat
  data_len :: nat
  data_align :: nat
  bss_len :: nat
  bss_align :: nat

definition start_text :: "sections \<Rightarrow> nat" where
  "start_text sec = align_up (2 ^ text_align sec) (0x40000000 + header_len sec)"

definition start_rodata :: "sections \<Rightarrow> nat" where
  "start_rodata sec = align_up (2 ^ max 3 (rodata_align sec)) (start_text sec + text_len sec)"

definition start_data :: "sections \<Rightarrow> nat" where
  "start_data sec = align_up (2 ^ max 3 (data_align sec)) (start_rodata sec + rodata_len sec)"

definition start_bss :: "sections \<Rightarrow> nat" where
  "start_bss sec = align_up (2 ^ max 4 (bss_align sec)) (start_data sec + data_len sec)"

definition end_bss :: "sections \<Rightarrow> nat" where
  "end_bss sec = align_up 16 (start_bss sec + bss_len sec)"

definition end_bitmap :: "sections \<Rightarrow> nat" where
  "end_bitmap sec = end_bss sec + 0x10000"

definition end_stack :: "sections \<Rightarrow> nat" where
  "end_stack sec = align_up 16 (end_bitmap sec) + 0x4000"

section \<open>The symbols\<close>

definition linked :: "sections \<Rightarrow> linker" where
  "linked sec = \<lparr>page_allocator_bit_map_start = word_of_nat (end_bss sec),
     page_allocator_bit_map_end = word_of_nat (end_bitmap sec),
     image_start = 0x40000000, image_end = word_of_nat (end_stack sec)\<rparr>"

text \<open>Offsets inside the input sections: in the BSS, in the code and in the data; and the stack
  the code uses.\<close>

record placement =
  bss_boot_args :: nat
  text_vector_table :: nat
  text_after_setup :: nat
  data_emergency_stack_top :: nat
  code_frames :: stack_use

definition linked_symbols :: "sections \<Rightarrow> placement \<Rightarrow> symbols" where
  "linked_symbols sec pl = \<lparr>boot_args = word_of_nat (start_bss sec + bss_boot_args pl),
     bss_start = word_of_nat (start_bss sec),
     bss_size = drop_bit 3 (word_of_nat (end_bss sec) - word_of_nat (start_bss sec)),
     vector_table = word_of_nat (start_text sec + text_vector_table pl),
     stack_top = word_of_nat (end_stack sec),
     emergency_stack_top = word_of_nat (start_data sec + data_emergency_stack_top pl),
     after_setup = word_of_nat (start_text sec + text_after_setup pl),
     c_bss = word_of_nat (start_bss sec), c_frames = code_frames pl\<rparr>"

text \<open>The image ends below the middle of the address space.\<close>

definition sections_ok :: "sections \<Rightarrow> bool" where
  "sections_ok sec \<longleftrightarrow> end_stack sec < 2 ^ 63"

section \<open>The layout is as the kernel expects it\<close>

lemma align_up_ge: "0 < a \<Longrightarrow> x \<le> align_up a x"
proof -
  assume a: "0 < a"
  have "x + a - 1 < ((x + a - 1) div a + 1) * a"
    using a by (simp add: dividend_less_div_times)
  then show ?thesis using a by (simp add: align_up_def)
qed

lemma align_up_dvd: "a dvd align_up a x"
  by (simp add: align_up_def)

text \<open>The chain of section starts and ends.\<close>

lemma sections_ordered:
  assumes "sections_ok sec"
  shows "0x40000000 \<le> start_text sec" "start_text sec + text_len sec \<le> start_rodata sec"
    "start_rodata sec + rodata_len sec \<le> start_data sec" "start_data sec + data_len sec \<le> start_bss sec"
    "start_bss sec + bss_len sec \<le> end_bss sec" "end_bss sec + 0x10000 = end_bitmap sec"
    "end_bitmap sec + 0x4000 \<le> end_stack sec"
proof -
  have "0x40000000 + header_len sec \<le> start_text sec"
    unfolding start_text_def using assms by (intro align_up_ge) simp
  then show "0x40000000 \<le> start_text sec" by simp
  show "end_bitmap sec + 0x4000 \<le> end_stack sec"
    unfolding end_stack_def by (simp add: align_up_ge)
qed (simp_all add: start_rodata_def start_data_def start_bss_def end_bss_def end_bitmap_def align_up_ge)

lemma unat_word_of_nat: "n < 2 ^ 64 \<Longrightarrow> unat (word_of_nat n :: u64) = n"
  by (simp add: unsigned_of_nat take_bit_nat_eq_self)

lemma linked_sel:
  assumes "sections_ok sec"
  shows "unat (page_allocator_bit_map_start (linked sec)) = end_bss sec"
    "unat (page_allocator_bit_map_end (linked sec)) = end_bitmap sec"
    "unat (image_start (linked sec)) = 0x40000000"
    "unat (image_end (linked sec)) = end_stack sec"
  using sections_ordered [OF assms] assms
  by (simp_all add: linked_def unat_word_of_nat sections_ok_def)

text \<open>Everything follows for a region of memory that begins where the image does.\<close>

lemma pool_at_image: "pool_start 0x40000000 = 0x40000000" "pool_pages 0x40000000 sz = sz div 4096"
  by (simp_all add: pool_start_def pool_pages_def PAGE_SIZE_def)

lemma bitmap_suffices: "(n div 4096 + 7) div 8 \<le> 0x10000 \<longleftrightarrow> n < 2 ^ 31 + 4096" for n :: nat
proof -
  have "(n div 4096 + 7) div 8 < 0x10001 \<longleftrightarrow> n div 4096 + 7 < 0x10001 * 8"
    by (rule div_less_iff_less_mult) simp
  moreover have "n div 4096 < 0x80001 \<longleftrightarrow> n < 0x80001 * 4096"
    by (rule div_less_iff_less_mult) simp
  ultimately show ?thesis by (intro iffI) simp_all
qed

text \<open>The input is linked, and the region, of size \<open>sz\<close>, holds the pages of the image.\<close>

definition fits :: "sections \<Rightarrow> u64 \<Rightarrow> bool" where
  "fits sec sz \<longleftrightarrow> sections_ok sec \<and> unat sz < 2 ^ 63 \<and>
     4096 * image_pages (linked sec) \<le> unat sz"

lemma fits_image:
  assumes "fits sec sz"
  shows "0x14000 \<le> unat sz" and "end_stack sec \<le> 0x40000000 + unat sz"
proof -
  have ok: "sections_ok sec" using assms by (simp add: fits_def)
  have pages: "image_pages (linked sec) = (end_stack sec - 0x40000000 + 4095) div 4096"
    by (simp add: image_pages_def linked_sel [OF ok])
  have "end_stack sec - 0x40000000 \<le> 4096 * image_pages (linked sec)"
    using align_up_ge [of 4096 "end_stack sec - 0x40000000"] unfolding pages align_up_def
    by (simp add: mult.commute)
  then have b: "end_stack sec - 0x40000000 \<le> unat sz" using assms by (simp add: fits_def)
  then show "0x14000 \<le> unat sz" "end_stack sec \<le> 0x40000000 + unat sz"
    using sections_ordered [OF ok] by linarith+
qed

lemma linked_region_ok:
  assumes "fits sec sz"
  shows "region_ok (linked sec) 0x40000000 sz \<longleftrightarrow> unat sz < 2 ^ 31 + 4096"
proof -
  have ok: "sections_ok sec" using assms by (simp add: fits_def)
  have bm: "unat (page_allocator_bit_map_end (linked sec)) -
      unat (page_allocator_bit_map_start (linked sec)) = 0x10000"
    "unat (page_allocator_bit_map_start (linked sec)) \<le> unat (page_allocator_bit_map_end (linked sec))"
    using sections_ordered(6) [OF ok] by (simp_all add: linked_sel [OF ok])
  show ?thesis
    using assms fits_image(1) [OF assms] bitmap_suffices [of "unat sz"]
    by (simp add: region_ok_def pool_at_image bm unat_div fits_def)
qed

lemma linked_layout_ok:
  assumes "fits sec sz" and "unat sz < 2 ^ 31 + 4096"
  shows "layout_ok (linked sec) 0x40000000 sz"
proof -
  have ok: "sections_ok sec" using assms by (simp add: fits_def)
  have "image_pages (linked sec) \<le> unat sz div 4096"
    using assms by (simp add: fits_def less_eq_div_iff_mult_less_eq mult.commute)
  then show ?thesis
    using assms sections_ordered [OF ok] linked_region_ok [OF assms(1)]
    by (simp add: layout_ok_def pool_at_image linked_sel [OF ok] unat_div)
      (simp add: page_aligned_def linked_def fits_def sections_ok_def)
qed

section \<open>Booting a linked image\<close>

lemma linked_setup_fails:
  assumes "fits sec sz" and "\<not> unat sz < 2 ^ 31 + 4096"
  shows "\<not> fst (setup_region (linked sec) 0x40000000 sz s)"
proof -
  have ok: "sections_ok sec" using assms by (simp add: fits_def)
  have "\<not> (unat sz div 4096 + 7) div 8 \<le> 0x10000" using assms(2) bitmap_suffices by blast
  moreover have "unat sz div 4096 + 7 < 2 ^ 64" using unsigned_less [of sz, where 'a = nat] by simp
  ultimately have "(pool_pages 0x40000000 sz + 7) div 8 > 0x10000"
    by (simp add: pool_at_image word_less_nat_alt unat_div unat_word_ariths)
  moreover have "page_allocator_bit_map_end (linked sec) - page_allocator_bit_map_start (linked sec) = 0x10000"
    by (simp add: linked_def end_bitmap_def)
  moreover have "sz > pool_start 0x40000000 - 0x40000000"
    using fits_image(1) [OF assms(1)] by (simp add: pool_at_image word_less_nat_alt)
  ultimately have "\<not> fst (page_init (linked sec) 0x40000000 sz s)"
    using page_init_failure_half_initialised [of "0x40000000" sz "linked sec" s] by simp
  then show ?thesis by (simp add: setup_region_def split_beta)
qed

text \<open>
  C15: With a valid device tree whose one region begins at the link address and holds the image,
  \<open>main\<close> returns, and it succeeds precisely if the region has at most the 2 GiB of memory, up to a
  partial page more, that the linker script promises for its bitmap; then the allocator holds its
  boot state. Otherwise it returns 1.
\<close>

theorem linked_image_boots:
  assumes "fits sec sz" and "length (regions mmap) = MAX_MEM_REGIONS"
    and "fdt_check_header lib (mem s) (load64 (mem s) args) = 0"
    and "fdt_describes lib (mem s) (load64 (mem s) args)
      [\<lparr>region_base = 0x40000000, region_size = sz\<rparr>]"
  shows "\<exists>s'. main lib (linked sec) args mmap s =
      Some (if unat sz < 2 ^ 31 + 4096 then 0 else 1, s') \<and>
    (unat sz < 2 ^ 31 + 4096 \<longrightarrow> booted (linked sec) 0x40000000 sz s')"
proof (cases "unat sz < 2 ^ 31 + 4096")
  case True
  have "boot_env lib (linked sec) args 0x40000000 sz s"
    using assms linked_layout_ok [OF assms(1) True] by (simp add: boot_env_def Let_def)
  then show ?thesis using True by (auto intro: boot [OF _ assms(2)])
next
  case False
  obtain t where t: "memory_setup lib (linked sec) args mmap s =
      Some (setup_region (linked sec) 0x40000000 sz t)"
    by (rule memory_setup_region [OF assms(3,4,2)]) (rule that)
  have "\<not> fst (setup_region (linked sec) 0x40000000 sz t)"
    by (rule linked_setup_fails [OF assms(1) False])
  then show ?thesis using False t
    by (cases "setup_region (linked sec) 0x40000000 sz t") (simp add: main_def)
qed

section \<open>Entering a linked image\<close>

lemma linked_bss:
  assumes "sections_ok sec"
  shows "unat (bss_start (linked_symbols sec pl)) = start_bss sec"
    and "8 * unat (bss_size (linked_symbols sec pl)) = end_bss sec - start_bss sec"
proof -
  note ord = sections_ordered [OF assms]
  have e: "end_bss sec < 2 ^ 64" and s: "start_bss sec < 2 ^ 64"
    using ord assms by (simp_all add: sections_ok_def)
  show "unat (bss_start (linked_symbols sec pl)) = start_bss sec"
    using s by (simp add: linked_symbols_def unat_word_of_nat)
  have "unat (word_of_nat (end_bss sec) - word_of_nat (start_bss sec) :: u64) = end_bss sec - start_bss sec"
    using e s ord(5) by (simp add: unat_sub word_le_nat_alt unat_word_of_nat)
  moreover have "(2 :: nat) ^ 4 dvd 2 ^ max 4 (bss_align sec)" by (rule le_imp_power_dvd) simp
  then have "8 dvd start_bss sec" "8 dvd end_bss sec"
    by (auto simp: start_bss_def end_bss_def align_up_def elim!: dvdE)
  then have "8 dvd end_bss sec - start_bss sec" by simp
  ultimately show "8 * unat (bss_size (linked_symbols sec pl)) = end_bss sec - start_bss sec"
    by (simp add: linked_symbols_def unat_drop_bit_eq del: drop_bit_eq_div) (simp add: drop_bit_eq_div)
qed

lemma linked_boot_args:
  assumes "sections_ok sec" and "bss_boot_args pl + 32 \<le> bss_len sec"
  shows "unat (boot_args (linked_symbols sec pl)) = start_bss sec + bss_boot_args pl"
    and "args_placed (linked_symbols sec pl) regs"
    and "unat (boot_args (linked_symbols sec pl) - bss_start (linked_symbols sec pl)) + 8
      \<le> 8 * unat (bss_size (linked_symbols sec pl))"
proof -
  note ord = sections_ordered [OF assms(1)]
  have low: "start_bss sec + bss_boot_args pl + 32 < 2 ^ 63"
    using ord assms by (simp add: sections_ok_def)
  then show at: "unat (boot_args (linked_symbols sec pl)) = start_bss sec + bss_boot_args pl"
    by (simp add: linked_symbols_def unat_word_of_nat del: of_nat_add)
  have "(2 :: nat) ^ line_bits (ctr_el0 regs) < 2 ^ 18"
    using line_bits_less by (intro power_strict_increasing) simp_all
  then show "args_placed (linked_symbols sec pl) regs"
    using low line_bits_less [of "ctr_el0 regs"]
    by (simp add: args_placed_def at line_size_eq unat_line_size_word)
  have "unat (boot_args (linked_symbols sec pl) - bss_start (linked_symbols sec pl)) = bss_boot_args pl"
    by (simp add: unat_sub word_le_nat_alt at linked_bss [OF assms(1)])
  then show "unat (boot_args (linked_symbols sec pl) - bss_start (linked_symbols sec pl)) + 8
      \<le> 8 * unat (bss_size (linked_symbols sec pl))"
    using assms(2) ord(5) by (simp add: linked_bss [OF assms(1)])
qed

text \<open>
  C16: In every image the linker script makes of an input with the array \<open>boot_args\<close> in its BSS, which
  is where a C array without an initialiser goes, clearing the BSS erases the device tree address
  saved just before: when the image runs where it was linked, on the boot core at exception level
  1, whatever the boot loader passed and whatever the memory holds, \<open>main\<close> fails and the machine
  is left with exit code 1.
\<close>

theorem linked_boot_args_erased:
  assumes "sections_ok sec" and "bss_boot_args pl + 32 \<le> bss_len sec"
    and "mpidr_el1 regs AND 0xFF = 0" and "CurrentEL regs = 4"
    and "length (regions mmap) = MAX_MEM_REGIONS"
  shows "\<exists>sys' s'. primary_entry lib (linked sec) (linked_symbols sec pl) mmap regs sys s =
    Some (Semihosting 0x18 [0x20026, 1], sys', s')"
proof (rule boot_args_erased [OF _ assms(5) linked_boot_args(3) [OF assms(1,2)]])
  have "8 * unat (bss_size (linked_symbols sec pl)) < 2 ^ 64"
    using sections_ordered [OF assms(1)] assms(1) by (simp add: linked_bss(2) sections_ok_def)
  then show "boot_core (linked_symbols sec pl) regs"
    using assms linked_boot_args(2) by (simp add: boot_core_def)
qed

text \<open>
  The primary stack: its top is aligned as the architecture demands, and its 16 KiB lie behind the
  bitmap and inside the image, whose pages are reserved.
\<close>

lemma linked_stack:
  assumes "sections_ok sec"
  shows "unat (stack_top (linked_symbols sec pl)) = unat (image_end (linked sec))"
    and "16 dvd unat (stack_top (linked_symbols sec pl))"
    and "unat (page_allocator_bit_map_end (linked sec)) + 0x4000 \<le> unat (stack_top (linked_symbols sec pl))"
proof -
  show top: "unat (stack_top (linked_symbols sec pl)) = unat (image_end (linked sec))"
    by (simp add: linked_symbols_def linked_def)
  have "16 dvd end_stack sec"
    unfolding end_stack_def by (intro dvd_add align_up_dvd) simp
  then show "16 dvd unat (stack_top (linked_symbols sec pl))"
    by (simp add: top linked_sel [OF assms])
  show "unat (page_allocator_bit_map_end (linked sec)) + 0x4000 \<le> unat (stack_top (linked_symbols sec pl))"
    using sections_ordered(7) [OF assms] by (simp add: top linked_sel [OF assms])
qed

section \<open>A concrete image\<close>

definition demo_sections :: sections where
  "demo_sections = \<lparr>header_len = 64, text_len = 0x6a38, text_align = 11, rodata_len = 0xd01,
     rodata_align = 3, data_len = 256, data_align = 4, bss_len = 0x54, bss_align = 4\<rparr>"

definition demo_placement :: placement where
  "demo_placement = \<lparr>bss_boot_args = 0x20, text_vector_table = 0x1000, text_after_setup = 0x48,
     data_emergency_stack_top = 256, code_frames = demo_frames\<rparr>"

lemma demo_ends: "end_bss demo_sections = 0x400080a0" "end_stack demo_sections = 0x4001c0a0"
  by (simp_all add: end_stack_def end_bitmap_def end_bss_def start_bss_def start_data_def
      start_rodata_def start_text_def align_up_def demo_sections_def)

lemma demo_fits: "fits demo_sections 0x80000000" "fits demo_sections 0x8000000"
  by (simp_all add: fits_def sections_ok_def image_pages_def linked_def demo_ends)

theorem linked_image_boots_witness:
  "\<exists>s'. main demo_lib (linked demo_sections) 0x40013000 demo_map0 demo_boot = Some (0, s') \<and>
     booted (linked demo_sections) 0x40000000 0x8000000 s'"
  using linked_image_boots [OF demo_fits(2) demo_map0_len, of demo_lib demo_boot "0x40013000"]
    demo_describes
  by (simp add: demo_boot_def demo_args demo_region_list_def)

theorem linked_boot_args_erased_witness:
  "\<exists>sys' s'. primary_entry demo_lib (linked demo_sections) (linked_symbols demo_sections demo_placement)
     demo_map0 demo_regs demo_sys demo_boot = Some (Semihosting 0x18 [0x20026, 1], sys', s')"
proof (rule linked_boot_args_erased)
  show "sections_ok demo_sections" by (simp add: sections_ok_def demo_ends)
qed (simp_all add: demo_placement_def demo_sections_def demo_regs_def demo_map0_len)

end
