(* ===== verification/Relocation.thy ===== *)
theory Relocation
  imports Layout
begin

text \<open>
  The kernel away from its link address. The build turns the linked image into a flat binary, and
  its header leaves the size field zero, so where it runs is up to the boot loader. The code finds
  its data relative to the program counter, except for the three symbols \<^verbatim>\<open>boot.s\<close> takes from its
  literal pool: the start and size of the BSS and the top of the stack stay where they were linked.
\<close>

section \<open>The image header\<close>

definition le_quad :: "u64 \<Rightarrow> u8 list" where
  "le_quad v = map (\<lambda>i. ucast (drop_bit (8 * i) v)) [0 ..< 8]"

definition le_long :: "u32 \<Rightarrow> u8 list" where
  "le_long v = map (\<lambda>i. ucast (drop_bit (8 * i) v)) [0 ..< 4]"

text \<open>The section \<^verbatim>\<open>.header.arm64\<close>, after the instruction \<^verbatim>\<open>b primary_entry\<close>.\<close>

definition header_arm64 :: "u32 \<Rightarrow> u8 list" where
  "header_arm64 branch =
     le_long branch @ le_long 0 @ le_quad 0 @ le_quad 0 @ le_quad 0xA @
     le_quad 0 @ le_quad 0 @ le_quad 0 @ map of_char ''ARMd'' @ le_long 0"

lemma header_fields:
  "length (header_arm64 branch) = 64"
  "take 8 (drop 8 (header_arm64 branch)) = le_quad 0"
  "take 8 (drop 16 (header_arm64 branch)) = le_quad 0"
  "take 4 (drop 56 (header_arm64 branch)) = le_long 0x644d5241"
  by (simp_all add: header_arm64_def le_quad_def le_long_def upt_rec)

section \<open>Running the image elsewhere\<close>

definition relocate :: "u64 \<Rightarrow> linker \<Rightarrow> linker" where
  "relocate d lk = \<lparr>page_allocator_bit_map_start = page_allocator_bit_map_start lk + d,
     page_allocator_bit_map_end = page_allocator_bit_map_end lk + d,
     image_start = image_start lk + d, image_end = image_end lk + d\<rparr>"

definition relocate_symbols :: "u64 \<Rightarrow> symbols \<Rightarrow> symbols" where
  "relocate_symbols d syms = syms\<lparr>boot_args := boot_args syms + d,
     vector_table := vector_table syms + d, emergency_stack_top := emergency_stack_top syms + d,
     after_setup := after_setup syms + d, c_bss := c_bss syms + d\<rparr>"

text \<open>
  The image runs \<open>d\<close> bytes, some whole pages, above its link address and clear of the addresses it
  was linked for; the memory, from the link address on, holds it there and suits its bitmap.
\<close>

definition runs_apart :: "sections \<Rightarrow> u64 \<Rightarrow> u64 \<Rightarrow> bool" where
  "runs_apart sec d sz \<longleftrightarrow> sections_ok sec \<and> 4096 dvd unat d \<and>
     end_stack sec \<le> 0x40000000 + unat d \<and>
     unat d + 4096 * image_pages (linked sec) \<le> unat sz \<and> unat sz < 2 ^ 31 + 4096"

lemma relocated_sel:
  assumes "runs_apart sec d sz"
  shows "unat (page_allocator_bit_map_start (relocate d (linked sec))) = end_bss sec + unat d"
    "unat (page_allocator_bit_map_end (relocate d (linked sec))) = end_bitmap sec + unat d"
    "unat (image_start (relocate d (linked sec))) = 0x40000000 + unat d"
    "unat (image_end (relocate d (linked sec))) = end_stack sec + unat d"
    "image_pages (relocate d (linked sec)) = image_pages (linked sec)"
proof -
  have ok: "sections_ok sec" and d: "unat d < 2 ^ 31 + 4096"
    using assms by (auto simp: runs_apart_def)
  note ord = sections_ordered [OF ok]
  have top: "end_stack sec < 2 ^ 63" using ok by (simp add: sections_ok_def)
  have add: "unat (a + d) = unat a + unat d" if "unat a < 2 ^ 63" for a
    by (rule unat_add_no_wrap) (use that d in simp)
  show "unat (page_allocator_bit_map_start (relocate d (linked sec))) = end_bss sec + unat d"
    "unat (page_allocator_bit_map_end (relocate d (linked sec))) = end_bitmap sec + unat d"
    "unat (image_start (relocate d (linked sec))) = 0x40000000 + unat d"
    and e: "unat (image_end (relocate d (linked sec))) = end_stack sec + unat d"
    using ord top by (simp_all add: relocate_def add linked_sel [OF ok])
  show "image_pages (relocate d (linked sec)) = image_pages (linked sec)"
    using ord top by (simp add: image_pages_def relocate_def add linked_sel [OF ok])
qed

lemma relocated_layout_ok:
  assumes "runs_apart sec d sz"
  shows "layout_ok (relocate d (linked sec)) 0x40000000 sz"
proof -
  have ok: "sections_ok sec" and al: "4096 dvd unat d"
    and room: "unat d + 4096 * image_pages (linked sec) \<le> unat sz" and small: "unat sz < 2 ^ 31 + 4096"
    using assms by (auto simp: runs_apart_def)
  note ord = sections_ordered [OF ok]
  note sel = relocated_sel [OF assms]
  have top: "end_stack sec < 2 ^ 63" using ok by (simp add: sections_ok_def)
  have apart: "end_stack sec \<le> 0x40000000 + unat d" using assms by (simp add: runs_apart_def)
  have bm: "(unat sz div 4096 + 7) div 8 \<le> 0x10000" using small bitmap_suffices by blast
  have reg: "region_ok (relocate d (linked sec)) 0x40000000 sz"
    using small bm ord apart room
    by (simp add: region_ok_def pool_at_image sel unat_div)
  obtain q where q: "unat d = 4096 * q" using al by (elim dvdE)
  have "q + image_pages (linked sec) \<le> unat sz div 4096"
    using room by (simp add: less_eq_div_iff_mult_less_eq q algebra_simps)
  then have pages: "unat d + 4096 * image_pages (linked sec) \<le> 4096 * (unat sz div 4096)"
    by (simp add: q)
  have "page_aligned (image_start (relocate d (linked sec)))"
    by (simp add: page_aligned_dvd sel q)
  then show ?thesis
    using reg ord top apart pages small room
    by (simp add: layout_ok_def pool_at_image sel unat_div)
qed

section \<open>The boot succeeds\<close>

lemma relocated_boot:
  assumes "runs_apart sec d sz" and "bss_boot_args pl + 32 \<le> bss_len sec"
    and "mpidr_el1 regs AND 0xFF = 0" and "CurrentEL regs = 4"
    and "length (regions mmap) = MAX_MEM_REGIONS"
    and "fdt_check_header lib (handed_over (relocate_symbols d (linked_symbols sec pl)) regs (mem s)) (x0 regs) = 0"
    and "fdt_describes lib (handed_over (relocate_symbols d (linked_symbols sec pl)) regs (mem s)) (x0 regs)
      [\<lparr>region_base = 0x40000000, region_size = sz\<rparr>]"
  shows "\<exists>sys' s'. primary_entry lib (relocate d (linked sec)) (relocate_symbols d (linked_symbols sec pl))
      mmap regs sys s = Some (Semihosting 0x18 [0x20026, 0], sys', s') \<and>
    booted (relocate d (linked sec)) 0x40000000 sz s' \<and>
    vbar_el1 sys' = vector_table (linked_symbols sec pl) + d \<and> unat (sp_el1 sys') = end_stack sec"
proof -
  let ?syms = "relocate_symbols d (linked_symbols sec pl)"
  have ok: "sections_ok sec" and d: "unat d < 2 ^ 31 + 4096" and apart: "end_stack sec \<le> 0x40000000 + unat d"
    using assms(1) by (auto simp: runs_apart_def)
  note ord = sections_ordered [OF ok]
  have top: "end_stack sec < 2 ^ 63" using ok by (simp add: sections_ok_def)
  have bss: "unat (bss_start ?syms) = start_bss sec" "8 * unat (bss_size ?syms) = end_bss sec - start_bss sec"
    using linked_bss [OF ok, of pl] by (simp_all add: relocate_symbols_def)
  have args: "unat (boot_args ?syms) = start_bss sec + bss_boot_args pl + unat d"
    using linked_boot_args(1) [OF ok assms(2)] ord assms(2) top d
    by (simp add: relocate_symbols_def unat_add_no_wrap)
  have gap: "unat (boot_args ?syms - bss_start ?syms) = bss_boot_args pl + unat d"
    by (simp add: unat_sub word_le_nat_alt args bss)
  have line: "unat (dcache_line_size (ctr_el0 regs)) < 2 ^ 18"
    using line_bits_less [of "ctr_el0 regs"] power_strict_increasing [of "line_bits (ctr_el0 regs)" 18 "2 :: nat"]
    by (simp add: line_size_eq unat_line_size_word)
  have core: "boot_core ?syms regs"
    using assms(2-4) ord top d line by (simp add: boot_core_def args_placed_def args bss)
  have clear: "8 * unat (bss_size ?syms) \<le> unat (boot_args ?syms - bss_start ?syms)"
    unfolding gap bss using ord apart by linarith
  have room: "unat (boot_args ?syms - bss_start ?syms) + 8 \<le> 2 ^ 64"
    unfolding gap using ord top assms(2) d by simp
  from primary_entry_boots [OF core assms(5) clear room assms(6,7) relocated_layout_ok [OF assms(1)], of sys]
  obtain s' ops where "primary_entry lib (relocate d (linked sec)) ?syms mmap regs sys s =
      Some (Semihosting 0x18 [0x20026, 0], sys\<lparr>sctlr_el1 := setup_sctlr_el1 (sctlr_el1 sys),
        vbar_el1 := vector_table ?syms, sp_el1 := stack_top ?syms, cache_ops := cache_ops sys @ ops\<rparr>, s')"
    "booted (relocate d (linked sec)) 0x40000000 sz s'"
    by blast
  moreover have "unat (stack_top ?syms) = end_stack sec"
    using linked_stack(1) [OF ok, of pl] by (simp add: relocate_symbols_def linked_sel [OF ok])
  ultimately show ?thesis by (auto simp: relocate_symbols_def)
qed

text \<open>
  C11: Away from its link address the start-up code works, although \<open>boot_args\<close> is in the BSS: what
  is cleared is memory at the link address. On the boot core at exception level 1, with a valid
  device tree, \<open>main\<close> succeeds, the machine ends with exit code 0, the allocator holds its boot state
  for the image where it runs, the vector base has moved along, and the stack pointer is the top of
  the stack as it was linked.
\<close>

theorem relocated_image_boots:
  assumes "runs_apart sec d sz" and "bss_boot_args pl + 32 \<le> bss_len sec"
    and "mpidr_el1 regs AND 0xFF = 0" and "CurrentEL regs = 4"
    and "length (regions mmap) = MAX_MEM_REGIONS"
    and "fdt_check_header lib (handed_over (relocate_symbols d (linked_symbols sec pl)) regs (mem s)) (x0 regs) = 0"
    and "fdt_describes lib (handed_over (relocate_symbols d (linked_symbols sec pl)) regs (mem s)) (x0 regs)
      [\<lparr>region_base = 0x40000000, region_size = sz\<rparr>]"
  shows "\<exists>sys' s'. primary_entry lib (relocate d (linked sec)) (relocate_symbols d (linked_symbols sec pl))
      mmap regs sys s = Some (Semihosting 0x18 [0x20026, 0], sys', s') \<and>
    booted (relocate d (linked sec)) 0x40000000 sz s' \<and>
    vbar_el1 sys' = vector_table (linked_symbols sec pl) + d \<and> unat (sp_el1 sys') = end_stack sec"
  using assms by (rule relocated_boot)

section \<open>The stack is left unprotected\<close>

lemma relocated_low_pages_free:
  assumes "runs_apart sec d sz" and "booted (relocate d (linked sec)) 0x40000000 sz s"
    and "4096 * (k + 1) \<le> unat d"
  shows "k < unat (total_pages s)" and "\<not> page_used s k" and "unat (page_addr s k) = 0x40000000 + 4096 * k"
proof -
  have wf: "alloc_wf s" and st: "mem_base s = 0x40000000" "total_pages s = sz div 4096"
    using assms(2) by (simp_all add: booted_def source_inv_def pool_initialised_def pool_at_image)
  have used: "list_all (\<lambda>k. page_used s k = page_in_image (relocate d (linked sec)) s k)
      [0 ..< unat (total_pages s)]"
    using assms(2) by (simp add: booted_def)
  have "4096 * (k + 1) \<le> unat sz" using assms(1,3) by (simp add: runs_apart_def)
  then show k: "k < unat (total_pages s)"
    by (simp add: st unat_div less_eq_div_iff_mult_less_eq Suc_le_eq [symmetric])
  show at: "unat (page_addr s k) = 0x40000000 + 4096 * k"
    using unat_page_addr [OF wf k] by (simp add: st)
  have "\<not> page_in_image (relocate d (linked sec)) s k"
    using assms(3) by (simp add: page_in_image_def at relocated_sel [OF assms(1)])
  then show "\<not> page_used s k" using used k by (simp add: list_all_iff)
qed

lemma relocated_first_alloc:
  assumes "runs_apart sec d sz" and "booted (relocate d (linked sec)) 0x40000000 sz s"
    and "n \<noteq> 0" and "4096 * unat n \<le> unat d"
  shows "fst (page_alloc n s) = 0x40000000"
proof -
  note low = relocated_low_pages_free [OF assms(1,2)]
  have n: "0 < unat n" using assms(3) by (simp add: unat_gt_0)
  have "unat n - 1 < unat (total_pages s)" using low(1) [of "unat n - 1"] n assms(4) by simp
  then have le: "unat n \<le> unat (total_pages s)" by simp
  have "\<not> page_used s j" if "j < unat n" for j using low(2) [of j] that assms(4) by simp
  then have "first_fit (page_used s) (unat (total_pages s)) (unat n) = Some 0"
    using le by (intro first_fit_SomeI) (simp_all add: free_run_iff)
  then have "fst (page_alloc n s) = page_addr s 0"
    using page_alloc_first_fit [OF assms(3), of s] le by (simp add: alloc_outcome_def word_le_nat_alt)
  moreover have "unat (page_addr s 0) = 0x40000000" using low(3) [of 0] n assms(4) by simp
  ultimately show ?thesis by (simp add: word_unat_eq_iff)
qed

text \<open>
  C12: But the stack is left out of the image that is reserved: after such a boot every byte of the
  stack the core runs on lies in a free page, and the first block handed out starts at the link
  address, so that one as large as the gap below the image contains the whole stack.
\<close>

theorem relocated_stack_unprotected:
  assumes "runs_apart sec d sz" and "booted (relocate d (linked sec)) 0x40000000 sz s"
  shows "(\<forall>x. end_stack sec - 0x4000 \<le> unat x \<and> unat x < end_stack sec \<longrightarrow> free_page s (page_base x)) \<and>
    (\<forall>n. n \<noteq> 0 \<and> 4096 * unat n \<le> unat d \<longrightarrow> fst (page_alloc n s) = 0x40000000) \<and>
    end_stack sec \<le> 0x40000000 + unat d"
proof (intro conjI allI impI)
  have ok: "sections_ok sec" and apart: "end_stack sec \<le> 0x40000000 + unat d" and al: "4096 dvd unat d"
    using assms(1) by (auto simp: runs_apart_def)
  show "end_stack sec \<le> 0x40000000 + unat d" by (rule apart)
  show "fst (page_alloc n s) = 0x40000000" if "n \<noteq> 0 \<and> 4096 * unat n \<le> unat d" for n
    using that relocated_first_alloc [OF assms] by blast
  fix x :: u64
  assume x: "end_stack sec - 0x4000 \<le> unat x \<and> unat x < end_stack sec"
  define k where "k = (unat x - 0x40000000) div 4096"
  have lo: "0x40000000 \<le> unat x" using x sections_ordered [OF ok] by linarith
  have "unat x - 0x40000000 < unat d" using x apart lo by linarith
  moreover obtain q where q: "unat d = 4096 * q" using al by (elim dvdE)
  ultimately have "k < q" by (simp add: k_def div_less_iff_less_mult mult.commute)
  then have fits: "4096 * (k + 1) \<le> unat d" by (simp add: q)
  note low = relocated_low_pages_free [OF assms fits]
  have wf: "alloc_wf s" using assms(2) by (simp add: booted_def source_inv_def)
  have "page_no x = page_no (page_addr s k)"
  proof -
    have split: "(4096 * 0x40000 + y) div 4096 = 0x40000 + y div 4096" for y :: nat
      by (rule div_mult_self4) simp
    have "unat x = 4096 * 0x40000 + (unat x - 0x40000000)"
      "0x40000000 + 4096 * k = 4096 * 0x40000 + 4096 * k" using lo by simp_all
    then have "unat x div 4096 = 0x40000 + k" "(0x40000000 + 4096 * k) div 4096 = 0x40000 + k"
      using split [of "unat x - 0x40000000"] split [of "4096 * k"] by (simp_all only: k_def [symmetric] div_mult_self1_is_m [of 4096] zero_less_numeral)
    then show ?thesis by (simp only: page_no_def low(3))
  qed
  then have "page_base x = page_addr s k" by (rule page_base_no [OF page_addr_aligned [OF wf low(1)]])
  then show "free_page s (page_base x)" using low(1,2) by (auto simp: free_page_def)
qed

section \<open>A concrete run\<close>

text \<open>The example tree is found in every memory that has its 16 bytes.\<close>

lemma demo_describes_at:
  assumes "\<And>k. k < 16 \<Longrightarrow> m (0x48000100 + k) = demo_blob (0x48000100 + k)"
  shows "fdt_describes demo_lib m 0x48000000 demo_region_list"
proof -
  have "load32 m (0x48000100 + 4 * j) = load32 demo_blob (0x48000100 + 4 * j)" if "j < 4" for j
  proof -
    have "j = 0 \<or> j = 1 \<or> j = 2 \<or> j = 3" using that by (simp add: word_less_nat_alt word_unat_eq_iff) linarith
    then show ?thesis
      using assms [of 0] assms [of 1] assms [of 2] assms [of 3] assms [of 4] assms [of 5] assms [of 6]
        assms [of 7] assms [of 8] assms [of 9] assms [of 10] assms [of 11] assms [of 12] assms [of 13]
        assms [of 14] assms [of 15]
      by (elim disjE) (simp_all add: load32_def)
  qed
  from this [of 0] this [of 1] this [of 2] this [of 3]
  have "reg_entry demo_lib m 2 2 0x48000100 0 = reg_entry demo_lib demo_blob 2 2 0x48000100 0"
    by (simp add: reg_entry_def cells_value_2)
  then have "node_entries demo_lib m 0x48000000 2 2 8 = demo_region_list"
    by (simp add: node_entries_def demo_entry demo_region_list_def)
  then show ?thesis
    unfolding fdt_describes_def Let_def
    by (simp add: node_ok_def next_memory_node_def demo_region_list_def MAX_MEM_REGIONS_def)
      (rule exI [of _ "[8]"], simp add: node_ok_def next_memory_node_def)
qed

lemma demo_start: "start_bss demo_sections = 0x40008040"
  by (simp add: start_bss_def start_data_def start_rodata_def start_text_def align_up_def demo_sections_def)

lemma demo_apart: "runs_apart demo_sections 0x80000 0x8000000"
  by (simp add: runs_apart_def sections_ok_def image_pages_def linked_def demo_ends)

lemma demo_relocated_memory:
  fixes k :: u64
  assumes "k < 16"
  shows "handed_over (relocate_symbols 0x80000 (linked_symbols demo_sections demo_placement)) demo_regs
    demo_blob (0x48000100 + k) = demo_blob (0x48000100 + k)"
proof -
  let ?syms = "relocate_symbols 0x80000 (linked_symbols demo_sections demo_placement)"
  have k: "unat k < 16" using assms by (simp add: word_less_nat_alt)
  have sum: "unat (c + k) = unat c + unat k" if "unat c < 2 ^ 60" for c
    by (rule unat_add_no_wrap) (use that k in simp)
  have bss: "bss_start ?syms = 0x40008040" "bss_size ?syms = 0xC" and args: "boot_args ?syms = 0x40088060"
    by (simp_all add: relocate_symbols_def linked_symbols_def demo_start demo_ends demo_placement_def)
  show ?thesis
    by (simp add: handed_over_def bss args clear_bss_eq sum save_boot_args_words put_words_outside)
qed

lemma demo_relocated_tree:
  "fdt_describes demo_lib (handed_over (relocate_symbols 0x80000
      (linked_symbols demo_sections demo_placement)) demo_regs (mem demo_boot)) (x0 demo_regs)
    [\<lparr>region_base = 0x40000000, region_size = 0x8000000\<rparr>]"
  "bss_boot_args demo_placement + 32 \<le> bss_len demo_sections"
  using demo_describes_at [OF demo_relocated_memory]
  by (simp_all add: demo_boot_def demo_regs_def demo_region_list_def demo_placement_def demo_sections_def)

lemma demo_relocated_boot:
  obtains sys' s' where "primary_entry demo_lib (relocate 0x80000 (linked demo_sections))
      (relocate_symbols 0x80000 (linked_symbols demo_sections demo_placement))
      demo_map0 demo_regs demo_sys demo_boot = Some (Semihosting 0x18 [0x20026, 0], sys', s')"
    and "booted (relocate 0x80000 (linked demo_sections)) 0x40000000 0x8000000 s'"
  using demo_relocated_tree relocated_boot [OF demo_apart, of demo_placement demo_regs demo_map0 demo_lib demo_boot demo_sys]
      that demo_map0_len
  by (auto simp: demo_regs_def)

theorem relocated_image_boots_witness:
  "\<exists>sys' s'. primary_entry demo_lib (relocate 0x80000 (linked demo_sections))
      (relocate_symbols 0x80000 (linked_symbols demo_sections demo_placement))
      demo_map0 demo_regs demo_sys demo_boot = Some (Semihosting 0x18 [0x20026, 0], sys', s') \<and>
    unat (sp_el1 sys') = 0x4001c0a0"
  using demo_relocated_tree relocated_image_boots [OF demo_apart, of demo_placement demo_regs demo_map0 demo_lib
        demo_boot demo_sys] demo_map0_len
  by (auto simp: demo_regs_def demo_ends)

theorem relocated_stack_unprotected_witness:
  "\<exists>sys' s'. primary_entry demo_lib (relocate 0x80000 (linked demo_sections))
      (relocate_symbols 0x80000 (linked_symbols demo_sections demo_placement))
      demo_map0 demo_regs demo_sys demo_boot = Some (Semihosting 0x18 [0x20026, 0], sys', s') \<and>
    free_page s' 0x4001B000 \<and> fst (page_alloc 0x80 s') = 0x40000000"
proof (rule demo_relocated_boot)
  fix sys' s'
  assume run: "primary_entry demo_lib (relocate 0x80000 (linked demo_sections))
      (relocate_symbols 0x80000 (linked_symbols demo_sections demo_placement))
      demo_map0 demo_regs demo_sys demo_boot = Some (Semihosting 0x18 [0x20026, 0], sys', s')"
    and boot: "booted (relocate 0x80000 (linked demo_sections)) 0x40000000 0x8000000 s'"
  note all = relocated_stack_unprotected [OF demo_apart boot]
  have "free_page s' (page_base 0x4001BFFF)" "fst (page_alloc 0x80 s') = 0x40000000"
    using all by (auto simp: demo_ends)
  moreover have "page_base 0x4001BFFF = 0x4001B000" by (simp add: page_base_def)
  ultimately show ?thesis using run by auto
qed

end
