(* ===== verification/Undefined.thy ===== *)
theory Undefined
  imports BootTheorems PagingTheorems
begin

text \<open>
  Undefined variadic reads. A run records in \<open>faults\<close> the reads of arguments that are missing or of
  another type, the format strings it runs past, and the overflows of signed arithmetic in
  \<open>vprintf\<close>. Here is which of them the code makes with the console set up, overflows apart: a call of
  \<open>kprintf\<close> exactly those a pure function of the format and the arguments lists, and a successful
  boot six. Accesses of memory are not recorded, and nothing is said of them here.
\<close>

section \<open>The faults of a format\<close>

text \<open>\<open>va_arg\<close> with a 64-bit integer, with a 32-bit one and with a pointer to characters.\<close>

fun long_fault :: "varg list \<Rightarrow> fault list" where
  "long_fault [] = [Missing_vararg]"
| "long_fault (A64 v # args) = []"
| "long_fault (A32 v # args) = [Vararg_width]"
| "long_fault (APtr p # args) = [Vararg_kind]"
| "long_fault (AStr p # args) = [Vararg_kind]"

fun char_fault :: "varg list \<Rightarrow> fault list" where
  "char_fault [] = [Missing_vararg]"
| "char_fault (A64 v # args) = [Vararg_width]"
| "char_fault (A32 v # args) = []"
| "char_fault (APtr p # args) = [Vararg_kind]"
| "char_fault (AStr p # args) = [Vararg_kind]"

fun str_fault :: "varg list \<Rightarrow> fault list" where
  "str_fault [] = [Missing_vararg]"
| "str_fault (AStr p # args) = []"
| "str_fault (a # args) = [Vararg_kind]"

text \<open>What a conversion reads, if anything.\<close>

definition conv_fault :: "char \<Rightarrow> (varg list \<Rightarrow> fault list) option" where
  "conv_fault d =
     (if is_num_conv d then Some long_fault
      else if d = CHR ''c'' then Some char_fault
      else if d = CHR ''s'' then Some str_fault
      else None)"

fun format_faults :: "string \<Rightarrow> varg list \<Rightarrow> fault list" where
  "format_faults [] args = []"
| "format_faults (c # ptr) args =
     (if c \<noteq> CHR ''%'' then format_faults ptr args
      else case ptr of [] \<Rightarrow> [Format_overrun]
      | d # ptr \<Rightarrow>
          if d = CHR ''l'' then
            (case ptr of [] \<Rightarrow> long_fault args @ [Format_overrun]
             | e # ptr \<Rightarrow> long_fault args @ format_faults ptr (tl args))
          else
            (case conv_fault d of None \<Rightarrow> format_faults ptr args
             | Some f \<Rightarrow> f args @ format_faults ptr (tl args)))"

text \<open>
  The faults of calls. What \<open>vprintf\<close> does with a value it should not have read is left out: with
  the least \<^verbatim>\<open>long\<close> for an argument it overflows.
\<close>

definition call_faults :: "kernel \<Rightarrow> fault list" where
  "call_faults s = filter (\<lambda>f. f \<noteq> Int_overflow) (faults s)"

text \<open>The state grows by faults \<open>fs\<close>, and the console stays up.\<close>

definition grows :: "kernel \<Rightarrow> fault list \<Rightarrow> kernel \<Rightarrow> bool" where
  "grows s fs t \<longleftrightarrow> (console_up s \<longrightarrow> console_up t \<and> call_faults t = call_faults s @ fs)"

lemma grows_refl [intro!, simp]: "grows s [] s"
  by (simp add: grows_def)

lemma grows_send [simp]: "grows s fs (send cs t) \<longleftrightarrow> grows s fs t"
  by (simp add: grows_def call_faults_def send_def console_up_def)

lemma grows_fault:
  "f \<noteq> Int_overflow \<Longrightarrow> grows s fs t \<Longrightarrow> grows s (fs @ [f]) (add_fault f t)"
  by (simp add: grows_def call_faults_def add_fault_def console_up_def)

lemma grows_overflow [simp]: "grows s fs (add_fault Int_overflow t) \<longleftrightarrow> grows s fs t"
  by (simp add: grows_def call_faults_def add_fault_def console_up_def)

lemma grows_junk [simp]: "grows s fs (snd (junk t)) \<longleftrightarrow> grows s fs t"
  by (simp add: grows_def call_faults_def junk_def console_up_def)

text \<open>Output adds none; a read adds what its argument deserves.\<close>

lemma grows_call_putc: "grows s fs t \<Longrightarrow> grows s fs (call_putc c t)"
  by (cases "console_up s") (simp_all add: grows_def call_putc_send call_faults_def send_def console_up_def)

lemma grows_int_add: "grows s fs t \<Longrightarrow> grows s fs (snd (int_add n k t))"
  by (simp add: int_add_def)

lemma grows_putc_count: "grows s fs t \<Longrightarrow> grows s fs (snd (putc_count c n t))"
  by (simp add: putc_count_def grows_int_add grows_call_putc)

lemma grows_puts: "grows s fs t \<Longrightarrow> grows s fs (snd (puts cs n t))"
  by (induction cs arbitrary: n t) (simp_all add: split_beta Let_def grows_putc_count)

lemma grows_print_num:
  "base = 10 \<or> base = 16 \<Longrightarrow> grows s fs t \<Longrightarrow> grows s fs (snd (print_num v base n t))"
  by (auto simp: print_num_def grows_puts)

lemma grows_neg_long: "grows s fs t \<Longrightarrow> grows s fs (snd (neg_long v t))"
  by (simp add: neg_long_def)

lemmas grows_output = grows_call_putc grows_int_add grows_putc_count grows_puts grows_print_num
  grows_neg_long

lemma grows_va:
  assumes "grows s fs t"
  shows "grows s (fs @ long_fault args) (snd (snd (va_long args t)))"
    and "grows s (fs @ char_fault args) (snd (snd (va_char args t)))"
    and "grows s (fs @ str_fault args) (snd (snd (va_str args t)))"
  using assms
  by (cases args rule: long_fault.cases, simp_all add: split_beta Let_def grows_fault,
      cases args rule: char_fault.cases, simp_all add: split_beta Let_def grows_fault,
      cases "(args, t)" rule: va_str.cases, simp_all add: grows_fault)

lemma va_rest [simp]:
  shows "fst (snd (va_long args t)) = tl args" and "fst (snd (va_char args t)) = tl args"
    and "fst (snd (va_str args t)) = tl args"
  by (cases args rule: long_fault.cases, simp_all add: split_beta Let_def,
      cases args rule: char_fault.cases, simp_all add: split_beta Let_def,
      cases "(args, t)" rule: va_str.cases, simp_all)

lemma grows_conv_hex:
  assumes "grows s fs t"
  shows "fst (conv_hex c args n t) = tl args"
    and "grows s (fs @ long_fault args) (snd (snd (conv_hex c args n t)))"
  using assms
  by (simp_all add: conv_hex_def split_beta Let_def grows_output grows_va)

text \<open>What is left of the arguments after a conversion, and what it adds.\<close>

definition conv_reads :: "char \<Rightarrow> varg list \<Rightarrow> varg list \<times> fault list" where
  "conv_reads d args = (case conv_fault d of None \<Rightarrow> (args, []) | Some f \<Rightarrow> (tl args, f args))"

lemma grows_conv:
  assumes "grows s fs t"
  shows "fst (conv d args n t) = fst (conv_reads d args)"
    and "grows s (fs @ snd (conv_reads d args)) (snd (snd (conv d args n t)))"
proof -
  have "fst (conv d args n t) = fst (conv_reads d args) \<and>
    grows s (fs @ snd (conv_reads d args)) (snd (snd (conv d args n t)))"
  proof (cases "d \<in> {CHR ''x'', CHR ''p'', CHR ''c'', CHR ''s'', CHR ''d'', CHR ''u''}")
    case True
    then show ?thesis
      using assms by (auto simp: conv_def conv_reads_def conv_fault_def is_num_conv_def split_beta
          Let_def grows_output grows_va grows_conv_hex)
  next
    case False
    then show ?thesis
      using assms by (auto simp: conv_def conv_reads_def conv_fault_def is_num_conv_def grows_output)
  qed
  then show "fst (conv d args n t) = fst (conv_reads d args)"
    and "grows s (fs @ snd (conv_reads d args)) (snd (snd (conv d args n t)))" by blast+
qed

lemma format_faults_conv:
  "d \<noteq> CHR ''l'' \<Longrightarrow> format_faults (CHR ''%'' # d # ptr) args =
     snd (conv_reads d args) @ format_faults ptr (fst (conv_reads d args))"
  by (simp add: conv_reads_def split: option.split)

lemma vprintf_faults:
  "grows s0 fs s \<Longrightarrow> grows s0 (fs @ format_faults fmt args) (snd (vprintf_loop fmt args n s))"
proof (induction fmt args n s arbitrary: fs rule: vprintf_loop.induct)
  case (1 args n s)
  then show ?case by simp
next
  case (2 c ptr args n s)
  show ?case
  proof (cases "c = CHR ''%''")
    case False
    let ?r = "if c = CHR 0x0A then putc_count (CHR 0x0D) n s else (n, s)"
    let ?q = "putc_count c (fst ?r) (snd ?r)"
    have "grows s0 fs (snd ?q)" using "2.prems" by (simp add: grows_output)
    then have "grows s0 (fs @ format_faults ptr args) (snd (vprintf_loop ptr args (fst ?q) (snd ?q)))"
      using "2.IH"(1) [OF False refl prod.collapse refl prod.collapse] by blast
    then show ?thesis using False by (simp add: split_beta Let_def)
  next
    case percent: True
    show ?thesis
    proof (cases ptr)
      case Nil
      have "grows s0 fs (snd (snd (conv (CHR 0x00) args n s)))"
        using grows_conv(2) [OF "2.prems", of "CHR 0x00" args n]
        by (simp add: conv_reads_def conv_fault_def is_num_conv_def)
      then show ?thesis using percent Nil by (simp add: split_beta Let_def grows_fault)
    next
      case (Cons d ptr')
      show ?thesis
      proof (cases "d = CHR ''l''")
        case False
        obtain as m t where r: "conv d args n s = (as, m, t)" by (metis prod_cases3)
        have "as = fst (conv_reads d args)" "grows s0 (fs @ snd (conv_reads d args)) t"
          using grows_conv [OF "2.prems", of d args n] r by simp_all
        moreover have "grows s0 gs t \<Longrightarrow> grows s0 (gs @ format_faults ptr' as) (snd (vprintf_loop ptr' as m t))" for gs
          using "2.IH"(3) [OF _ Cons False r [symmetric] refl refl] percent by simp
        ultimately show ?thesis
          using percent Cons False r format_faults_conv [OF False, of ptr' args]
          by (simp del: format_faults.simps) (metis append_assoc)
      next
        case ell: True
        show ?thesis
        proof (cases ptr')
          case Nil
          obtain as m t where r: "conv_hex (CHR 0x00) args n s = (as, m, t)" by (metis prod_cases3)
          have "grows s0 (fs @ long_fault args) t"
            using grows_conv_hex(2) [OF "2.prems", where c = "CHR 0x00" and args = args and n = n] r by simp
          from grows_fault [OF _ this, of Format_overrun] percent Cons ell Nil r
          show ?thesis by simp
        next
          case ptr': (Cons e ptr'')
          obtain as m t where r: "conv_hex e args n s = (as, m, t)" by (metis prod_cases3)
          have as: "as = tl args" and "grows s0 (fs @ long_fault args) t"
            using grows_conv_hex [OF "2.prems", where c = e and args = args and n = n] r by simp_all
          moreover have "grows s0 gs t \<Longrightarrow> grows s0 (gs @ format_faults ptr'' as) (snd (vprintf_loop ptr'' as m t))" for gs
            using "2.IH"(2) [OF _ Cons ell ptr' r [symmetric] refl refl] percent by simp
          ultimately have "grows s0 ((fs @ long_fault args) @ format_faults ptr'' as)
              (snd (vprintf_loop ptr'' as m t))" by blast
          then show ?thesis using percent Cons ell ptr' r as by simp
        qed
      qed
    qed
  qed
qed

lemma grows_klog:
  assumes "grows s fs t"
  shows "grows s (fs @ format_faults fmt args) (klog fmt args t)"
proof (cases "console_up s")
  case True
  then have "console_up t" using assms by (simp add: grows_def)
  then show ?thesis
    using vprintf_faults [OF assms, of fmt args 0] by (simp add: kprintf_def vprintf_def console_up_def)
qed (simp add: grows_def)

text \<open>
  With the console set up, a call of \<open>kprintf\<close> makes exactly the undefined reads that the format
  and the arguments determine, in the order of the conversions; a format that matches its arguments
  makes none, nor does any arithmetic overflow then.
\<close>

theorem kprintf_faults:
  assumes "console_up s"
  shows "call_faults (klog fmt args s) = call_faults s @ format_faults fmt args \<and>
    (fmt_ok fmt args \<longrightarrow> faults (klog fmt args s) = faults s)"
proof -
  have "call_faults (klog fmt args s) = call_faults s @ format_faults fmt args"
    using grows_klog [of s "[]" s fmt args] assms by (simp add: grows_def)
  moreover have "faults (klog fmt args s) = faults s" if "fmt_ok fmt args"
    using klog_send [OF assms that] by (simp add: send_def)
  ultimately show ?thesis by blast
qed

theorem kprintf_faults_witness:
  "call_faults (klog ''PAGE: Total pages: %u, Bitmap requires: %u bytes (%u pages)\<newline>'' [A64 7, A64 1]
     console_kernel) = [Missing_vararg]"
  using kprintf_faults [OF console_kernel_up]
  by (simp add: console_kernel_def conv_fault_def is_num_conv_def call_faults_def)

section \<open>The steps of the boot\<close>

lemma grows_fields [simp]:
  "grows s fs (t\<lparr>mem := m\<rparr>) \<longleftrightarrow> grows s fs t" "grows s fs (t\<lparr>mem_base := b\<rparr>) \<longleftrightarrow> grows s fs t"
  "grows s fs (t\<lparr>total_pages := n\<rparr>) \<longleftrightarrow> grows s fs t" "grows s fs (t\<lparr>bitmap := b\<rparr>) \<longleftrightarrow> grows s fs t"
  by (simp_all add: grows_def console_up_def call_faults_def)

lemma grows_klog_ok: "fmt_ok fmt args \<Longrightarrow> grows s fs t \<Longrightarrow> grows s fs (klog fmt args t)"
  by (cases "console_up s") (simp_all add: grows_def klog_send call_faults_def send_def console_up_def)

text \<open>A message with the faults \<open>gs\<close>.\<close>

lemma grows_klog_faults:
  "format_faults fmt args = gs \<Longrightarrow> grows s fs t \<Longrightarrow> grows s (fs @ gs) (klog fmt args t)"
  using grows_klog by blast

lemmas read_faults = conv_fault_def is_num_conv_def

lemma grows_for_words:
  assumes "grows s fs t" and "\<And>k u. grows s fs u \<Longrightarrow> grows s fs (f k u)"
  shows "grows s fs (for_words i n f t)"
  using assms by (rule for_words_invariant)

lemma grows_bitmap [simp]:
  "grows s fs (bm_set k t) \<longleftrightarrow> grows s fs t" "grows s fs (bm_zero_byte k t) \<longleftrightarrow> grows s fs t"
  by (simp_all add: bm_set_def bm_zero_byte_def)

text \<open>A dump of the allocator makes none.\<close>

lemma grows_page_dump_loop:
  "page_dump_loop i b c t = Some u \<Longrightarrow> grows s fs t \<longrightarrow> grows s fs u"
proof (rule page_dump_loop.raw_induct [where P = "\<lambda>i b c t u. grows s fs t \<longrightarrow> grows s fs u"])
  fix self :: "u64 \<Rightarrow> u64 \<Rightarrow> u8 \<Rightarrow> kernel \<Rightarrow> kernel option" and i b c t u
  assume rec: "\<And>i b c t u. self i b c t = Some u \<Longrightarrow> grows s fs t \<longrightarrow> grows s fs u"
  assume run: "(if i \<le> total_pages t then
        let status = if i < total_pages t then page_status i t else 0
        in if status \<noteq> c \<or> i = total_pages t then
             let block_start = mem_base t + b * PAGE_SIZE; block_end = mem_base t + i * PAGE_SIZE;
                 block_size_pages = i - b;
                 t = klog ''  [0x%lx - 0x%lx] %s (%u pages)\<newline>''
                       [A64 block_start, A64 (block_end - 1),
                        AStr (Some (if c \<noteq> 0 then ''USED'' else ''FREE'')), A64 block_size_pages] t
             in self (i + 1) i status t
           else self (i + 1) b c t
      else Some t) = Some u"
  show "grows s fs t \<longrightarrow> grows s fs u"
  proof
    assume t: "grows s fs t"
    show "grows s fs u"
      using run t
      by (auto simp: Let_def is_num_conv_def grows_klog_ok split: if_splits dest!: rec)
  qed
qed

lemma grows_page_dump_status: "page_dump_status t = Some u \<Longrightarrow> grows s fs t \<Longrightarrow> grows s fs u"
  by (auto simp: page_dump_status_def Let_def is_num_conv_def grows_klog_ok
      split: if_splits dest!: grows_page_dump_loop [where s = s and fs = fs])

text \<open>
  The message at the start of \<open>page_init\<close> reads a pointer as an integer, and the third conversion of
  the message about the bitmap has no argument.
\<close>

lemma grows_initializing:
  "grows s fs t \<Longrightarrow> grows s (fs @ [Vararg_kind])
     (klog ''PAGE: Initializing allocator at %p (size: %u bytes)\<newline>'' [APtr p, A64 n] t)"
  by (rule grows_klog_faults) (simp add: read_faults)

lemma grows_total_pages:
  "grows s (fs @ [f]) t \<Longrightarrow> grows s (fs @ [f, Missing_vararg])
     (klog ''PAGE: Total pages: %u, Bitmap requires: %u bytes (%u pages)\<newline>'' [A64 a, A64 b] t)"
  using grows_klog_faults [of "''PAGE: Total pages: %u, Bitmap requires: %u bytes (%u pages)\<newline>''"
      "[A64 a, A64 b]" "[Missing_vararg]" s "fs @ [f]" t]
  by (simp add: read_faults)

lemma grows_page_init:
  assumes "grows s fs t" and "fst (page_init lk base sz t)"
  shows "grows s (fs @ [Vararg_kind, Missing_vararg]) (snd (page_init lk base sz t))"
  using assms(2) grows_initializing [OF assms(1)]
  by (auto simp: page_init_def Let_def is_num_conv_def grows_total_pages grows_klog_ok grows_for_words
      split: if_splits)

text \<open>So do both messages of a reservation.\<close>

lemma grows_reserved:
  "grows s fs t \<Longrightarrow> grows s (fs @ [Vararg_kind])
     (klog ''PAGE: Reserved %u pages at %p (index %u)\<newline>'' [A64 n, APtr p, A64 i] t)"
  by (rule grows_klog_faults) (simp add: read_faults)

lemma grows_reserve_page:
  "grows s fs t \<Longrightarrow> fst (reserve_page p n t) \<Longrightarrow>
    grows s (fs @ [Vararg_kind]) (snd (reserve_page p n t))"
  by (auto simp: reserve_page_def Let_def split: if_splits intro!: grows_reserved grows_for_words)

lemma grows_reserving:
  "grows s fs t \<Longrightarrow> grows s (fs @ [Vararg_kind])
     (klog ''Reserving kernel image pages: start=%p, size=0x%lx bytes, pages=%u\<newline>''
       [APtr p, A64 n, A64 k] t)"
  by (rule grows_klog_faults) (simp add: read_faults)

lemma grows_reserve_image:
  assumes "grows s fs t" and "fst (reserve_kerenel_img_pages lk t)"
  shows "grows s (fs @ [Vararg_kind, Vararg_kind]) (snd (reserve_kerenel_img_pages lk t))"
  using assms(2) grows_reserve_page [OF grows_reserving [OF assms(1)]]
  by (auto simp: reserve_kerenel_img_pages_def Let_def split_beta split: if_splits)

text \<open>The memory map is printed with two \<^verbatim>\<open>%d\<close> too few bits wide, for one region.\<close>

lemma grows_print_memory_map:
  assumes "grows s fs t" and "region_count mm = 1"
  shows "grows s (fs @ [Vararg_width, Vararg_width]) (print_memory_map mm t)"
proof -
  have head: "grows s (fs @ [Vararg_width]) (klog ''Memory Map (Total Regions: %d):\<newline>'' [A32 n] t)" for n
    using assms(1) by (rule grows_klog_faults [rotated]) (simp add: read_faults)
  have line: "grows s (gs @ [Vararg_width]) (print_region mm i u)" if "grows s gs u" for gs i u
    unfolding print_region_def using that by (rule grows_klog_faults [rotated]) (simp add: read_faults)
  show ?thesis using line [OF head, of 0] by (simp add: print_memory_map_def assms(2))
qed

section \<open>A successful boot makes six undefined reads\<close>

text \<open>
  C13: A boot that succeeds makes exactly six undefined variadic reads, on every machine and in this
  order: \<^verbatim>\<open>%d\<close> reads the number of regions and the index of the one region as a \<^verbatim>\<open>long\<close> where an
  \<^verbatim>\<open>int\<close> is passed; \<open>page_init\<close> prints the start of the region, a \<^verbatim>\<open>void *\<close>, with \<^verbatim>\<open>%p\<close>, which
  reads an \<^verbatim>\<open>unsigned long\<close>, and its message about the bitmap has a conversion without an argument;
  the two messages about the reservation of the image print the image start with \<^verbatim>\<open>%p\<close> again. No
  format string is run past, no console function is missing and no loop is left undecided. The
  overflows that printing an unspecified number may cause are left out of the list, and accesses of
  memory are not part of it.
\<close>

theorem boot_faults:
  assumes "boot_env lib lk args base sz s" and "length (regions mmap) = MAX_MEM_REGIONS"
    and "main lib lk args mmap s = Some (0, s')"
  shows "filter (\<lambda>f. f \<noteq> Int_overflow) (faults s') = filter (\<lambda>f. f \<noteq> Int_overflow) (faults s) @
    [Vararg_width, Vararg_width, Vararg_kind, Missing_vararg, Vararg_kind, Vararg_kind]"
proof -
  have env: "fdt_check_header lib (mem s) (load64 (mem s) args) = 0"
    "fdt_describes lib (mem s) (load64 (mem s) args) [\<lparr>region_base = base, region_size = sz\<rparr>]"
    using assms(1) by (simp_all add: boot_env_def Let_def)
  obtain mm t where t: "memory_setup lib lk args mmap s =
      Some (setup_region lk base sz (print_memory_map mm t))"
    "region_count mm = 1" "console_up t" "faults t = faults s"
    by (rule memory_setup_region [OF env assms(2), where lk = lk]) blast
  let ?u = "page_init lk base sz (print_memory_map mm t)"
  let ?v = "reserve_kerenel_img_pages lk (snd ?u)"
  have ok: "fst ?u" "fst ?v" and dump: "map_option (\<lambda>s. (0, klog ''Hello World!\<newline>'' [] s))
      (page_dump_status (snd ?v)) = Some (0, s')"
    using assms(3) by (auto simp: main_def t(1) setup_region_def split_beta Let_def split: if_splits)
  have "grows t [Vararg_width, Vararg_width] (print_memory_map mm t)"
    using grows_print_memory_map [OF grows_refl t(2), of t] by simp
  from grows_reserve_image [OF grows_page_init [OF this ok(1)] ok(2)]
  have "grows t [Vararg_width, Vararg_width, Vararg_kind, Missing_vararg, Vararg_kind, Vararg_kind] (snd ?v)"
    by simp
  then have "grows t [Vararg_width, Vararg_width, Vararg_kind, Missing_vararg, Vararg_kind, Vararg_kind] s'"
    using dump grows_page_dump_status by (auto intro!: grows_klog_ok)
  then show ?thesis using t(3,4) by (simp add: grows_def call_faults_def)
qed

theorem boot_faults_witness:
  "\<exists>s'. main demo_lib demo_linker 0x40013000 demo_map0 demo_boot = Some (0, s') \<and>
     filter (\<lambda>f. f \<noteq> Int_overflow) (faults s') =
       [Vararg_width, Vararg_width, Vararg_kind, Missing_vararg, Vararg_kind, Vararg_kind]"
proof (rule demo_booted)
  fix s'
  assume run: "main demo_lib demo_linker 0x40013000 demo_map0 demo_boot = Some (0, s')"
  then show ?thesis using boot_faults [OF demo_env demo_map0_len run] by (simp add: demo_boot_def)
qed

end
