(* ===== verification/CStringTheorems.thy ===== *)
theory CStringTheorems
  imports CStringProps
begin

text \<open>
  The properties of the string functions: overlap-safe copying, comparison, the scans of a
  terminated string and the reading of numerals, each with a concrete instance.
\<close>

text \<open>
  C27: \<open>memmove\<close> copies a block as if through a temporary array: whatever the overlap of the two
  blocks, every byte of the destination block gets the byte the source block had at the same
  offset, nothing else changes, and the destination is returned.
\<close>

theorem memmove_as_if_buffered:
  assumes "block dest num" and "block src num"
  shows "memmove dest src num m =
    (dest, \<lambda>x. if x - dest < num then m (src + (x - dest)) else m x)"
  using memmove_copied [OF assms, of m] by (simp add: copied_def)

theorem memmove_as_if_buffered_witness:
  "map (snd (memmove 0x1002 0x1000 4 (\<lambda>x. if x = 0x1003 then 7 else ucast x))) [0x1001, 0x1002, 0x1003, 0x1004, 0x1005, 0x1006]
    = [1, 0, 1, 2, 7, 6]"
proof -
  have "block (0x1002 :: u64) 4" and "block (0x1000 :: u64) 4"
    by (simp_all add: block_def)
  from memmove_as_if_buffered [OF this]
  show ?thesis by simp
qed

text \<open>
  When the blocks are disjoint, which is what the contract of \<open>memcpy\<close> asks for, \<open>memcpy\<close> and
  \<open>memmove\<close> are the same function.
\<close>

theorem memcpy_is_memmove:
  assumes "block dest num" and "block src num"
    and "unat dest + unat num \<le> unat src \<or> unat src + unat num \<le> unat dest"
  shows "memcpy dest src num m = memmove dest src num m"
proof -
  have "src + j \<noteq> dest + i" if "i < num" "j < num" for i j
  proof
    assume "src + j = dest + i"
    then have "unat src + unat j = unat dest + unat i"
      using block_offset [OF assms(1) that(1)] block_offset [OF assms(2) that(2)] by metis
    then show False using assms(3) that by (auto simp: word_less_nat_alt)
  qed
  then show ?thesis
    using memcpy_copied memmove_copied [OF assms(1,2)] by simp
qed

theorem memcpy_is_memmove_witness:
  "(\<forall>m. memcpy 0x2000 0x1000 0x800 m = memmove 0x2000 0x1000 0x800 m) \<and>
   snd (memcpy 0x1001 0x1000 2 (\<lambda>x. ucast x)) 0x1002 = 0 \<and>
   snd (memmove 0x1001 0x1000 2 (\<lambda>x. ucast x)) 0x1002 = 1"
proof (intro conjI allI)
  show "memcpy 0x2000 0x1000 0x800 m = memmove 0x2000 0x1000 0x800 m" for m
    by (rule memcpy_is_memmove) (simp_all add: block_def)
  show "snd (memcpy 0x1001 0x1000 2 (\<lambda>x. ucast x)) 0x1002 = 0"
    by (simp add: memcpy_def copy_forward.simps)
  show "snd (memmove 0x1001 0x1000 2 (\<lambda>x. ucast x)) 0x1002 = 1"
    by (simp add: memmove_def copy_backward.simps)
qed

lemma sgn_byte_diff: "(a :: u8) \<noteq> b \<Longrightarrow> sgn (uint a - uint b) = (if a < b then -1 else 1)"
  by (auto simp: word_less_def sgn_if word_uint_eq_iff)

text \<open>
  C32: \<open>memcmp\<close> decides the lexicographic order of the two blocks as unsigned bytes: it is zero
  exactly when the blocks are equal, and otherwise has the sign of the first difference; it reads
  at most \<open>num\<close> bytes and always returns.
\<close>

theorem memcmp_lexicographic:
  "sgn (memcmp p q num m) =
     (let xs = map (\<lambda>i. m (p + word_of_nat i)) [0 ..< unat num];
          ys = map (\<lambda>i. m (q + word_of_nat i)) [0 ..< unat num]
      in if xs = ys then 0 else if (xs, ys) \<in> lexord {(a, b). a < b} then -1 else 1)"
proof (induction p q num m rule: memcmp.induct)
  case (1 p q num m)
  show ?case
  proof (cases "num = 0")
    case True
    then show ?thesis by (simp add: memcmp.simps)
  next
    case False
    have un: "[0 ..< unat num] = 0 # map Suc [0 ..< unat (num - 1)]"
      using unat_pred [OF False] by (simp add: map_Suc_upt upt_conv_Cons)
    show ?thesis
    proof (cases "m p = m q")
      case True
      then show ?thesis
        using "1.IH" [OF False]
        by (subst memcmp.simps) (simp add: un False Let_def comp_def add.assoc)
    next
      case diff: False
      then have "sgn (uint (m p) - uint (m q)) = (if m p < m q then -1 else 1)"
        by (rule sgn_byte_diff)
      with diff show ?thesis
        by (subst memcmp.simps) (simp add: un False Let_def comp_def)
    qed
  qed
qed

text \<open>
  C38: On a NUL-terminated string every scanning function returns: \<open>strlen\<close> gives the length,
  \<open>strnlen\<close> the length cut at its bound, \<open>strchr\<close> the first and \<open>strrchr\<close> the last occurrence of
  the byte, the terminator included, or the null pointer.
\<close>

theorem string_scans:
  assumes "c_string m p cs" and "length cs < 2 ^ 64"
  shows "strlen p m = Some (word_of_nat (length cs)) \<and>
    unat (strnlen p maxlen m) = min (unat maxlen) (length cs) \<and>
    strchr p c m =
      Some (case first_index (Suc (length cs)) (\<lambda>i. m (p + i) = ucast c) of
        None \<Rightarrow> 0 | Some i \<Rightarrow> p + i) \<and>
    strrchr p c m = Some (last_at p (cs @ [0]) (ucast c) 0)"
  using assms strnlen_loop_string [of m p 0 cs maxlen]
  by (simp add: strlen_string strchr_string strrchr_loop_string strrchr_def strnlen_def)

theorem string_scans_witness:
  "let m = (\<lambda>x. 0)(0x100 := 0x61, 0x101 := 0x61)
   in strlen 0x100 m = Some 2 \<and> unat (strnlen 0x100 1 m) = 1 \<and>
      strchr 0x100 0x61 m = Some 0x100 \<and> strrchr 0x100 0x61 m = Some 0x101"
proof -
  let ?m = "(\<lambda>x. 0)(0x100 := 0x61, 0x101 := 0x61) :: memory"
  have "c_string ?m 0x100 [0x61, 0x61]" by simp
  then have "strlen 0x100 ?m = Some 2 \<and> unat (strnlen 0x100 1 ?m) = 1 \<and>
      strchr 0x100 0x61 ?m = Some 0x100 \<and> strrchr 0x100 0x61 ?m = Some 0x101"
    using string_scans [of ?m "0x100" "[0x61, 0x61]" 1 "0x61"] by (simp add: first_index_Suc)
  then show ?thesis by (simp only: Let_def)
qed

text \<open>
  C28: \<open>strtoul\<close> reads back what \<open>itoa\<close> writes: for every base from 2 to 16 and every 64-bit number
  the text of the number, read in that base or, for base ten, with automatic detection, gives the
  number again and leaves the end pointer on the terminating NUL.
\<close>

theorem strtoul_reads_itoa:
  assumes "2 \<le> unat b" and "unat b \<le> 16"
    and "base = uint b \<or> base = 0 \<and> b = 10"
    and "itoa num b = Some str" and "c_string m p (bytes str)"
  shows "strtoul p endptr base m =
    Some (num, if endptr \<noteq> 0 then store64 m endptr (p + word_of_nat (length str)) else m)"
proof -
  have str: "str = numeral_in (unat b) (unat num)"
    using itoa_spec [of b num] assms(1,2,4) by auto
  have "base = int (unat b) \<or> base = 0 \<and> unat b = 10"
    using assms(3) uint_nat [of b] by (elim disjE) simp_all
  from strtoul_numeral [OF assms(1,2) this, of m p "unat num" endptr]
  show ?thesis using assms(5) by (simp add: str)
qed

theorem strtoul_reads_itoa_witness:
  "strtoul 0x100 0 16 (\<lambda>x. if x = 0x100 then 0x66 else if x = 0x101 then 0x65 else 0) =
    Some (0xFE, \<lambda>x. if x = 0x100 then 0x66 else if x = 0x101 then 0x65 else 0)"
proof -
  let ?m = "\<lambda>x :: u64. if x = 0x100 then 0x66 else if x = 0x101 then 0x65 else (0 :: u8)"
  have "itoa 0xFE 16 = Some ''fe''"
    by (simp add: itoa_spec numeral_in.simps digit_of_def char_of_def bit_0)
  moreover have "c_string ?m 0x100 (bytes ''fe'')"
    by (simp add: of_char_def)
  ultimately show ?thesis
    using strtoul_reads_itoa [of 16 16 "0xFE" "''fe''" ?m "0x100" 0] by simp
qed

end
