(* ===== verification/RegisterTool.thy ===== *)
theory RegisterTool
  imports RegisterDecoder
begin

text \<open>
  The command line of the register decoder, \<^verbatim>\<open>tools/register_decoder/main.c\<close>, with what it uses
  of the C library. An \<open>option\<close> is the outcome of code that may leave the defined part of the
  language, \<open>None\<close> standing for reading past the end of the name buffer.
\<close>

section \<open>The C library\<close>

definition NUL :: char where
  "NUL = CHR 0x00"

definition is_space :: "char \<Rightarrow> bool" where
  "is_space c \<longleftrightarrow> c \<in> {CHR '' '', CHR 0x09, CHR 0x0A, CHR 0x0B, CHR 0x0C, CHR 0x0D}"

definition ascii_lower :: "char \<Rightarrow> char" where
  "ascii_lower c =
     (if 65 \<le> (of_char c :: nat) \<and> (of_char c :: nat) \<le> 90 then char_of (of_char c + 32 :: nat) else c)"

text \<open>\<^verbatim>\<open>strcasecmp(a, b) == 0\<close>.\<close>

definition same_ignoring_case :: "string \<Rightarrow> string \<Rightarrow> bool" where
  "same_ignoring_case a b \<longleftrightarrow> map ascii_lower a = map ascii_lower b"

text \<open>\<^verbatim>\<open>strncpy(buf, src, n)\<close> copies at most \<open>n\<close> characters and pads with NULs: it writes no NUL
  when the source has \<open>n\<close> characters or more. A buffer is read as a string up to its first NUL.\<close>

definition strncpy_buf :: "nat \<Rightarrow> string \<Rightarrow> string" where
  "strncpy_buf n src = take n (src @ replicate n NUL)"

definition c_str :: "string \<Rightarrow> string option" where
  "c_str buf = (if NUL \<in> set buf then Some (takeWhile (\<lambda>c. c \<noteq> NUL) buf) else None)"

text \<open>The digits of a hexadecimal numeral, with what follows them.\<close>

fun hex_digits :: "string \<Rightarrow> nat \<Rightarrow> nat \<times> string" where
  "hex_digits [] acc = (acc, [])"
| "hex_digits (c # cs) acc =
     (case digit_value (of_char c) of
        None \<Rightarrow> (acc, c # cs)
      | Some d \<Rightarrow> hex_digits cs (acc * 16 + nat d))"

definition hex_sign :: "string \<Rightarrow> bool \<times> string" where
  "hex_sign str =
     (case str of
        c # cs \<Rightarrow> if c = CHR ''-'' then (True, cs) else if c = CHR ''+'' then (False, cs) else (False, str)
      | [] \<Rightarrow> (False, str))"

definition hex_prefix :: "string \<Rightarrow> bool \<times> string" where
  "hex_prefix str =
     (case str of
        c # d # cs \<Rightarrow> if c = CHR ''0'' \<and> (d = CHR ''x'' \<or> d = CHR ''X'') then (True, cs) else (False, str)
      | _ \<Rightarrow> (False, str))"

text \<open>The converted value, saturated at the largest number.\<close>

definition hex_value :: "bool \<Rightarrow> nat \<Rightarrow> u64" where
  "hex_value neg v =
     (if v \<ge> 2 ^ 64 then - 1 else if neg then - word_of_nat v else word_of_nat v)"

text \<open>\<^verbatim>\<open>strtoull(str, NULL, 16)\<close>.\<close>

definition strtoull_16 :: "string \<Rightarrow> u64" where
  "strtoull_16 str =
     (let (neg, cs) = hex_sign (dropWhile is_space str);
          (prefixed, cs) = hex_prefix cs
      in hex_value neg (fst (hex_digits cs 0)))"

text \<open>\<^verbatim>\<open>scanf("%63s", buf)\<close> and \<^verbatim>\<open>scanf("%lx", &val)\<close> with the rest of the input; \<open>None\<close> is a
  result other than 1.\<close>

definition scanf_63s :: "string \<Rightarrow> (string \<times> string) option" where
  "scanf_63s input =
     (let cs = dropWhile is_space input;
          word = take 63 (takeWhile (\<lambda>c. \<not> is_space c) cs)
      in if word = [] then None else Some (word @ [NUL], drop (length word) cs))"

definition scanf_lx :: "string \<Rightarrow> (u64 \<times> string) option" where
  "scanf_lx input =
     (let (neg, cs) = hex_sign (dropWhile is_space input);
          (prefixed, cs) = hex_prefix cs;
          (v, rest) = hex_digits cs 0
      in if rest = cs then None else Some (hex_value neg v, rest))"

section \<open>The tool\<close>

definition register_table :: "(string \<times> (u64 \<Rightarrow> string)) list" where
  "register_table =
     [(''SCTLR_EL1_32'', decode_sctlr_el1_32), (''SCTLR_EL1_64'', decode_sctlr_el1_64)]"

definition list_registers :: string where
  "list_registers =
     [CHR 0x0A] @ ''Supported Registers:'' @ [CHR 0x0A] @
     concat (map (\<lambda>(name, decode). ''  - '' @ name @ [CHR 0x0A]) register_table)"

text \<open>The loop over the table, from the entry it has reached.\<close>

fun decode_from :: "(string \<times> (u64 \<Rightarrow> string)) list \<Rightarrow> string \<Rightarrow> u64 \<Rightarrow> int \<times> string" where
  "decode_from [] name val = (- 1, [])"
| "decode_from ((reg, decode) # table) name val =
     (if same_ignoring_case name reg then
        (0, [CHR 0x0A] @ ''Decoding '' @ reg @ ''...'' @ [CHR 0x0A] @ decode val)
      else decode_from table name val)"

definition decode_by_name :: "string \<Rightarrow> u64 \<Rightarrow> int \<times> string" where
  "decode_by_name name val = decode_from register_table name val"

text \<open>\<^verbatim>\<open>main\<close>: the arguments and the standard input to the exit status and the output.\<close>

definition decoder_args :: "string list \<Rightarrow> (int \<times> string) option" where
  "decoder_args argv =
     (let reg_name = strncpy_buf 64 (argv ! 1);
          val = strtoull_16 (argv ! 2)
      in case c_str reg_name of
           None \<Rightarrow> None
         | Some name \<Rightarrow>
             let (r, out) = decode_by_name name val
             in if r \<noteq> 0 then
                  Some (1, out @ ''Error: Register '' @ [CHR 0x27] @ name @ [CHR 0x27] @
                    '' not supported.'' @ [CHR 0x0A] @ list_registers)
                else Some (0, out))"

definition decoder_interactive :: "string \<Rightarrow> string \<Rightarrow> (int \<times> string) option" where
  "decoder_interactive prog input =
     (let out = ''--- ARM System Register Decoder ---'' @ [CHR 0x0A] @
                ''Usage: '' @ prog @ '' <reg_name> <hex_val>'' @ [CHR 0x0A] @
                list_registers @ [CHR 0x0A] @ ''Enter register name: ''
      in case scanf_63s input of
           None \<Rightarrow> Some (1, out)
         | Some (reg_name, input) \<Rightarrow>
             let out = out @ ''Enter value in hex: ''
             in case scanf_lx input of
                  None \<Rightarrow> Some (1, out)
                | Some (val, input) \<Rightarrow>
                    case c_str reg_name of
                      None \<Rightarrow> None
                    | Some name \<Rightarrow>
                        let (r, text) = decode_by_name name val
                        in if r \<noteq> 0 then
                             Some (1, out @ text @ ''Invalid register name.'' @ [CHR 0x0A])
                           else Some (0, out @ text))"

definition decoder_main :: "string list \<Rightarrow> string \<Rightarrow> (int \<times> string) option" where
  "decoder_main argv input =
     (if length argv \<ge> 3 then decoder_args argv
      else case argv of [] \<Rightarrow> None | prog # args \<Rightarrow> decoder_interactive prog input)"

end
