(* ===== verification/RegisterTheorems.thy ===== *)
theory RegisterTheorems
  imports RegisterTool CStringProps
begin

text \<open>
  The register decoder against its documentation: where the fields lie, which bits each line of
  the output shows, and what the command line does with names and values.
\<close>

section \<open>Positions\<close>

text \<open>The positions the comments of the two headers give: first and last bit of each field.\<close>

definition sctlr_el1_32_documented :: "(string \<times> nat \<times> nat) list" where
  "sctlr_el1_32_documented =
     [(''M'', 0, 0), (''A'', 1, 1), (''C'', 2, 2), (''nTLSMD'', 3, 3), (''LSMAOE'', 4, 4),
      (''CP15BEN'', 5, 5), (''UNK'', 6, 6), (''ITD'', 7, 7), (''SED'', 8, 8), (''RES0_9'', 9, 9),
      (''EnRCTX'', 10, 10), (''RES1_11'', 11, 11), (''I'', 12, 12), (''V'', 13, 13),
      (''RES0_14'', 14, 14), (''RES0_15'', 15, 15), (''nTWI'', 16, 16), (''RES0_17'', 17, 17),
      (''nTWE'', 18, 18), (''WXN'', 19, 19), (''UWXN'', 20, 20), (''RES0_21'', 21, 21),
      (''RES0_22'', 22, 22), (''SPAN'', 23, 23), (''RES0_24'', 24, 24), (''EE'', 25, 25),
      (''RES0_26'', 26, 26), (''RES0_27'', 27, 27), (''TRE'', 28, 28), (''AFE'', 29, 29),
      (''TE'', 30, 30), (''DSSBS'', 31, 31)]"

definition sctlr_el1_64_documented :: "(string \<times> nat \<times> nat) list" where
  "sctlr_el1_64_documented =
     [(''M'', 0, 0), (''A'', 1, 1), (''C'', 2, 2), (''SA'', 3, 3), (''SA0'', 4, 4),
      (''CP15BEN'', 5, 5), (''nAA'', 6, 6), (''ITD'', 7, 7), (''SED'', 8, 8), (''UMA'', 9, 9),
      (''EnRCTX'', 10, 10), (''EOS'', 11, 11), (''I'', 12, 12), (''EnDB'', 13, 13),
      (''DZE'', 14, 14), (''UCT'', 15, 15), (''nTWI'', 16, 16), (''RES0_1'', 17, 17),
      (''nTWE'', 18, 18), (''WXN'', 19, 19), (''TSCXT'', 20, 20), (''IESB'', 21, 21),
      (''EIS'', 22, 22), (''SPAN'', 23, 23), (''E0E'', 24, 24), (''EE'', 25, 25),
      (''UCI'', 26, 26), (''EnDA'', 27, 27), (''nTLSMD'', 28, 28), (''LSMAOE'', 29, 29),
      (''EnIB'', 30, 30), (''EnIA'', 31, 31), (''RES0_2'', 32, 34), (''BT0'', 35, 35),
      (''BT1'', 36, 36), (''ITFSB'', 37, 37), (''TCF0'', 38, 39), (''TCF'', 40, 41),
      (''ATA0'', 42, 42), (''ATA'', 43, 43), (''DSSBS'', 44, 44), (''TWEDEn'', 45, 45),
      (''TWEDEL'', 46, 49), (''RES0_3'', 50, 53), (''EnASR'', 54, 54), (''EnAS0'', 55, 55),
      (''EnALS'', 56, 56), (''EPAN'', 57, 57), (''RES0_4'', 58, 63)]"

definition as_documented :: "string \<times> nat \<times> nat \<Rightarrow> string \<times> nat \<times> nat" where
  "as_documented = (\<lambda>(f, off, w). (f, off, off + w - 1))"

lemmas layout_defs =
  sctlr_el1_32_layout_def sctlr_el1_32_fields_def sctlr_el1_64_layout_def sctlr_el1_64_fields_def

lemma layout_32: "map as_documented sctlr_el1_32_layout = sctlr_el1_32_documented"
  by code_simp

text \<open>
  The bit-fields of both register unions lie at the positions their comments give, with one
  exception: the last reserved field of the 64-bit register, documented as bits 58 to 63, is
  declared 28 bits wide, so the compiler puts it in a storage unit of its own, behind the 64 bits
  of the register.
\<close>

theorem sctlr_fields_as_documented:
  "map as_documented sctlr_el1_32_layout = sctlr_el1_32_documented \<and>
   map as_documented (butlast sctlr_el1_64_layout) = butlast sctlr_el1_64_documented \<and>
   map_of sctlr_el1_64_documented ''RES0_4'' = Some (58, 63) \<and>
   map_of sctlr_el1_64_layout ''RES0_4'' = Some (64, 28)"
  by code_simp

section \<open>Lines\<close>

fun starts_with :: "string \<Rightarrow> string \<Rightarrow> bool" where
  "starts_with [] cs = True"
| "starts_with (p # ps) [] = False"
| "starts_with (p # ps) (c # cs) = (p = c \<and> starts_with ps cs)"

fun mentions :: "string \<Rightarrow> string \<Rightarrow> bool" where
  "mentions ps [] = (ps = [])"
| "mentions ps (c # cs) = (starts_with ps (c # cs) \<or> mentions ps cs)"

definition bit_tag :: "nat \<Rightarrow> nat \<Rightarrow> string" where
  "bit_tag off w =
     ''['' @ (if w = 1 then printf_u off else printf_u off @ '':'' @ printf_u (off + w - 1)) @ '']''"

text \<open>A line is labelled right when it carries the name of the field it prints and the positions
  of the bits that field has in the layout.\<close>

definition row_right :: "(string \<times> nat \<times> nat) list \<Rightarrow> row \<Rightarrow> bool" where
  "row_right layout = (\<lambda>(label, f, c).
     case map_of layout f of None \<Rightarrow> False
     | Some (off, w) \<Rightarrow> mentions (''['' @ f @ '']'') label \<and> mentions (bit_tag off w) label)"

definition reserved :: "string \<Rightarrow> bool" where
  "reserved f = starts_with ''RES0'' f"

lemma rows_64_right: "list_all (row_right sctlr_el1_64_layout) sctlr_el1_64_rows"
  by code_simp

lemma rows_32_right:
  "list_all (row_right sctlr_el1_32_layout) (filter (\<lambda>(l, f, c). f \<noteq> ''RES0_22'') sctlr_el1_32_rows)"
  by code_simp

text \<open>
  Every line of both decoders names the field it prints and the bits that field occupies; the
  32-bit decoder prints every field and the 64-bit decoder every field that is not reserved, each
  once and in order. The one line with another name is that of bit 22 of the 32-bit register, whose
  label calls the field \<^verbatim>\<open>RES1_22\<close> where the struct and its comment disagree.
\<close>

theorem decoder_lines_labelled:
  "list_all (row_right sctlr_el1_64_layout) sctlr_el1_64_rows \<and>
   list_all (row_right sctlr_el1_32_layout)
     (filter (\<lambda>(l, f, c). f \<noteq> ''RES0_22'') sctlr_el1_32_rows) \<and>
   map (\<lambda>(l, f, c). f) sctlr_el1_32_rows = map fst sctlr_el1_32_layout \<and>
   map (\<lambda>(l, f, c). f) sctlr_el1_64_rows =
     filter (\<lambda>f. \<not> reserved f) (map fst sctlr_el1_64_layout)"
  by (intro conjI rows_64_right rows_32_right) code_simp+

section \<open>The command line\<close>

text \<open>A hexadecimal number as one writes it, digits of either case, most significant first.\<close>

definition hex_chars :: string where
  "hex_chars = ''0123456789abcdefABCDEF''"

definition hex_val :: "char \<Rightarrow> nat" where
  "hex_val c =
     (let n = of_char c in if n \<le> 57 then n - 48 else if n \<le> 70 then n - 55 else n - 87)"

fun hex_number :: "string \<Rightarrow> nat" where
  "hex_number [] = 0"
| "hex_number (c # cs) = hex_val c * 16 ^ length cs + hex_number cs"

text \<open>Where a numeral ends: at the end of the text or before white space.\<close>

definition ends_number :: "string \<Rightarrow> bool" where
  "ends_number rest \<longleftrightarrow> rest = [] \<or> is_space (hd rest)"

lemma hex_chars_facts: "list_all (\<lambda>c. digit_value (of_char c) = Some (int (hex_val c)) \<and>
    \<not> is_space c \<and> c \<noteq> CHR ''-'' \<and> c \<noteq> CHR ''+'' \<and> c \<noteq> CHR ''x'' \<and> c \<noteq> CHR ''X'') hex_chars"
  by code_simp

lemma hex_char_facts:
  assumes "c \<in> set hex_chars"
  shows "digit_value (of_char c) = Some (int (hex_val c))" and "\<not> is_space c"
    and "c \<noteq> CHR ''-''" and "c \<noteq> CHR ''+''" and "c \<noteq> CHR ''x''" and "c \<noteq> CHR ''X''"
  using hex_chars_facts assms by (auto simp: list_all_iff)

lemma space_facts:
  "is_space c \<Longrightarrow> digit_value (of_char c) = None \<and> c \<noteq> CHR ''x'' \<and> c \<noteq> CHR ''X''"
  by (auto simp: is_space_def digit_value_def of_char_def)

lemma hex_digits_number:
  assumes "set ds \<subseteq> set hex_chars" and "ends_number rest"
  shows "hex_digits (ds @ rest) acc = (acc * 16 ^ length ds + hex_number ds, rest)"
  using assms
proof (induction ds arbitrary: acc)
  case Nil
  then show ?case using space_facts by (cases rest) (auto simp: ends_number_def)
next
  case (Cons c ds)
  then show ?case using hex_char_facts(1) [of c] by (simp add: algebra_simps)
qed

text \<open>Behind white space and an optional prefix the C library finds the digits.\<close>

lemma hex_scan:
  assumes "ds \<noteq> []" and "set ds \<subseteq> set hex_chars" and "ends_number rest"
    and "list_all is_space ws" and "pre \<in> {[], ''0x'', ''0X''}"
  shows "hex_sign (dropWhile is_space (ws @ pre @ ds @ rest)) = (False, pre @ ds @ rest)"
    and "snd (hex_prefix (pre @ ds @ rest)) = ds @ rest"
proof -
  obtain c cs where ds: "ds = c # cs" using assms(1) by (cases ds) auto
  then have c: "c \<in> set hex_chars" using assms(2) by simp
  note cf = hex_char_facts [OF c]
  have "dropWhile is_space (ws @ pre @ ds @ rest) = dropWhile is_space (pre @ ds @ rest)"
    using assms(4) by (simp add: list_all_iff)
  also have "\<dots> = pre @ ds @ rest"
    using assms(5) cf(2) by (auto simp: ds is_space_def)
  finally show "hex_sign (dropWhile is_space (ws @ pre @ ds @ rest)) = (False, pre @ ds @ rest)"
    using assms(5) cf(3,4) by (auto simp: ds hex_sign_def)
  have "d \<noteq> CHR ''x'' \<and> d \<noteq> CHR ''X''" if "cs @ rest = d # r" for d r
    using that assms(2,3) hex_char_facts(5,6) [of d] space_facts [of d]
    by (cases cs) (auto simp: ds ends_number_def)
  then have "snd (hex_prefix (ds @ rest)) = ds @ rest"
    by (cases "cs @ rest") (auto simp: ds hex_prefix_def)
  moreover have "snd (hex_prefix (''0x'' @ ds @ rest)) = ds @ rest"
    and "snd (hex_prefix (''0X'' @ ds @ rest)) = ds @ rest"
    by (simp_all add: hex_prefix_def)
  ultimately show "snd (hex_prefix (pre @ ds @ rest)) = ds @ rest"
    using assms(5) by auto
qed

lemma strtoull_number:
  assumes "ds \<noteq> []" and "set ds \<subseteq> set hex_chars" and "ends_number rest"
    and "list_all is_space ws" and "pre \<in> {[], ''0x'', ''0X''}" and "hex_number ds < 2 ^ 64"
  shows "strtoull_16 (ws @ pre @ ds @ rest) = word_of_nat (hex_number ds)"
  using hex_scan [OF assms(1-5)] hex_digits_number [OF assms(2,3), of 0] assms(6)
  by (simp add: strtoull_16_def hex_value_def split_beta)

lemma scanf_number:
  assumes "ds \<noteq> []" and "set ds \<subseteq> set hex_chars" and "ends_number rest"
    and "list_all is_space ws" and "pre \<in> {[], ''0x'', ''0X''}" and "hex_number ds < 2 ^ 64"
  shows "scanf_lx (ws @ pre @ ds @ rest) = Some (word_of_nat (hex_number ds), rest)"
  using hex_scan [OF assms(1-5)] hex_digits_number [OF assms(2,3), of 0] assms(1,6)
  by (simp add: scanf_lx_def hex_value_def split_beta)

lemma takeWhile_name: "NUL \<notin> set name \<Longrightarrow> takeWhile (\<lambda>c. c \<noteq> NUL) (name @ NUL # cs) = name"
  by (induction name) auto

lemma c_str_strncpy:
  assumes "NUL \<notin> set name"
  shows "c_str (strncpy_buf 64 name) = (if length name < 64 then Some name else None)"
proof (cases "length name < 64")
  case True
  then obtain k where "64 - length name = Suc k" by (metis Suc_diff_Suc)
  then have "strncpy_buf 64 name = name @ NUL # replicate k NUL"
    using True by (simp add: strncpy_buf_def)
  then show ?thesis using True assms by (simp add: c_str_def takeWhile_name)
next
  case False
  then have "set (strncpy_buf 64 name) \<subseteq> set name"
    by (auto simp: strncpy_buf_def dest: in_set_takeD)
  then show ?thesis using False assms by (auto simp: c_str_def)
qed

text \<open>The output, from the documented positions of the fields alone.\<close>

definition field_bits :: "nat \<Rightarrow> nat \<times> nat \<Rightarrow> nat" where
  "field_bits n = (\<lambda>(lo, hi). n div 2 ^ lo mod 2 ^ (hi + 1 - lo))"

fun documented_line :: "(string \<times> nat \<times> nat) list \<Rightarrow> nat \<Rightarrow> row \<Rightarrow> string" where
  "documented_line doc n (label, f, c) =
     (let b = field_bits n (the (map_of doc f))
      in label @
         (case c of
            Dec \<Rightarrow> numeral_in 10 b
          | Hex \<Rightarrow> map ascii_upper (numeral_in 16 b)
          | Flag yes no \<Rightarrow> numeral_in 10 b @ '' ('' @ (if b = 0 then no else yes) @ '')'') @ [CHR 0x0A])"

definition register_text :: "string \<Rightarrow> nat \<Rightarrow> string" where
  "register_text reg n =
     (if reg = ''SCTLR_EL1_32'' then
        ''SCTLR_EL1 (32-bit Mapping) Decode (0x'' @ printf_0X 8 (n mod 2 ^ 32) @ ''):'' @ [CHR 0x0A] @
        rule_line @ concat (map (documented_line sctlr_el1_32_documented n) sctlr_el1_32_rows) @ rule_line
      else
        ''SCTLR_EL1 Decode (0x'' @ printf_0X 16 n @ ''):'' @ [CHR 0x0A] @
        rule_line @ concat (map (documented_line sctlr_el1_64_documented n) sctlr_el1_64_rows) @ rule_line)"

text \<open>A row whose field lies where it is documented, in the low \<open>k\<close> bits.\<close>

definition row_documented ::
  "nat \<Rightarrow> (string \<times> nat \<times> nat) list \<Rightarrow> (string \<times> nat \<times> nat) list \<Rightarrow> row \<Rightarrow> bool" where
  "row_documented k layout doc = (\<lambda>(label, f, c).
     case map_of doc f of None \<Rightarrow> False
     | Some (lo, hi) \<Rightarrow> lo \<le> hi \<and> hi < k \<and> map_of layout f = Some (lo, hi + 1 - lo))"

lemma rows_documented:
  "list_all (row_documented 32 sctlr_el1_32_layout sctlr_el1_32_documented) sctlr_el1_32_rows"
  "list_all (row_documented 64 sctlr_el1_64_layout sctlr_el1_64_documented) sctlr_el1_64_rows"
  by code_simp+

lemma bits_get_documented:
  assumes "map_of layout f = Some (lo, hi + 1 - lo)"
  shows "bits_get layout raw f = field_bits (unat raw) (lo, hi)"
proof -
  have "unat (take_bit w (drop_bit lo raw)) = unat raw div 2 ^ lo mod 2 ^ w" for w
    by (simp only: unsigned_take_bit_eq unat_drop_bit_eq take_bit_eq_mod [where 'a = nat]
        drop_bit_eq_div [where 'a = nat])
  then show ?thesis by (simp only: bits_get_def field_bits_def assms option.case prod.case)
qed

lemma print_field_documented:
  assumes "row_documented k layout doc row"
  shows "print_field layout raw row = documented_line doc (unat raw) row"
proof -
  obtain label f c where row: "row = (label, f, c)" by (cases row)
  obtain lo hi where f: "map_of doc f = Some (lo, hi)" "map_of layout f = Some (lo, hi + 1 - lo)"
    using assms by (auto simp: row row_documented_def split: option.splits)
  show ?thesis
    by (cases c) (simp_all add: row f bits_get_documented [OF f(2)] printf_u_def printf_X_def Let_def)
qed

lemma print_rows_documented:
  assumes "list_all (row_documented k layout doc) rows"
  shows "map (print_field layout raw) rows = map (documented_line doc (unat raw)) rows"
  using assms print_field_documented by (auto simp: list_all_iff)

text \<open>The fields of the 32-bit register do not see the upper half of the value.\<close>

lemma field_bits_low:
  assumes "lo \<le> hi" and "hi < k"
  shows "field_bits (n mod 2 ^ k) (lo, hi) = field_bits n (lo, hi)"
proof -
  have "n mod 2 ^ k div 2 ^ lo mod 2 ^ (hi + 1 - lo) = n div 2 ^ lo mod 2 ^ (hi + 1 - lo)"
    using assms take_bit_drop_bit [of "hi + 1 - lo" lo n] take_bit_drop_bit [of "hi + 1 - lo" lo "take_bit k n"]
    by (simp add: take_bit_eq_mod [symmetric] drop_bit_eq_div [symmetric] min_def)
  then show ?thesis by (simp add: field_bits_def)
qed

lemma documented_line_low:
  assumes "row_documented k layout doc row"
  shows "documented_line doc (n mod 2 ^ k) row = documented_line doc n row"
proof -
  obtain label f c where row: "row = (label, f, c)" by (cases row)
  obtain lo hi where f: "map_of doc f = Some (lo, hi)" "lo \<le> hi" "hi < k"
    using assms by (auto simp: row row_documented_def split: option.splits)
  show ?thesis by (simp add: row f(1) field_bits_low [OF f(2,3)])
qed

lemma decode_32_text: "decode_sctlr_el1_32 v = register_text ''SCTLR_EL1_32'' (unat v)"
proof -
  have low: "unat (ucast v :: u32) = unat v mod 2 ^ 32"
    by (simp only: unsigned_ucast_eq unsigned_take_bit_eq) (simp add: take_bit_eq_mod)
  have "unat (ucast w :: u64) = unat w" for w :: u32
    using unsigned_less [of w, where 'a = nat] by (simp add: unsigned_ucast_eq take_bit_nat_eq_self)
  then have raw: "unat (ucast (ucast v :: u32) :: u64) = unat v mod 2 ^ 32" by (simp only: low)
  have "map (documented_line sctlr_el1_32_documented (unat v mod 2 ^ 32)) sctlr_el1_32_rows =
      map (documented_line sctlr_el1_32_documented (unat v)) sctlr_el1_32_rows"
    using rows_documented(1) documented_line_low by (auto simp only: list_all_iff intro!: map_cong)
  then show ?thesis
    using print_rows_documented [OF rows_documented(1), of "ucast (ucast v :: u32)"]
    by (simp only: decode_sctlr_el1_32_def register_text_def Let_def raw low refl if_True)
qed

lemma decode_64_text: "decode_sctlr_el1_64 v = register_text ''SCTLR_EL1_64'' (unat v)"
proof -
  have "''SCTLR_EL1_64'' \<noteq> ''SCTLR_EL1_32''" by simp
  then show ?thesis
    using print_rows_documented [OF rows_documented(2), of v]
    by (simp only: decode_sctlr_el1_64_def register_text_def if_False)
qed

definition decoding :: "string \<Rightarrow> nat \<Rightarrow> string" where
  "decoding reg n =
     [CHR 0x0A] @ ''Decoding '' @ reg @ ''...'' @ [CHR 0x0A] @ register_text reg n"

lemma decode_by_name_text:
  assumes "same_ignoring_case name reg" and "reg \<in> {''SCTLR_EL1_32'', ''SCTLR_EL1_64''}"
  shows "decode_by_name name v = (0, decoding reg (unat v))"
proof -
  have "\<not> same_ignoring_case ''SCTLR_EL1_32'' ''SCTLR_EL1_64''" by code_simp
  then have "same_ignoring_case name ''SCTLR_EL1_32'' \<longleftrightarrow> reg = ''SCTLR_EL1_32''"
    using assms by (auto simp: same_ignoring_case_def)
  then show ?thesis
    using assms
    by (auto simp: decode_by_name_def register_table_def decoding_def decode_32_text decode_64_text)
qed

lemma decoder_args_eq:
  assumes "NUL \<notin> set name"
  shows "decoder_main (prog # name # txt # rest) input =
    (if length name < 64 then
       let (r, out) = decode_by_name name (strtoull_16 txt)
       in if r \<noteq> 0 then
            Some (1, out @ ''Error: Register '' @ [CHR 0x27] @ name @ [CHR 0x27] @
              '' not supported.'' @ [CHR 0x0A] @ list_registers)
          else Some (0, out)
     else None)"
  using assms by (simp add: decoder_main_def decoder_args_def c_str_strncpy)

text \<open>A name that matches has twelve characters, no blank and no NUL among them.\<close>

lemma same_name_word:
  assumes "same_ignoring_case name reg" and "reg \<in> {''SCTLR_EL1_32'', ''SCTLR_EL1_64''}"
  shows "length name = 12" and "NUL \<notin> set name" and "list_all (\<lambda>c. \<not> is_space c) name"
proof -
  have low: "map ascii_lower name \<in> {''sctlr_el1_32'', ''sctlr_el1_64''}"
  proof -
    have l: "map ascii_lower ''SCTLR_EL1_32'' = ''sctlr_el1_32''"
      "map ascii_lower ''SCTLR_EL1_64'' = ''sctlr_el1_64''" by code_simp+
    have "map ascii_lower name = map ascii_lower reg"
      using assms(1) by (simp only: same_ignoring_case_def)
    then show ?thesis
      using assms(2) by (elim insertE emptyE) (simp_all only: l insert_iff simp_thms)
  qed
  then have "length (map ascii_lower name) = 12" by auto
  then show "length name = 12" by simp
  have fixed: "ascii_lower c = c" if "is_space c \<or> c = NUL" for c
    using that by (auto simp: is_space_def NUL_def ascii_lower_def of_char_def)
  have plain: "list_all (\<lambda>c. \<not> (is_space c \<or> c = NUL)) ''sctlr_el1_32''"
    "list_all (\<lambda>c. \<not> (is_space c \<or> c = NUL)) ''sctlr_el1_64''" by code_simp+
  have "\<not> (is_space c \<or> c = NUL)" if c: "c \<in> set name" for c
  proof
    assume sp: "is_space c \<or> c = NUL"
    have "c \<in> set (map ascii_lower name)" using c fixed [OF sp] by force
    then have "c \<in> set ''sctlr_el1_32'' \<or> c \<in> set ''sctlr_el1_64''"
      using low by (elim insertE emptyE) (simp_all only: simp_thms)
    then show False using plain sp by (auto simp only: list_all_iff)
  qed
  then show "NUL \<notin> set name" and "list_all (\<lambda>c. \<not> is_space c) name"
    by (auto simp: list_all_iff)
qed

lemma scanf_word:
  assumes "list_all (\<lambda>c. \<not> is_space c) name" and "name \<noteq> []" and "length name < 64"
    and "list_all is_space ws" and "ends_number cs"
  shows "scanf_63s (ws @ name @ cs) = Some (name @ [NUL], cs)"
proof -
  have "dropWhile is_space (ws @ name @ cs) = dropWhile is_space (name @ cs)"
    using assms(4) by (simp add: list_all_iff)
  also have "\<dots> = name @ cs" using assms(1,2) by (cases name) simp_all
  finally have drop: "dropWhile is_space (ws @ name @ cs) = name @ cs" .
  have "takeWhile (\<lambda>c. \<not> is_space c) cs = []" using assms(5) by (cases cs) (auto simp: ends_number_def)
  then have "takeWhile (\<lambda>c. \<not> is_space c) (name @ cs) = name"
    using assms(1) by (simp add: list_all_iff takeWhile_append2)
  then show ?thesis using assms(2,3) drop by (simp add: scanf_63s_def)
qed

text \<open>What the interactive mode prints before it decodes.\<close>

definition prompts :: "string \<Rightarrow> string" where
  "prompts prog = ''--- ARM System Register Decoder ---'' @ [CHR 0x0A] @
     ''Usage: '' @ prog @ '' <reg_name> <hex_val>'' @ [CHR 0x0A] @
     list_registers @ [CHR 0x0A] @ ''Enter register name: '' @ ''Enter value in hex: ''"

text \<open>
  C37: Given the name of either register in any mixture of cases and a hexadecimal number of 64 bits,
  of digits in either case, with leading zeros or not, with or without the prefix \<^verbatim>\<open>0x\<close> or \<^verbatim>\<open>0X\<close>
  and behind any white space, the tool succeeds and prints one line for each field it knows, with
  the bits of the number that the field's comment gives as its position. It does so whether name
  and number are arguments or typed on the input, on one line or two, where the prompts come first;
  what follows the number after white space is ignored.
\<close>

theorem decoder_decodes:
  assumes "same_ignoring_case name reg" and "reg \<in> {''SCTLR_EL1_32'', ''SCTLR_EL1_64''}"
    and "ds \<noteq> []" and "set ds \<subseteq> set hex_chars" and "hex_number ds < 2 ^ 64"
    and "pre \<in> {[], ''0x'', ''0X''}" and "ends_number rest"
    and "list_all is_space ws" and "list_all is_space gap" and "gap \<noteq> []"
  shows "decoder_main (prog # name # (ws @ pre @ ds @ rest) # others) input =
      Some (0, decoding reg (hex_number ds)) \<and>
    decoder_main [prog] (ws @ name @ gap @ pre @ ds @ rest) =
      Some (0, prompts prog @ decoding reg (hex_number ds))"
proof
  note word = same_name_word [OF assms(1,2)]
  have v: "unat (word_of_nat (hex_number ds) :: u64) = hex_number ds"
    using assms(5) by (simp add: unsigned_of_nat take_bit_nat_eq_self)
  have "strtoull_16 (ws @ pre @ ds @ rest) = word_of_nat (hex_number ds)"
    using strtoull_number [OF assms(3,4,7,8,6,5)] .
  then show "decoder_main (prog # name # (ws @ pre @ ds @ rest) # others) input =
      Some (0, decoding reg (hex_number ds))"
    using word(1,2) decode_by_name_text [OF assms(1,2)] v by (simp add: decoder_args_eq)
  have cs: "c_str (name @ [NUL]) = Some name" using word(2) by (simp add: c_str_def takeWhile_name)
  have "name \<noteq> []" and len: "length name < 64" using word(1) by auto
  moreover have "ends_number (gap @ pre @ ds @ rest)"
    using assms(9,10) by (cases gap) (auto simp: ends_number_def)
  ultimately have name: "scanf_63s (ws @ name @ gap @ pre @ ds @ rest) =
      Some (name @ [NUL], gap @ pre @ ds @ rest)"
    using scanf_word [OF word(3)] assms(8) by blast
  show "decoder_main [prog] (ws @ name @ gap @ pre @ ds @ rest) =
      Some (0, prompts prog @ decoding reg (hex_number ds))"
    using decode_by_name_text [OF assms(1,2)] v
    by (simp add: decoder_main_def decoder_interactive_def prompts_def name cs Let_def
        scanf_number [OF assms(3,4,7,9,6,5)])
qed

theorem decoder_decodes_witness:
  "decoder_main [''reg'', ''sctlr_EL1_64'', ''0x030D0a00''] [] =
    Some (0, decoding ''SCTLR_EL1_64'' 0x30d0a00) \<and>
   decoder_main [''reg''] (''SCTLR_el1_64'' @ [CHR 0x0A] @ ''0x030D0a00'' @ [CHR 0x0A]) =
    Some (0, prompts ''reg'' @ decoding ''SCTLR_EL1_64'' 0x30d0a00)"
proof -
  have ds: "set ''030D0a00'' \<subseteq> set hex_chars" "hex_number ''030D0a00'' = 0x30d0a00"
    by (simp_all add: hex_chars_def hex_val_def of_char_def)
  have sp: "list_all is_space [CHR 0x0A]" "ends_number [CHR 0x0A]" "ends_number []"
    by (simp_all add: is_space_def ends_number_def)
  have names: "same_ignoring_case ''sctlr_EL1_64'' ''SCTLR_EL1_64''"
    "same_ignoring_case ''SCTLR_el1_64'' ''SCTLR_EL1_64''"
    by code_simp+
  have 1: "decoder_main [''reg'', ''sctlr_EL1_64'', ''0x030D0a00''] [] =
      Some (0, decoding ''SCTLR_EL1_64'' 0x30d0a00)"
    using decoder_decodes [OF names(1), of "''030D0a00''" "''0x''" "[]" "[]" "[CHR 0x0A]" "''reg''" "[]" "[]"]
      ds sp by simp
  have 2: "decoder_main [''reg''] (''SCTLR_el1_64'' @ [CHR 0x0A] @ ''0x030D0a00'' @ [CHR 0x0A]) =
      Some (0, prompts ''reg'' @ decoding ''SCTLR_EL1_64'' 0x30d0a00)"
    using decoder_decodes [OF names(2), of "''030D0a00''" "''0x''" "[CHR 0x0A]" "[]" "[CHR 0x0A]" "''reg''"]
      ds sp by simp
  show ?thesis using 1 2 by blast
qed

text \<open>
  A register name of 64 characters or more fills the name buffer without a terminating NUL, and
  the comparison that follows reads past its end, whatever value is given.
\<close>

theorem decoder_long_name_undefined:
  assumes "NUL \<notin> set name" and "length name \<ge> 64"
  shows "decoder_main [prog, name, txt] input = None"
  using assms by (simp add: decoder_args_eq)

theorem decoder_long_name_undefined_witness:
  "decoder_main [''reg'', replicate 64 CHR ''A'', ''0''] [] = None"
  by (rule decoder_long_name_undefined) (simp_all add: NUL_def)

end
