(* ===== verification/TestSuite.thy ===== *)
theory TestSuite
  imports PagingTheorems Platform
begin

text \<open>
  The in-kernel tests, \<^verbatim>\<open>src/tests\<close>: the test's own walk of the page tables, the sequence of
  mappings it makes, and the runner, which ends in a semihosting exit. \<open>EXPECT\<close> prints the
  condition and returns \<open>false\<close>.
\<close>

section \<open>The oracle\<close>

definition expect :: "bool \<Rightarrow> string \<Rightarrow> kernel \<Rightarrow> (kernel \<Rightarrow> bool \<times> kernel) \<Rightarrow> bool \<times> kernel" where
  "expect c cond s rest =
     (if \<not> c then (False, klog ''Test failed: %s\<newline>'' [AStr (Some cond)] s) else rest s)"

text \<open>The test's copy of \<open>get_next_level_table\<close>, which does not allocate.\<close>

definition test_next_level_table :: "u64 \<Rightarrow> kernel \<Rightarrow> u64" where
  "test_next_level_table entry s =
     (if pte_get Valid (entry_value entry s) = 0 then 0
      else get_page_table_entry_address (entry_value entry s))"

definition verify_map :: "u64 \<Rightarrow> u64 \<Rightarrow> u64 \<Rightarrow> kernel \<Rightarrow> bool \<times> kernel" where
  "verify_map root v_addr expected_pa s =
     (let l0_idx = level_idx 39 v_addr;
          l1_idx = level_idx 30 v_addr;
          l2_idx = level_idx 21 v_addr;
          l3_idx = level_idx 12 v_addr
      in expect (entry_value (entry_addr root l0_idx) s \<noteq> 0) ''root->entries[l0_idx].value'' s (\<lambda>s.
         let level1 = test_next_level_table (entry_addr root l0_idx) s
         in expect (level1 \<noteq> 0) ''level1 != NULL'' s (\<lambda>s.
         expect (entry_value (entry_addr level1 l1_idx) s \<noteq> 0) ''level1->entries[l1_idx].value'' s (\<lambda>s.
         let level2 = test_next_level_table (entry_addr level1 l1_idx) s
         in expect (level2 \<noteq> 0) ''level2 != NULL'' s (\<lambda>s.
         expect (entry_value (entry_addr level2 l2_idx) s \<noteq> 0) ''level2->entries[l2_idx].value'' s (\<lambda>s.
         let level3 = test_next_level_table (entry_addr level2 l2_idx) s
         in expect (level3 \<noteq> 0) ''level3 != NULL'' s (\<lambda>s.
         let actual_pa = get_page_table_entry_address (entry_value (entry_addr level3 l3_idx) s)
         in expect (actual_pa = expected_pa) ''actual_pa == expected_pa'' s (\<lambda>s. (True, s)))))))))"

section \<open>The mappings\<close>

definition test_page_table_mapping ::
  "u64 \<Rightarrow> u64 \<Rightarrow> u64 \<Rightarrow> page_permissions \<Rightarrow> kernel \<Rightarrow> bool \<times> kernel" where
  "test_page_table_mapping root v_addr phy_addr test_perms s =
     expect (root \<noteq> 0) ''root != NULL'' s (\<lambda>s.
       let (mapped, s) = map_page root v_addr phy_addr test_perms s
       in expect mapped ''map_page(root, v_addr, phy_addr, test_perms)'' s (\<lambda>s.
       let (verified, s) = verify_map root v_addr phy_addr s
       in expect verified ''verify_map(root, v_addr, phy_addr, test_perms)'' s (\<lambda>s. (True, s))))"

text \<open>The twelve mappings in the order of the test, with the condition \<open>EXPECT\<close> prints.\<close>

type_synonym mapping_case = "u64 \<times> u64 \<times> page_permissions \<times> string"

definition test_mappings :: "mapping_case list" where
  "test_mappings =
     [(0xFFFFF00000001000, 0x1000, \<lparr>perm_read = True, perm_write = False, perm_execute = False\<rparr>,
        ''test_page_table_mapping( root, 0xFFFFF00000001000, 0x1000, (page_permissions_t){ .read = 1, .write = 0, .execute = 0 })''),
      (0xFFFFF00000002000, 0x2000, \<lparr>perm_read = True, perm_write = True, perm_execute = False\<rparr>,
        ''test_page_table_mapping( root, 0xFFFFF00000002000, 0x2000, (page_permissions_t){ .read = 1, .write = 1, .execute = 0 })''),
      (0xFFFFF00000003000, 0x3000, \<lparr>perm_read = True, perm_write = False, perm_execute = True\<rparr>,
        ''test_page_table_mapping( root, 0xFFFFF00000003000, 0x3000, (page_permissions_t){ .read = 1, .write = 0, .execute = 1 })''),
      (0xFFFFF00000004000, 0x4000, \<lparr>perm_read = True, perm_write = True, perm_execute = True\<rparr>,
        ''test_page_table_mapping( root, 0xFFFFF00000004000, 0x4000, (page_permissions_t){ .read = 1, .write = 1, .execute = 1 })''),
      (0xFFFFF00040000000, 0x5000, \<lparr>perm_read = False, perm_write = False, perm_execute = True\<rparr>,
        ''test_page_table_mapping( root, 0xFFFFF00040000000, 0x5000, (page_permissions_t){ .read = 0, .write = 0, .execute = 1 })''),
      (0xFFFFF00080000000, 0x6000, \<lparr>perm_read = True, perm_write = False, perm_execute = False\<rparr>,
        ''test_page_table_mapping( root, 0xFFFFF00080000000, 0x6000, (page_permissions_t){ .read = 1, .write = 0, .execute = 0 })''),
      (0xFFFFF000C0000000, 0x7000, \<lparr>perm_read = False, perm_write = True, perm_execute = False\<rparr>,
        ''test_page_table_mapping( root, 0xFFFFF000C0000000, 0x7000, (page_permissions_t){ .read = 0, .write = 1, .execute = 0 })''),
      (0xFFFFF00100000000, 0x8000, \<lparr>perm_read = True, perm_write = True, perm_execute = False\<rparr>,
        ''test_page_table_mapping( root, 0xFFFFF00100000000, 0x8000, (page_permissions_t){ .read = 1, .write = 1, .execute = 0 })''),
      (0xFFFFF08000000000, 0x9000, \<lparr>perm_read = False, perm_write = False, perm_execute = True\<rparr>,
        ''test_page_table_mapping( root, 0xFFFFF08000000000, 0x9000, (page_permissions_t){ .read = 0, .write = 0, .execute = 1 })''),
      (0xFFFFF10000000000, 0xA000, \<lparr>perm_read = True, perm_write = False, perm_execute = True\<rparr>,
        ''test_page_table_mapping( root, 0xFFFFF10000000000, 0xA000, (page_permissions_t){ .read = 1, .write = 0, .execute = 1 })''),
      (0xFFFFF18000000000, 0xB000, \<lparr>perm_read = False, perm_write = True, perm_execute = True\<rparr>,
        ''test_page_table_mapping( root, 0xFFFFF18000000000, 0xB000, (page_permissions_t){ .read = 0, .write = 1, .execute = 1 })''),
      (0xFFFFF20000000000, 0xC000, \<lparr>perm_read = True, perm_write = True, perm_execute = True\<rparr>,
        ''test_page_table_mapping( root, 0xFFFFF20000000000, 0xC000, (page_permissions_t){ .read = 1, .write = 1, .execute = 1 })'')]"

fun run_mappings :: "u64 \<Rightarrow> mapping_case list \<Rightarrow> kernel \<Rightarrow> bool \<times> kernel" where
  "run_mappings root [] s = (True, s)"
| "run_mappings root ((va, pa, perms, cond) # ms) s =
     (let (passed, s) = test_page_table_mapping root va pa perms s
      in expect passed cond s (run_mappings root ms))"

definition page_table_map :: "kernel \<Rightarrow> bool \<times> kernel" where
  "page_table_map s = (let (root, s) = page_alloc 1 s in run_mappings root test_mappings s)"

section \<open>The runner\<close>

text \<open>
  \<^verbatim>\<open>src/tests/test.h\<close>: a test is a name and a function, a suite a name, an array of ten
  tests and the number of those in use. The entries that are not in use, null pointers, are left
  out of the list.
\<close>

definition MAX_TESTS_PER_SUITE :: nat where
  "MAX_TESTS_PER_SUITE = 10"

type_synonym test_fn_t = "kernel \<Rightarrow> bool \<times> kernel"

record test =
  test_name :: string
  test_fn :: test_fn_t

record test_suite =
  suite_name :: string
  tests :: "test list"
  num_tests :: nat

definition get_page_table_test_suite :: test_suite where
  "get_page_table_test_suite = \<lparr>suite_name = ''page_table'',
     tests = [\<lparr>test_name = ''page_table_map'', test_fn = page_table_map\<rparr>], num_tests = 1\<rparr>"

text \<open>The bodies of the two loops of \<open>run_internal_tests\<close>, with \<^verbatim>\<open>failed\<close> as a part of their state.\<close>

definition run_test :: "test \<Rightarrow> bool \<times> kernel \<Rightarrow> bool \<times> kernel" where
  "run_test t = (\<lambda>(failed, s).
     (let s = klog ''  Running test: %s\<newline>'' [AStr (Some (test_name t))] s;
          (passed, s) = test_fn t s
      in if passed then (failed, klog ''    Result: %s PASSED\<newline>'' [AStr (Some (test_name t))] s)
         else (True, klog ''    Result: %s FAILED\<newline>'' [AStr (Some (test_name t))] s)))"

definition run_suite :: "test_suite \<Rightarrow> bool \<times> kernel \<Rightarrow> bool \<times> kernel" where
  "run_suite suite = (\<lambda>(failed, s).
     (let s = klog ''Running test suite: %s\<newline>'' [AStr (Some (suite_name suite))] s
      in fold (\<lambda>j. run_test (tests suite ! j)) [0 ..< num_tests suite] (failed, s)))"

definition qemu_exit :: "u32 \<Rightarrow> outcome" where
  "qemu_exit code = Semihosting 0x18 [0x20026, ucast code]"

definition run_internal_tests :: "kernel \<Rightarrow> outcome \<times> kernel" where
  "run_internal_tests s =
     (let s = klog ''Running internal tests...\<newline>'' [] s;
          test_suite = [get_page_table_test_suite];
          (failed, s) = fold run_suite test_suite (False, s)
      in (qemu_exit (of_bool failed), s))"

text \<open>The runner stays inside the array of tests.\<close>

lemma page_table_suite_bounds:
  "num_tests get_page_table_test_suite = length (tests get_page_table_test_suite)"
  "length (tests get_page_table_test_suite) \<le> MAX_TESTS_PER_SUITE"
  by (simp_all add: get_page_table_test_suite_def MAX_TESTS_PER_SUITE_def)

section \<open>What the oracle decides\<close>

text \<open>One step of the walk on a tree of tables.\<close>

lemma test_next_table:
  assumes inv: "vm_inv s root" and p: "table_at (mem s) root p = Some t" "vpath 3 idx9 (p @ [i])"
  shows "test_next_level_table (entry_addr t i) s =
      (case table_at (mem s) root (p @ [i]) of None \<Rightarrow> 0 | Some u \<Rightarrow> u)"
    and "test_next_level_table (entry_addr t i) s \<noteq> 0 \<Longrightarrow>
      table_at (mem s) root (p @ [i]) = Some (test_next_level_table (entry_addr t i) s) \<and>
      entry_value (entry_addr t i) s \<noteq> 0"
    and "table_at (mem s) root (p @ [i]) = Some u \<Longrightarrow> u \<noteq> 0 \<and> entry_value (entry_addr t i) s \<noteq> 0"
proof -
  let ?e = "load64 (mem s) (entry_addr t i)"
  have vp: "vpath 3 idx9 p" and i: "idx9 i" using p(2) by (blast dest: vpath_butlast vpath_last)+
  have link: "table_at (mem s) root (p @ [i]) = next_table ?e"
    using p(1) by (simp add: table_at_def descend_snoc)
  have tab: "is_table ?e \<longleftrightarrow> pte_get Valid ?e \<noteq> 0"
    using inv p(1) vp i by (auto simp: vm_inv_def is_table_def)
  show next_eq: "test_next_level_table (entry_addr t i) s =
      (case table_at (mem s) root (p @ [i]) of None \<Rightarrow> 0 | Some u \<Rightarrow> u)"
    by (simp add: test_next_level_table_def entry_value_def link next_table_def tab)
  show some: "u \<noteq> 0 \<and> entry_value (entry_addr t i) s \<noteq> 0"
    if u: "table_at (mem s) root (p @ [i]) = Some u" for u
    using usable_nonzero [OF vm_inv_usable [OF inv p(2) u]] u
    by (auto simp: link entry_value_def)
  show "test_next_level_table (entry_addr t i) s \<noteq> 0 \<Longrightarrow>
      table_at (mem s) root (p @ [i]) = Some (test_next_level_table (entry_addr t i) s) \<and>
      entry_value (entry_addr t i) s \<noteq> 0"
    using next_eq some by (cases "table_at (mem s) root (p @ [i])") auto
qed

lemma verify_map_iff:
  assumes inv: "vm_inv s root"
  shows "fst (verify_map root va pa s) \<longleftrightarrow>
      table_at (mem s) root (va_path va) \<noteq> None \<and>
      get_page_table_entry_address (leaf_entry (mem s) root va) = pa"
    and "fst (verify_map root va pa s) \<Longrightarrow> snd (verify_map root va pa s) = s"
proof -
  let ?a = "level_idx 39 va" and ?b = "level_idx 30 va" and ?c = "level_idx 21 va"
  let ?t1 = "test_next_level_table (entry_addr root ?a) s"
  let ?t2 = "test_next_level_table (entry_addr ?t1 ?b) s"
  let ?t3 = "test_next_level_table (entry_addr ?t2 ?c) s"
  have root: "table_at (mem s) root [] = Some root" by (simp add: table_at_def)
  have path: "vpath 3 idx9 [?a]" "vpath 3 idx9 [?a, ?b]" "vpath 3 idx9 [?a, ?b, ?c]"
    by (simp_all add: vpath_def level_idx_less)
  note 1 = test_next_table [OF inv root, of ?a, simplified, OF path(1)]
  have up: "table_at (mem s) root p = None \<Longrightarrow> table_at (mem s) root (p @ [j]) = None" for p j
    by (simp add: table_at_def descend_snoc)
  have run: "verify_map root va pa s = (True, s) \<longleftrightarrow> fst (verify_map root va pa s)"
    by (auto simp: verify_map_def expect_def Let_def)
  show "fst (verify_map root va pa s) \<longleftrightarrow> table_at (mem s) root (va_path va) \<noteq> None \<and>
      get_page_table_entry_address (leaf_entry (mem s) root va) = pa"
  proof (cases "?t1 = 0")
    case True
    then have "table_at (mem s) root [?a] = None" using 1(1,3) by (auto split: option.splits)
    then have "table_at (mem s) root (va_path va) = None"
      using up [of "[?a]" ?b] up [of "[?a, ?b]" ?c] by (simp add: va_path_def)
    then show ?thesis using True by (simp add: verify_map_def expect_def Let_def)
  next
    case t1: False
    note e1 = 1(2) [OF t1]
    note 2 = test_next_table [OF inv conjunct1 [OF e1], of ?b, simplified, OF path(2)]
    show ?thesis
    proof (cases "?t2 = 0")
      case True
      then have "table_at (mem s) root [?a, ?b] = None" using 2(1,3) by (auto split: option.splits)
      then have "table_at (mem s) root (va_path va) = None"
        using up [of "[?a, ?b]" ?c] by (simp add: va_path_def)
      then show ?thesis using True e1 t1 by (simp add: verify_map_def expect_def Let_def)
    next
      case t2: False
      note e2 = 2(2) [OF t2]
      note 3 = test_next_table [OF inv conjunct1 [OF e2], of ?c, simplified, OF path(3)]
      show ?thesis
      proof (cases "?t3 = 0")
        case True
        then have "table_at (mem s) root (va_path va) = None"
          using 3(1,3) by (auto simp: va_path_def split: option.splits)
        then show ?thesis using True e1 e2 t1 t2 by (simp add: verify_map_def expect_def Let_def)
      next
        case t3: False
        note e3 = 3(2) [OF t3]
        then have "leaf_entry (mem s) root va = entry_value (entry_addr ?t3 (level_idx 12 va)) s"
          by (simp add: leaf_entry_def page_entry_def va_path_def entry_value_def)
        then show ?thesis
          using e1 e2 e3 t1 t2 t3 by (simp add: verify_map_def expect_def Let_def va_path_def)
      qed
    qed
  qed
  show "fst (verify_map root va pa s) \<Longrightarrow> snd (verify_map root va pa s) = s"
    using run by (metis snd_conv)
qed

text \<open>
  On a tree of tables the test's oracle decides by its own walk whether all three levels of
  tables are there and the address field of the entry is the expected one, and changes nothing when
  it accepts. It does not look at the valid bit of the entry: an unmapped page passes for address 0.
\<close>

theorem verify_map_decides:
  assumes "vm_inv s root"
  shows "(fst (verify_map root va pa s) \<longleftrightarrow> table_at (mem s) root (va_path va) \<noteq> None \<and>
      get_page_table_entry_address (leaf_entry (mem s) root va) = pa) \<and>
    (fst (verify_map root va pa s) \<longrightarrow> snd (verify_map root va pa s) = s)"
  using verify_map_iff [OF assms] by blast

theorem verify_map_decides_witness:
  "\<not> fst (verify_map demo_root 0x1000 0x7000 demo_vm)"
  using verify_map_decides [OF demo_vm_inv, of "0x1000" "0x7000"]
  by (simp add: demo_vm_empty get_page_table_entry_address_def)

section \<open>The test passes\<close>

lemma test_mapping_passes:
  assumes inv: "vm_inv s root" and pa: "page_aligned pa" "unat pa < 2 ^ 48"
    and free: "3 \<le> free_pages s"
  obtains s' where "test_page_table_mapping root va pa perms s = (True, s')" and "vm_inv s' root"
    and "free_pages s \<le> free_pages s' + 3"
proof -
  note res = map_page_resources [OF inv]
  have root: "root \<noteq> 0"
    using usable_nonzero vm_inv_usable [OF inv, of "[]" root] by (simp add: table_at_def)
  have "missing_tables (mem s) root va \<le> free_pages s" using free missing_tables_le le_trans by blast
  then have ok: "fst (map_page root va pa perms s)" using res(1) pa(1) by (simp add: page_aligned_def)
  then obtain s' where run: "map_page root va pa perms s = (True, s')"
    by (metis prod.collapse)
  obtain s1 t where r: "extends s s1 root" "table_at (mem s1) root (va_path va) = Some t"
    "s' = write_leaf (entry_addr t (level_idx 12 va)) pa perms s1"
    by (rule map_page_success [OF inv run])
  note w = write_leaf_spec [OF extends_inv [OF r(1)] r(2), where pa = pa and perms = perms, folded r(3)]
  have at: "table_at (mem s') root (va_path va) \<noteq> None" using w(2) [OF va_path_valid(1)] r(2) by simp
  have "get_page_table_entry_address (leaf_entry (mem s') root va) = pa"
    using w(3) low_48_address [OF pa] by (simp add: page_desc_fields)
  then have "verify_map root va pa s' = (True, s')"
    using verify_map_iff [OF w(1), of va pa] at by (metis prod.collapse)
  then have "test_page_table_mapping root va pa perms s = (True, s')"
    by (simp add: test_page_table_mapping_def expect_def root run)
  moreover have "free_pages s \<le> free_pages s' + 3"
    using res(2) [OF ok] run missing_tables_le [of "mem s" root va] by simp
  ultimately show thesis using w(1) that by blast
qed

lemma run_mappings_pass:
  assumes "vm_inv s root" and "3 * length ms \<le> free_pages s"
    and "list_all (\<lambda>(va, pa, perms, cond). page_aligned pa \<and> unat pa < 2 ^ 48) ms"
  shows "fst (run_mappings root ms s) \<and> vm_inv (snd (run_mappings root ms s)) root"
  using assms
proof (induction ms arbitrary: s)
  case (Cons m ms)
  obtain va pa perms cond where m: "m = (va, pa, perms, cond)" by (cases m)
  have pa: "page_aligned pa" "unat pa < 2 ^ 48" and free: "3 \<le> free_pages s"
    using Cons.prems(2,3) by (simp_all add: m)
  obtain s' where s': "test_page_table_mapping root va pa perms s = (True, s')" "vm_inv s' root"
    "free_pages s \<le> free_pages s' + 3"
    by (rule test_mapping_passes [OF Cons.prems(1) pa free])
  have "3 * length ms \<le> free_pages s'" using s'(3) Cons.prems(2) by simp
  from Cons.IH [OF s'(2) this] show ?case using s'(1) Cons.prems(3) by (simp add: m expect_def)
qed simp

lemma test_mappings_ok:
  "list_all (\<lambda>(va, pa, perms, cond). page_aligned pa \<and> unat pa < 2 ^ 48) test_mappings"
  "length test_mappings = 12"
  by (simp_all add: test_mappings_def page_aligned_def)

text \<open>Pages that hold zeros make good root tables without being cleared.\<close>

definition free_pages_zero :: "kernel \<Rightarrow> bool" where
  "free_pages_zero s \<longleftrightarrow> (\<forall>x. free_page s (page_base x) \<longrightarrow> mem s x = 0)"

lemma zero_root:
  assumes src: "source_inv s" and zero: "free_pages_zero s"
    and run: "page_alloc 1 s = (root, s')" and nz: "root \<noteq> 0"
  shows "root_table s = (root, s')"
proof -
  obtain k where k: "root = page_addr s k" "k < unat (total_pages s)" "\<not> page_used s k"
    using page_alloc_one [OF src run nz] by metis
  have wf: "alloc_wf s" using src by (simp add: source_inv_def)
  have al: "page_aligned root" using page_addr_aligned [OF wf k(2)] k(1) by simp
  have "mem s' x = 0" if x: "page_no x = page_no root" for x
  proof -
    have "free_page s (page_base x)"
      using k page_base_no [OF al x] by (auto simp: free_page_def)
    moreover from this have "\<not> in_bitmap s x" by (rule free_page_not_bitmap [OF src])
    ultimately show ?thesis
      using zero page_alloc_effect(4) [OF src run] by (simp add: free_pages_zero_def)
  qed
  then have "(\<lambda>x. if page_no x = page_no root then 0 else mem s' x) = mem s'" by auto
  then have "page_table_init root s' = s'" by (simp add: page_table_init_eq [OF al])
  then show ?thesis by (simp add: root_table_def run)
qed

lemma page_table_map_passes:
  assumes src: "source_inv s" and low: "unat (mem_base s) + 4096 * unat (total_pages s) \<le> 2 ^ 48"
    and free: "37 \<le> free_pages s" and zero: "free_pages_zero s"
  shows "fst (page_table_map s)"
proof -
  obtain root s' where run: "page_alloc 1 s = (root, s')" by (cases "page_alloc 1 s")
  have nz: "root \<noteq> 0" using alloc_free_pages(1) [OF src run] free by auto
  note root = new_root [OF src low zero_root [OF src zero run nz] nz]
  have "3 * length test_mappings \<le> free_pages s'" using root(3) free by (simp add: test_mappings_ok)
  from run_mappings_pass [OF root(1) this test_mappings_ok(1)] show ?thesis
    by (simp add: page_table_map_def run)
qed

lemma tests_pass:
  assumes "source_inv s" and "unat (mem_base s) + 4096 * unat (total_pages s) \<le> 2 ^ 48"
    and "37 \<le> free_pages s" and "free_pages_zero s"
  shows "fst (run_internal_tests s) = Semihosting 0x18 [0x20026, 0]"
proof -
  define s1 where "s1 =
    klog ''  Running test: %s\<newline>'' [AStr (Some ''page_table_map'')]
      (klog ''Running test suite: %s\<newline>'' [AStr (Some ''page_table'')]
        (klog ''Running internal tests...\<newline>'' [] s))"
  have fr: "mem s1 = mem s" "mem_base s1 = mem_base s" "total_pages s1 = total_pages s"
    "bitmap s1 = bitmap s"
    by (simp_all add: s1_def)
  have used: "page_used s1 = page_used s"
    by (rule ext) (simp add: page_used_def is_used_def bm_byte_def fr)
  have "source_inv s1" by (rule source_inv_grow [OF assms(1)]) (simp_all add: fr used)
  moreover have "free_pages_zero s1"
    using assms(4) by (simp add: free_pages_zero_def free_page_def fr used page_addr_cong [OF fr(2)])
  ultimately have "fst (page_table_map s1)"
    using assms(2,3) by (intro page_table_map_passes) (simp_all add: fr free_pages_cong [OF used fr(3)])
  then show ?thesis
    by (simp add: run_internal_tests_def run_suite_def run_test_def get_page_table_test_suite_def
        qemu_exit_def s1_def [symmetric] split_beta)
qed

text \<open>
  The in-kernel test suite passes: on a well-formed allocator with 37 free pages (a root table
  and at most three tables for each of the twelve mappings), all of them zero, every mapping is
  made and verified and the runner exits with code 0. The zeros are needed because the test does
  not initialise its root table.
\<close>

theorem internal_tests_pass:
  assumes "source_inv s" and "unat (mem_base s) + 4096 * unat (total_pages s) \<le> 2 ^ 48"
    and "37 \<le> free_pages s" and "free_pages_zero s"
  shows "fst (run_internal_tests s) = Semihosting 0x18 [0x20026, 0]"
  using assms by (rule tests_pass)

text \<open>The demonstration pool with 64 pages.\<close>

definition demo_kernel_64 :: kernel where
  "demo_kernel_64 = demo_kernel\<lparr>total_pages := 64\<rparr>"

lemma demo_64_sel [simp]:
  shows "mem_base demo_kernel_64 = 0x40000000" and "bitmap demo_kernel_64 = 0x40002000"
    and "total_pages demo_kernel_64 = 64" and "mem demo_kernel_64 = (\<lambda>_. 0)(0x40002000 := 4)"
  by (simp_all add: demo_kernel_64_def)

lemma demo_64_used: "page_used demo_kernel_64 k \<longleftrightarrow> k = 2"
proof (cases "k < 64")
  case True
  have "list_all (\<lambda>k. is_used (word_of_nat k) demo_kernel_64 \<noteq> 0 \<longleftrightarrow> k = 2) [0 ..< 64]"
    by (simp add: upt_rec is_used_def bm_byte_def)
  then show ?thesis using True by (auto simp: page_used_def list_all_iff)
qed (auto simp: page_used_def)

lemma demo_64_ready:
  shows "source_inv demo_kernel_64" and "free_pages demo_kernel_64 = 63"
    and "free_pages_zero demo_kernel_64"
proof -
  have wf: "alloc_wf demo_kernel_64"
    by (simp add: alloc_wf_def bitmap_len_def page_aligned_def)
  have addr: "unat (page_addr demo_kernel_64 k) = 0x40000000 + 4096 * k" if "k < 64" for k
    using that by (simp add: unat_page_addr [OF wf])
  then have "k = 2" if "k < 64" "page_hits_bitmap demo_kernel_64 k" for k
    using that by (simp add: page_hits_bitmap_def bitmap_len_def)
  then show "source_inv demo_kernel_64"
    using wf by (simp add: source_inv_def bitmap_safe_iff demo_64_used)
  show "free_pages demo_kernel_64 = 63"
    by (simp add: free_pages_def demo_64_used upt_rec)
  have "k = 2" if "k < 64" "page_base 0x40002000 = page_addr demo_kernel_64 k" for k
    using addr [OF that(1)] that(2) [symmetric] by (simp add: page_base_def)
  then show "free_pages_zero demo_kernel_64"
    by (auto simp: free_pages_zero_def free_page_def demo_64_used)
qed

theorem internal_tests_pass_witness:
  "fst (run_internal_tests demo_kernel_64) = Semihosting 0x18 [0x20026, 0]"
  by (rule internal_tests_pass) (use demo_64_ready in simp_all)

end
