(* ===== verification/TestBoot.thy ===== *)
theory TestBoot
  imports TestSuite BootTheorems
begin

text \<open>
  The build with \<^verbatim>\<open>RUN_TESTS\<close>: \<open>main\<close> of \<^verbatim>\<open>src/kernel/main.c\<close> runs the in-kernel tests once
  the memory is set up, and does not come back from them.
\<close>

section \<open>main\<close>

text \<open>The value \<open>main\<close> returns, or the end of the machine.\<close>

definition main_run_tests ::
  "libfdt \<Rightarrow> linker \<Rightarrow> u64 \<Rightarrow> memory_map \<Rightarrow> kernel \<Rightarrow> ((int + outcome) \<times> kernel) option" where
  "main_run_tests lib lk boot_args_ptr mmap s =
     (case memory_setup lib lk boot_args_ptr mmap s of
        None \<Rightarrow> None
      | Some (ready, s) \<Rightarrow>
          if \<not> ready then Some (Inl 1, s)
          else let (end, s) = run_internal_tests s in Some (Inr end, s))"

section \<open>The free pages after boot\<close>

lemma page_in_image_range:
  assumes lay: "layout_ok lk base sz" and boot: "booted lk base sz s"
    and k: "k < unat (total_pages s)" and img: "page_in_image lk s k"
  shows "k \<in> {unat (image_start lk) div 4096 - unat (pool_start base) div 4096 ..<
    unat (image_start lk) div 4096 - unat (pool_start base) div 4096 + image_pages lk}"
proof -
  have wf: "alloc_wf s" and base: "mem_base s = pool_start base"
    using boot by (simp_all add: booted_def source_inv_def pool_initialised_def)
  have al: "4096 dvd unat (page_addr s k)" "4096 dvd unat (image_start lk)"
    using page_addr_aligned [OF wf k] lay by (simp_all add: page_aligned_dvd layout_ok_def)
  have "unat (image_start lk) \<le> unat (page_addr s k) \<and>
      unat (page_addr s k) < unat (image_start lk) + 4096 * image_pages lk"
    using image_page_bounds [OF al, of "unat (image_end lk)"] img lay
    by (simp add: page_in_image_def layout_ok_def image_pages_def)
  moreover have "unat (page_addr s k) = unat (pool_start base) + 4096 * k"
    using unat_page_addr [OF wf k] by (simp add: base)
  moreover have "4096 dvd unat (pool_start base)"
    using wf by (simp add: alloc_wf_def base page_aligned_dvd)
  ultimately show ?thesis using al(2) by (auto elim!: dvdE)
qed

lemma booted_free_pages:
  assumes "layout_ok lk base sz" and "booted lk base sz s"
  shows "unat (pool_pages base sz) \<le> free_pages s + image_pages lk"
proof -
  let ?N = "unat (total_pages s)"
  let ?used = "{k. k < ?N \<and> page_used s k}" and ?free = "{k. k < ?N \<and> \<not> page_used s k}"
  let ?i = "unat (image_start lk) div 4096 - unat (pool_start base) div 4096"
  have "?used \<subseteq> {?i ..< ?i + image_pages lk}"
    using page_in_image_range [OF assms] assms(2) by (auto simp: booted_def list_all_iff)
  then have "card ?used \<le> image_pages lk" using card_mono [of "{?i ..< ?i + image_pages lk}" ?used] by simp
  moreover have "{..< ?N} = ?used \<union> ?free" by auto
  then have "?N \<le> card ?used + card ?free" using card_Un_le [of ?used ?free] by (metis card_lessThan)
  ultimately show ?thesis
    using assms(2) by (simp add: free_pages_card booted_def pool_initialised_def)
qed

text \<open>Memory of the pool outside the image that was zero before boot makes zero pages after it.\<close>

definition pool_zero :: "linker \<Rightarrow> u64 \<Rightarrow> u64 \<Rightarrow> memory \<Rightarrow> bool" where
  "pool_zero lk base sz m \<longleftrightarrow> (\<forall>x. unat (pool_start base) \<le> unat x \<longrightarrow>
     unat x < unat (pool_start base) + 4096 * unat (pool_pages base sz) \<longrightarrow>
     \<not> (unat (image_start lk) \<le> unat x \<and> unat x < unat (image_end lk)) \<longrightarrow> m x = 0)"

text \<open>
  C26: The build with tests boots and passes them: with a valid device tree, an image laid out as the
  linker script does it, a pool that has 37 pages more than the image and ends below \<open>2 ^ 48\<close>, and
  all memory of the pool outside the image zero before boot, the machine ends with exit code 0.
\<close>

theorem test_build_passes:
  assumes env: "boot_env lib lk args base sz s" and len: "length (regions mmap) = MAX_MEM_REGIONS"
    and room: "image_pages lk + 37 \<le> unat (pool_pages base sz)"
    and low: "unat (pool_start base) + 4096 * unat (pool_pages base sz) \<le> 2 ^ 48"
    and zero: "pool_zero lk base sz (mem s)"
  shows "\<exists>s'. main_run_tests lib lk args mmap s = Some (Inr (Semihosting 0x18 [0x20026, 0]), s')"
proof -
  have lay: "layout_ok lk base sz" using env by (simp add: boot_env_def)
  obtain t where t: "memory_setup lib lk args mmap s = Some (True, t)" "booted lk base sz t"
    "\<And>x. \<not> in_bitmap t x \<Longrightarrow> mem t x = mem s x"
    by (rule boot_setup [OF env len]) blast
  have src: "source_inv t" and st: "mem_base t = pool_start base" "total_pages t = pool_pages base sz"
    using t(2) by (simp_all add: booted_def pool_initialised_def)
  have "37 \<le> free_pages t" using booted_free_pages [OF lay t(2)] room by linarith
  moreover have "free_pages_zero t"
    unfolding free_pages_zero_def
  proof (intro allI impI)
    fix x
    assume free: "free_page t (page_base x)"
    have "mem s x = 0" using zero free_page_address [OF t(2) free] unfolding pool_zero_def by blast
    then show "mem t x = 0" using t(3) free_page_not_bitmap [OF src free] by simp
  qed
  ultimately have "fst (run_internal_tests t) = Semihosting 0x18 [0x20026, 0]"
    using low by (intro tests_pass [OF src]) (simp_all add: st)
  then show ?thesis by (cases "run_internal_tests t") (simp add: main_run_tests_def t(1))
qed

theorem test_build_passes_witness:
  "\<exists>s'. main_run_tests demo_lib demo_linker 0x40013000 demo_map0 demo_boot =
     Some (Inr (Semihosting 0x18 [0x20026, 0]), s')"
proof (rule test_build_passes [OF demo_env demo_map0_len])
  have pool: "unat (pool_start 0x40000000) = 0x40000000" "unat (pool_pages 0x40000000 0x8000000) = 0x8000"
    by (simp_all add: pool_start_def pool_pages_def PAGE_SIZE_def)
  show "image_pages demo_linker + 37 \<le> unat (pool_pages 0x40000000 0x8000000)"
    by (simp add: pool image_pages_def demo_linker_def)
  show "unat (pool_start 0x40000000) + 4096 * unat (pool_pages 0x40000000 0x8000000) \<le> 2 ^ 48"
    by (simp add: pool)
  show "pool_zero demo_linker 0x40000000 0x8000000 (mem demo_boot)"
    unfolding pool_zero_def pool by (auto simp: demo_boot_def demo_blob_def demo_linker_def)
qed

end
