(* ===== verification/DumpTree.thy ===== *)
theory DumpTree
  imports PagingTheorems
begin

text \<open>
  What \<open>dump_memory_map\<close> prints: on a tree of tables, one line for each valid entry of the last
  level, in increasing order of virtual address. The recursion is first replaced by a pure text,
  then the text of a table by that of the range of pages it covers.
\<close>

section \<open>The text of a tree\<close>

text \<open>The line of one mapped page.\<close>

definition access_text :: "u64 \<Rightarrow> string" where
  "access_text ap =
     (if ap = 0 then '' RW(EL0) RW(EL1)'' else if ap = 1 then '' RO(EL0) RO(EL1)''
      else if ap = 2 then '' NO-ACCESS(EL0) RW(EL1)'' else if ap = 3 then '' NO-ACCESS(EL0) RO(EL1)''
      else [])"

definition page_line :: "u64 \<Rightarrow> u64 \<Rightarrow> string" where
  "page_line va e =
     ''VA 0x'' @ numeral_in 16 (unat va) @
     '' -> PA 0x'' @ numeral_in 16 (unat (get_page_table_entry_address e)) @
     '' [Flags: 0x'' @ numeral_in 16 (unat (e AND 0xFFF)) @ '']'' @
     (if pte_get Xn_table e \<noteq> 0 then '' XN'' else []) @
     (if pte_get Pxn_table e \<noteq> 0 then '' PXN'' else []) @
     access_text (pte_get Ap_table e) @ [CHR 0x0D, CHR 0x0A]"

lemma dump_leaf_send:
  assumes "console_up s"
  shows "dump_leaf va e s = send (page_line va e) s"
proof -
  have up: "console_up (send cs s)" for cs using assms by simp
  note log = klog_send [OF assms] klog_send [OF up]
  have head: "klog ''VA 0x%lx -> PA 0x%lx [Flags: 0x%lx]'' [A64 a, A64 b, A64 c] s = send
      (''VA 0x'' @ numeral_in 16 (unat a) @ '' -> PA 0x'' @ numeral_in 16 (unat b) @
       '' [Flags: 0x'' @ numeral_in 16 (unat c) @ '']'') s" for a b c
    by (simp add: log hex_text_def)
  have xn: "(if p then klog '' XN'' [] (send ds s) else send ds s) =
      send (ds @ (if p then '' XN'' else [])) s" for p ds
    by (simp add: log)
  have pxn: "(if p then klog '' PXN'' [] (send ds s) else send ds s) =
      send (ds @ (if p then '' PXN'' else [])) s" for p ds
    by (simp add: log)
  have access: "(if ap = 0 then klog '' RW(EL0) RW(EL1)'' [] (send ds s)
      else if ap = 1 then klog '' RO(EL0) RO(EL1)'' [] (send ds s)
      else if ap = 2 then klog '' NO-ACCESS(EL0) RW(EL1)'' [] (send ds s)
      else if ap = 3 then klog '' NO-ACCESS(EL0) RO(EL1)'' [] (send ds s)
      else send ds s) = send (ds @ access_text ap) s" for ap ds
    by (simp add: log access_text_def)
  have eol: "klog ''\<newline>'' [] (send ds s) = send (ds @ [CHR 0x0D, CHR 0x0A]) s" for ds
    by (simp add: log)
  show ?thesis
    unfolding dump_leaf_def Let_def head
    by (simp only: aptable_code.simps xn pxn access eol page_line_def append_assoc)
qed

section \<open>The recursion as a text\<close>

definition entry_line :: "u64 \<Rightarrow> u64 \<Rightarrow> string" where
  "entry_line va e = (if pte_get Valid e = 0 then [] else page_line va e)"

primrec dump_text :: "nat \<Rightarrow> memory \<Rightarrow> u64 \<Rightarrow> u64 \<Rightarrow> string" where
  "dump_text 0 m t prefix =
     concat (map (\<lambda>i. entry_line (partial_va 0 (word_of_nat i) prefix)
       (load64 m (entry_addr t (word_of_nat i)))) [0 ..< 512])"
| "dump_text (Suc d) m t prefix =
     concat (map (\<lambda>i. let e = load64 m (entry_addr t (word_of_nat i))
       in if pte_get Valid e = 0 then []
          else dump_text d m (get_page_table_entry_address e)
                 (partial_va (Suc d) (word_of_nat i) prefix)) [0 ..< 512])"

text \<open>A loop whose body sends a text that does not depend on what was sent before.\<close>

lemma for_words_send:
  assumes "\<And>i cs. f i (send cs s) = send (cs @ txt_of i) s"
  shows "for_words 0 512 f s = send (concat (map (\<lambda>i. txt_of (word_of_nat i)) [0 ..< 512])) s"
proof -
  have "fold (\<lambda>k. f (word_of_nat k)) ks (send cs s) =
      send (cs @ concat (map (\<lambda>i. txt_of (word_of_nat i)) ks)) s" for ks cs
    by (induction ks arbitrary: cs) (simp_all add: assms)
  from this [of _ "[]"] show ?thesis by (simp add: for_words_fold)
qed

lemma mem_send [simp]: "mem (send cs s) = mem s"
  by (simp add: send_def)

lemma dump_recursive_send:
  "console_up s \<Longrightarrow> dump_memory_map_recursive d t prefix s = send (dump_text d (mem s) t prefix) s"
proof (induction d arbitrary: t prefix s)
  case 0
  show ?case
    unfolding dump_memory_map_recursive.simps dump_text.simps
    by (rule for_words_send) (simp add: entry_value_def entry_line_def dump_leaf_send 0 Let_def)
next
  case (Suc d)
  show ?case
    unfolding dump_memory_map_recursive.simps dump_text.simps
    by (rule for_words_send [where txt_of = "\<lambda>i. let e = load64 (mem s) (entry_addr t i)
       in if pte_get Valid e = 0 then []
          else dump_text d (mem s) (get_page_table_entry_address e) (partial_va (Suc d) i prefix)"])
      (simp add: entry_value_def Suc Let_def)
qed

section \<open>The pages of a table\<close>

text \<open>The page with number \<open>n\<close>, and the entry of page \<open>n\<close> of those a table of depth \<open>d\<close> covers.\<close>

definition page_va :: "nat \<Rightarrow> u64" where
  "page_va n = push_bit 12 (word_of_nat n)"

primrec leaf_at :: "nat \<Rightarrow> memory \<Rightarrow> u64 \<Rightarrow> nat \<Rightarrow> u64" where
  "leaf_at 0 m t n = load64 m (entry_addr t (word_of_nat n))"
| "leaf_at (Suc d) m t n =
     (let e = load64 m (entry_addr t (word_of_nat (n div 512 ^ Suc d)))
      in if pte_get Valid e = 0 then 0
         else leaf_at d m (get_page_table_entry_address e) (n mod 512 ^ Suc d))"

lemma word_digit: "i < 512 \<Longrightarrow> (word_of_nat (q * 512 + i) :: u64) = push_bit 9 (word_of_nat q) OR word_of_nat i"
proof -
  assume i: "i < 512"
  then have low: "bit i n \<Longrightarrow> n < 9" for n
    using bit_take_bit_iff [of 9 i n] by (simp add: take_bit_nat_eq_self)
  have "push_bit 9 (word_of_nat q) + (word_of_nat i :: u64) = push_bit 9 (word_of_nat q) OR word_of_nat i"
    by (rule disjunctive_add) (auto simp: bit_simps dest: low)
  then show ?thesis by (simp add: push_bit_eq_mult mult.commute)
qed

text \<open>The prefix of a table that starts at page \<open>q * 512 ^ Suc d\<close>, and of its entries.\<close>

definition prefix_at :: "nat \<Rightarrow> nat \<Rightarrow> u64" where
  "prefix_at d q = push_bit (9 * d + 12) (word_of_nat q)"

lemma splice_digit:
  fixes w v :: u64
  shows "push_bit k v OR (push_bit (9 + k) w AND NOT (push_bit k (mask 9))) =
    push_bit k (push_bit 9 w OR v)"
  by (rule bit_word_eqI) (auto simp: bit_simps add.commute [of 9])

lemma partial_va_prefix:
  assumes "i < 512"
  shows "partial_va d (word_of_nat i) (prefix_at (Suc d) q) = prefix_at d (q * 512 + i)"
proof -
  have m: "IDX_MASK = mask 9" by (simp add: IDX_MASK_def mask_eq_exp_minus_1)
  have k: "9 * Suc d + 12 = 9 + (9 * d + 12)" by simp
  show ?thesis
    using splice_digit [of "9 * d + 12" "word_of_nat i" "word_of_nat q"]
    unfolding partial_va_def prefix_at_def word_digit [OF assms] Let_def m k .
qed

lemma upt_blocks: "[0 ..< a * b] = concat (map (\<lambda>i. map (\<lambda>k. i * b + k) [0 ..< b]) [0 ..< a])"
proof (induction a)
  case (Suc a)
  have "[0 ..< Suc a * b] = [0 ..< a * b] @ [a * b ..< a * b + b]"
    using upt_add_eq_append [of 0 "a * b" b] by (simp add: add.commute)
  moreover have "[a * b ..< a * b + b] = map (\<lambda>k. a * b + k) [0 ..< b]"
    by (rule nth_equalityI) simp_all
  ultimately show ?case using Suc.IH by simp
qed simp

lemma concat_map_concat: "concat (map f (concat (map g xs))) = concat (map (\<lambda>i. concat (map f (g i))) xs)"
  by (induction xs) simp_all

lemma dump_text_pages:
  "dump_text d m t (prefix_at (Suc d) q) =
     concat (map (\<lambda>n. entry_line (page_va (q * 512 ^ Suc d + n)) (leaf_at d m t n)) [0 ..< 512 ^ Suc d])"
proof (induction d arbitrary: t q)
  case 0
  have "partial_va 0 (word_of_nat i) (prefix_at (Suc 0) q) = page_va (q * 512 + i)" if "i < 512" for i
    using partial_va_prefix [OF that, of 0 q] by (simp add: prefix_at_def page_va_def)
  then show ?case
    unfolding dump_text.simps leaf_at.simps power_Suc power_0 mult_1_right
    by (intro arg_cong [where f = concat] map_cong refl) (simp only: set_upt atLeastLessThan_iff)
next
  case (Suc d)
  define B :: nat where "B = 512 ^ Suc d"
  have B2: "512 ^ Suc (Suc d) = 512 * B" by (simp add: B_def)
  have block: "(let e = load64 m (entry_addr t (word_of_nat i))
       in if pte_get Valid e = 0 then []
          else dump_text d m (get_page_table_entry_address e)
                 (partial_va (Suc d) (word_of_nat i) (prefix_at (Suc (Suc d)) q))) =
      concat (map (\<lambda>n. entry_line (page_va (q * (512 * B) + n)) (leaf_at (Suc d) m t n))
        (map (\<lambda>k. i * B + k) [0 ..< B]))" if i: "i < 512" for i
  proof -
    let ?e = "load64 m (entry_addr t (word_of_nat i))"
    have digits: "(i * B + k) div B = i" "(i * B + k) mod B = k" if "k < B" for k
      using that by simp_all
    have leaf: "leaf_at (Suc d) m t (i * B + k) =
        (if pte_get Valid ?e = 0 then 0 else leaf_at d m (get_page_table_entry_address ?e) k)"
      if "k < B" for k
      unfolding leaf_at.simps B_def [symmetric] digits [OF that] Let_def ..
    have va: "(q * 512 + i) * B + k = q * (512 * B) + (i * B + k)" for k
      by (simp add: algebra_simps)
    have "concat (map (\<lambda>n. entry_line (page_va (q * (512 * B) + n)) (leaf_at (Suc d) m t n))
        (map (\<lambda>k. i * B + k) [0 ..< B])) =
      concat (map (\<lambda>k. entry_line (page_va ((q * 512 + i) * B + k))
        (if pte_get Valid ?e = 0 then 0 else leaf_at d m (get_page_table_entry_address ?e) k)) [0 ..< B])"
      unfolding map_map comp_def va
      by (intro arg_cong [where f = concat] map_cong refl)
        (simp only: set_upt atLeastLessThan_iff leaf)
    then show ?thesis
      unfolding Let_def partial_va_prefix [OF i] Suc.IH B_def [symmetric]
      by (simp add: entry_line_def [of _ 0])
  qed
  have "concat (map (\<lambda>n. entry_line (page_va (q * (512 * B) + n)) (leaf_at (Suc d) m t n)) [0 ..< 512 * B]) =
    concat (map (\<lambda>i. concat (map (\<lambda>n. entry_line (page_va (q * (512 * B) + n)) (leaf_at (Suc d) m t n))
      (map (\<lambda>k. i * B + k) [0 ..< B]))) [0 ..< 512])"
    unfolding upt_blocks [of 512 B] by (rule concat_map_concat)
  then show ?case
    unfolding dump_text.simps B2
    by (simp only:) (intro arg_cong [where f = concat] map_cong refl, rule block, simp only: set_upt atLeastLessThan_iff)
qed

section \<open>The pages of an address space\<close>

text \<open>The number of pages of an address space: four levels of 512 entries.\<close>

definition va_pages :: nat where
  "va_pages = 512 ^ 4"

lemma unat_digit: "unat (word_of_nat (k mod 512) :: u64) = k mod 512"
  by (simp only: unat_of_nat take_bit_eq_mod) simp

lemma idx9_digit: "idx9 (word_of_nat (k mod 512))"
  by (simp only: word_less_nat_alt unat_digit) simp

lemma unat_page_va:
  assumes "n < va_pages"
  shows "unat (page_va n) = n * 2 ^ 12"
proof -
  have n: "n * 2 ^ 12 < 2 ^ 64" using assms by (simp add: va_pages_def)
  have "page_va n = word_of_nat (n * 2 ^ 12)"
    by (simp add: page_va_def push_bit_eq_mult)
  then show ?thesis using n by (simp only: unat_of_nat take_bit_eq_mod) simp
qed

lemma level_idx_page_va:
  assumes "n < va_pages" and "j < 4"
  shows "level_idx (9 * j + 12) (page_va n) = word_of_nat (n div 512 ^ j mod 512)"
proof -
  note va = unat_page_va [OF assms(1)]
  have "512 ^ j = (2 :: nat) ^ (9 * j)" by (simp add: power_mult)
  moreover have "n * 2 ^ 12 div 2 ^ (9 * j + 12) = n div 2 ^ (9 * j)"
    by (simp add: power_add)
  moreover have "level_idx k v = take_bit 9 (drop_bit k v)" for k v
    by (simp add: level_idx_def IDX_MASK_def take_bit_eq_mask mask_eq_exp_minus_1)
  moreover have "unat (take_bit 9 (drop_bit k v)) = unat v div 2 ^ k mod 512" for k and v :: u64
    by (simp only: unsigned_take_bit_eq unat_drop_bit_eq) (simp add: drop_bit_eq_div take_bit_eq_mod)
  ultimately have "unat (level_idx (9 * j + 12) (page_va n)) = n div 512 ^ j mod 512"
    by (simp only: va)
  then show ?thesis by (simp only: word_unat_eq_iff unat_digit)
qed

text \<open>The entry of a page is the one the walk of its address reaches.\<close>

lemma digit_of_rest: "(n :: nat) mod (b * 512) div b = n div b mod 512"
  by (cases "b = 0") (simp_all add: mod_mult2_eq)

lemma table_at_valid:
  assumes "vm_inv s root" and "table_at (mem s) root p = Some t" and "vpath 3 idx9 p" and "idx9 i"
  shows "table_at (mem s) root (p @ [i]) =
    (if pte_get Valid (load64 (mem s) (entry_addr t i)) = 0 then None
     else Some (get_page_table_entry_address (load64 (mem s) (entry_addr t i))))"
  using assms by (auto simp: vm_inv_def table_at_def descend_snoc next_table_def is_table_def)

lemma table_at_none: "table_at m root p = None \<Longrightarrow> table_at m root (p @ q) = None"
  by (simp add: table_at_def descend_append)

lemma leaf_at_entry:
  assumes inv: "vm_inv s root" and n: "n < va_pages"
  shows "leaf_at 3 (mem s) root n = leaf_entry (mem s) root (page_va n)"
proof -
  define a b c e :: u64 where "a = word_of_nat (n div 512 ^ 3 mod 512)"
    and "b = word_of_nat (n div 512 ^ 2 mod 512)" and "c = word_of_nat (n div 512 mod 512)"
    and "e = word_of_nat (n mod 512)"
  have digits: "n div 512 ^ Suc (Suc (Suc 0)) = n div 512 ^ 3 mod 512"
    "n mod 512 ^ Suc (Suc (Suc 0)) div 512 ^ Suc (Suc 0) = n div 512 ^ 2 mod 512"
    "n mod 512 ^ Suc (Suc (Suc 0)) mod 512 ^ Suc (Suc 0) div 512 ^ Suc 0 = n div 512 mod 512"
    "n mod 512 ^ Suc (Suc (Suc 0)) mod 512 ^ Suc (Suc 0) mod 512 ^ Suc 0 = n mod 512"
    using n digit_of_rest [of n "512 ^ 2"] digit_of_rest [of n 512]
    by (simp_all add: va_pages_def mod_mod_cancel)
  have idx: "idx9 a" "idx9 b" "idx9 c"
    unfolding a_def b_def c_def by (rule idx9_digit)+
  have "leaf_entry (mem s) root (page_va n) = page_entry (mem s) root [a, b, c] e"
    using level_idx_page_va [OF n, of 0] level_idx_page_va [OF n, of 1]
      level_idx_page_va [OF n, of 2] level_idx_page_va [OF n, of 3]
    by (simp add: leaf_entry_def va_path_def a_def b_def c_def e_def)
  moreover have "leaf_at 3 (mem s) root n = page_entry (mem s) root [a, b, c] e"
  proof -
    have root: "table_at (mem s) root [] = Some root" by (simp add: table_at_def)
    have path: "vpath 3 idx9 []" "vpath 3 idx9 [a]" "vpath 3 idx9 [a, b]"
      using idx by (simp_all add: vpath_def)
    note 1 = table_at_valid [OF inv root path(1) idx(1), unfolded append_Nil]
    note 2 = table_at_valid [OF inv _ path(2) idx(2), unfolded append_Cons append_Nil]
    note 3 = table_at_valid [OF inv _ path(3) idx(3), unfolded append_Cons append_Nil]
    note none = table_at_none [of _ _ "[a]" "[b, c]"] table_at_none [of _ _ "[a, b]" "[c]"]
    let ?e = "\<lambda>t i. load64 (mem s) (entry_addr t i)"
    have three: "leaf_at 3 = leaf_at (Suc (Suc (Suc 0)))" by (simp only: numeral_3_eq_3)
    have "leaf_at 3 (mem s) root n =
      (if pte_get Valid (?e root a) = 0 then 0
       else let t = get_page_table_entry_address (?e root a)
         in if pte_get Valid (?e t b) = 0 then 0
            else let u = get_page_table_entry_address (?e t b)
              in if pte_get Valid (?e u c) = 0 then 0
                 else ?e (get_page_table_entry_address (?e u c)) e)"
      unfolding three leaf_at.simps Let_def digits a_def b_def c_def e_def ..
    then show ?thesis
      by (auto simp: page_entry_def 1 2 3 Let_def none [unfolded append_Cons append_Nil])
  qed
  ultimately show ?thesis by simp
qed

section \<open>The dump\<close>

text \<open>The pages with a valid entry, in increasing order.\<close>

definition mapped_pages :: "memory \<Rightarrow> u64 \<Rightarrow> nat list" where
  "mapped_pages m root =
     filter (\<lambda>n. pte_get Valid (leaf_entry m root (page_va n)) \<noteq> 0) [0 ..< va_pages]"

lemma concat_map_filter_if:
  "concat (map (\<lambda>x. if P x then [] else f x) xs) = concat (map f (filter (\<lambda>x. \<not> P x) xs))"
  by (induction xs) simp_all

lemma dump_text_root:
  assumes "vm_inv s root"
  shows "dump_text 3 (mem s) root 0 =
    concat (map (\<lambda>n. page_line (page_va n) (leaf_entry (mem s) root (page_va n)))
      (mapped_pages (mem s) root))"
proof -
  have pages: "512 ^ Suc 3 = va_pages" and prefix: "prefix_at (Suc 3) 0 = 0"
    by (simp_all add: va_pages_def prefix_at_def)
  have "dump_text 3 (mem s) root 0 =
      concat (map (\<lambda>n. entry_line (page_va n) (leaf_at 3 (mem s) root n)) [0 ..< va_pages])"
    using dump_text_pages [of 3 "mem s" root 0] unfolding prefix pages mult_0 add_0 .
  also have "\<dots> = concat (map (\<lambda>n. entry_line (page_va n) (leaf_entry (mem s) root (page_va n)))
      [0 ..< va_pages])"
    by (intro arg_cong [where f = concat] map_cong refl)
      (simp only: set_upt atLeastLessThan_iff leaf_at_entry [OF assms])
  finally show ?thesis
    unfolding entry_line_def mapped_pages_def concat_map_filter_if .
qed

text \<open>
  C36: On a tree of tables, with the console set up, \<open>dump_memory_map\<close> sends between its two banners one
  line for each mapped page of the address space and no other, in increasing order of virtual
  address; the line shows the page's own address, the physical address its entry holds, the low
  flags, and the permissions. Nothing but the output changes.
\<close>

theorem dump_lists_mapped_pages:
  assumes "vm_inv s root" and "console_up s"
  shows "dump_memory_map root s = send
    (''--- Memory Map Dump Start ---'' @ [CHR 0x0D, CHR 0x0A] @
     concat (map (\<lambda>n. page_line (page_va n) (leaf_entry (mem s) root (page_va n)))
       (filter (\<lambda>n. pte_get Valid (leaf_entry (mem s) root (page_va n)) \<noteq> 0) [0 ..< va_pages])) @
     ''--- Memory Map Dump End ---'' @ [CHR 0x0D, CHR 0x0A]) s"
proof -
  have up: "console_up (send cs s)" for cs using assms(2) by simp
  have head: "klog ''--- Memory Map Dump Start ---\<newline>'' [] s =
      send (''--- Memory Map Dump Start ---'' @ [CHR 0x0D, CHR 0x0A]) s"
    and foot: "klog ''--- Memory Map Dump End ---\<newline>'' [] (send cs s) =
      send (cs @ ''--- Memory Map Dump End ---'' @ [CHR 0x0D, CHR 0x0A]) s" for cs
    by (simp_all add: klog_send [OF assms(2)] klog_send [OF up])
  show ?thesis
    unfolding dump_memory_map_def Let_def head dump_recursive_send [OF up] mem_send
      dump_text_root [OF assms(1)] send_send foot mapped_pages_def append_assoc ..
qed

text \<open>
  Mapping touches neither the console nor the bounds of the pool, and a page mapped into an empty
  space is the only one.
\<close>

abbreviation wiring :: "kernel \<Rightarrow> serial \<times> uart_device \<times> u64 \<times> u64" where
  "wiring s \<equiv> (serial_console s, uart0 s, mem_base s, total_pages s)"

lemma page_alloc_loop_wiring: "wiring (snd (page_alloc_loop n i c st s)) = wiring s"
proof (induction n i c st s rule: page_alloc_loop.induct)
  case (1 n i c st s)
  then show ?case by (simp add: page_alloc_loop.simps [of n i c st s] Let_def)
qed

lemma page_alloc_wiring: "page_alloc n s = (p, s') \<Longrightarrow> wiring s' = wiring s"
  using page_alloc_loop_wiring [of n 0 0 0 s]
  by (auto simp: page_alloc_def split: if_splits)

lemma page_table_init_wiring: "wiring (page_table_init t s) = wiring s"
  unfolding page_table_init_def
  by (rule for_words_frame) (simp add: zero_entry_def modify_entry_def)

lemma get_next_level_table_wiring:
  "get_next_level_table a s = (t, s') \<Longrightarrow> wiring s' = wiring s"
  using page_table_init_wiring
  by (auto simp: get_next_level_table_def allocate_new_table_def set_next_level_table_def
      set_page_table_entry_address_def modify_entry_def Let_def
      dest!: page_alloc_wiring split: prod.splits if_splits)

lemma map_page_wiring: "map_page root va pa perms s = (ok, s') \<Longrightarrow> wiring s' = wiring s"
  by (auto simp: map_page_def write_leaf_eq Let_def
      dest!: get_next_level_table_wiring split: prod.splits if_splits)

lemma leaf_after_map:
  assumes "vm_inv s root" and "map_page root va pa perms s = (True, s')"
  shows "leaf_entry (mem s') root vb =
    (if vpn vb = vpn va then page_desc pa perms else leaf_entry (mem s) root vb)"
proof -
  obtain s1 t where r: "extends s s1 root" "table_at (mem s1) root (va_path va) = Some t"
    "s' = write_leaf (entry_addr t (level_idx 12 va)) pa perms s1"
    by (rule map_page_success [OF assms])
  note w = write_leaf_spec [OF extends_inv [OF r(1)] r(2), where pa = pa and perms = perms, folded r(3)]
  have "leaf_entry (mem s') root vb = leaf_entry (mem s1) root vb" if "vpn vb \<noteq> vpn va"
    using that va_path_eq_iff [of vb va] by (intro w(4)) (auto simp: vpn_def)
  moreover have "leaf_entry (mem s1) root vb = leaf_entry (mem s) root vb"
    using r(1) by (simp add: extends_def leaf_entry_def level_idx_less)
  ultimately show ?thesis using w(3) leaf_entry_vpn [of vb va] by simp
qed

lemma vpn_page_va: "n < va_pages \<Longrightarrow> unat (vpn (page_va n)) = n"
  by (simp only: vpn_def unsigned_take_bit_eq unat_drop_bit_eq unat_page_va)
    (simp add: drop_bit_eq_div take_bit_eq_mod va_pages_def)

lemma filter_one: "k < m \<Longrightarrow> filter (\<lambda>n. n = k) [0 ..< m] = [k]"
  by (induction m) (auto simp: less_Suc_eq filter_empty_conv)

definition demo_mapped :: kernel where
  "demo_mapped = snd (map_page demo_root 0x1000 0x7000 demo_perms demo_vm)"

lemma demo_mapped_run: "map_page demo_root 0x1000 0x7000 demo_perms demo_vm = (True, demo_mapped)"
  unfolding demo_mapped_def by (rule demo_map) (simp add: page_aligned_def)

lemma demo_mapped_inv: "vm_inv demo_mapped demo_root"
  using map_page_success [OF demo_vm_inv demo_mapped_run] write_leaf_spec(1) extends_inv by metis

lemma demo_mapped_up: "console_up demo_mapped"
proof -
  have "wiring demo_mapped = wiring demo_vm" by (rule map_page_wiring [OF demo_mapped_run])
  moreover have "wiring demo_vm = wiring demo_kernel"
    using page_alloc_wiring page_table_init_wiring
    by (auto simp: demo_vm_def root_table_def split: prod.splits)
  ultimately show ?thesis
    using console_kernel_up by (simp add: console_up_def demo_kernel_def)
qed

lemma demo_mapped_pages: "mapped_pages (mem demo_mapped) demo_root = [1]"
proof -
  have "pte_get Valid (leaf_entry (mem demo_mapped) demo_root (page_va n)) \<noteq> 0 \<longleftrightarrow> n = 1"
    if "n < va_pages" for n
  proof -
    have "vpn 0x1000 = 1" by (simp add: vpn_def)
    then have "vpn (page_va n) = vpn 0x1000 \<longleftrightarrow> n = 1"
      using vpn_page_va [OF that] by (auto simp: word_unat_eq_iff)
    then show ?thesis
      by (simp add: leaf_after_map [OF demo_vm_inv demo_mapped_run] demo_vm_empty page_desc_fields)
  qed
  then have "mapped_pages (mem demo_mapped) demo_root = filter (\<lambda>n. n = 1) [0 ..< va_pages]"
    unfolding mapped_pages_def by (intro filter_cong refl) (simp only: set_upt atLeastLessThan_iff)
  then show ?thesis using filter_one [of 1 va_pages] by (simp add: va_pages_def)
qed

lemma demo_mapped_line:
  "page_line (page_va 1) (leaf_entry (mem demo_mapped) demo_root (page_va 1)) =
   ''VA 0x1000 -> PA 0x7000 [Flags: 0x3] XN PXN RO(EL0) RO(EL1)'' @ [CHR 0x0D, CHR 0x0A]"
proof -
  let ?e = "page_desc 0x7000 demo_perms"
  have va: "page_va 1 = 0x1000" by (simp add: page_va_def)
  have e: "leaf_entry (mem demo_mapped) demo_root 0x1000 = ?e"
    by (simp add: leaf_after_map [OF demo_vm_inv demo_mapped_run])
  have mask: "0xFFF = (mask 12 :: u64)" by (simp add: mask_eq_exp_minus_1)
  have "?e AND 0xFFF = take_bit 59 ?e AND 0xFFF"
    unfolding mask by (rule bit_word_eqI) (auto simp: bit_simps)
  then have flags: "?e AND 0xFFF = 3"
    unfolding low_bits_page_desc by simp
  have "numeral_in 16 0x1000 = ''1000''" "numeral_in 16 0x7000 = ''7000''" "numeral_in 16 3 = ''3''"
    by (simp_all add: numeral_in.simps digit_of_def char_of_def bit_0)
  then show ?thesis
    unfolding page_line_def va e flags by (simp add: page_desc_fields perm_ap_def access_text_def)
qed

theorem dump_lists_mapped_pages_witness:
  "dump_memory_map demo_root demo_mapped = send
    (''--- Memory Map Dump Start ---'' @ [CHR 0x0D, CHR 0x0A] @
     ''VA 0x1000 -> PA 0x7000 [Flags: 0x3] XN PXN RO(EL0) RO(EL1)'' @ [CHR 0x0D, CHR 0x0A] @
     ''--- Memory Map Dump End ---'' @ [CHR 0x0D, CHR 0x0A]) demo_mapped"
  using dump_lists_mapped_pages [OF demo_mapped_inv demo_mapped_up]
  unfolding mapped_pages_def [symmetric] demo_mapped_pages list.map concat.simps demo_mapped_line
    append_Nil2 append_assoc .

end
