(* ===== verification/ClientRuns.thy ===== *)
theory ClientRuns
  imports DumpTree BootTheorems
begin

text \<open>
  A client of the kernel over any number of calls: it maps pages, allocates blocks, writes to the
  blocks it holds and frees them. The abstract state of the client says which bytes it holds, what
  it wrote there and which pages it mapped; the theorems say that the kernel's memory and its
  translation always agree with it, and that the bytes of others stay as they are.
\<close>

section \<open>Requests\<close>

text \<open>What the client knows: its bytes, their content, and the frame of each mapped page.\<close>

record client =
  held :: "u64 set"
  content :: memory
  mapping :: "u64 \<Rightarrow> u64 option"

text \<open>The bytes of \<open>n\<close> pages from \<open>p\<close>.\<close>

definition block :: "u64 \<Rightarrow> u64 \<Rightarrow> u64 set" where
  "block p n = {x. unat p \<le> unat x \<and> unat x < unat p + 4096 * unat n}"

definition on_map :: "bool \<Rightarrow> u64 \<Rightarrow> u64 \<Rightarrow> client \<Rightarrow> client" where
  "on_map ok va pa c = (if ok then c\<lparr>mapping := (mapping c)(vpn va \<mapsto> pa)\<rparr> else c)"

definition on_alloc :: "u64 \<Rightarrow> u64 \<Rightarrow> memory \<Rightarrow> client \<Rightarrow> client" where
  "on_alloc p n m c =
     (if p = 0 then c
      else c\<lparr>held := held c \<union> block p n,
             content := \<lambda>x. if x \<in> block p n then m x else content c x\<rparr>)"

definition on_free :: "u64 \<Rightarrow> u64 \<Rightarrow> client \<Rightarrow> client" where
  "on_free p n c = c\<lparr>held := held c - block p n\<rparr>"

definition on_store :: "u64 \<Rightarrow> u8 \<Rightarrow> client \<Rightarrow> client" where
  "on_store x b c = c\<lparr>content := (content c)(x := b)\<rparr>"

text \<open>
  One step of kernel and client. The client keeps to the contract: it frees whole pages it holds,
  stores only where it holds the byte, and maps physical addresses below \<open>2 ^ 48\<close>.
\<close>

inductive client_step :: "u64 \<Rightarrow> kernel \<times> client \<Rightarrow> kernel \<times> client \<Rightarrow> bool" for root where
  Map: "map_page root va pa perms s = (ok, s') \<Longrightarrow> unat pa < 2 ^ 48 \<Longrightarrow>
     client_step root (s, c) (s', on_map ok va pa c)"
| Alloc: "page_alloc n s = (p, s') \<Longrightarrow> client_step root (s, c) (s', on_alloc p n (mem s') c)"
| Free: "page_aligned p \<Longrightarrow> n \<noteq> 0 \<Longrightarrow> block p n \<subseteq> held c \<Longrightarrow>
     client_step root (s, c) (page_free p n s, on_free p n c)"
| Store: "x \<in> held c \<Longrightarrow>
     client_step root (s, c) (s\<lparr>mem := (mem s)(x := b)\<rparr>, on_store x b c)"
| Print: "client_step root (s, c) (klog fmt args s, c)"

inductive client_run :: "u64 \<Rightarrow> kernel \<times> client \<Rightarrow> kernel \<times> client \<Rightarrow> bool" for root where
  Done: "client_run root sc sc"
| Step: "client_run root sc sc' \<Longrightarrow> client_step root sc' sc'' \<Longrightarrow> client_run root sc sc''"

section \<open>The simulation relation\<close>

text \<open>
  A byte the client holds lies in a page of the pool, is protected from the kernel and has the
  content the client gave it. The bytes of others are protected too and are as in \<open>m0\<close>.
\<close>

definition pool_page :: "kernel \<Rightarrow> u64 \<Rightarrow> bool" where
  "pool_page s a \<longleftrightarrow> (\<exists>k < unat (total_pages s). a = page_addr s k)"

definition simulates :: "u64 \<Rightarrow> u64 set \<Rightarrow> memory \<Rightarrow> kernel \<Rightarrow> client \<Rightarrow> bool" where
  "simulates root others m0 s c \<longleftrightarrow> vm_inv s root \<and> others \<inter> held c = {} \<and>
     (\<forall>va. translate (mem s) root va =
        map_option (\<lambda>pa. pa + (va AND 0xFFF)) (mapping c (vpn va))) \<and>
     (\<forall>x \<in> held c. protected s root x \<and> pool_page s (page_base x) \<and> mem s x = content c x) \<and>
     (\<forall>x \<in> others. protected s root x \<and> mem s x = m0 x)"

lemma simulatesD:
  assumes "simulates root others m0 s c"
  shows "vm_inv s root" and "others \<inter> held c = {}"
    and "translate (mem s) root va = map_option (\<lambda>pa. pa + (va AND 0xFFF)) (mapping c (vpn va))"
    and "x \<in> held c \<Longrightarrow> protected s root x" and "x \<in> held c \<Longrightarrow> pool_page s (page_base x)"
    and "x \<in> held c \<Longrightarrow> mem s x = content c x"
    and "x \<in> others \<Longrightarrow> protected s root x" and "x \<in> others \<Longrightarrow> mem s x = m0 x"
  using assms by (auto simp: simulates_def)

section \<open>Pages and blocks\<close>

lemma page_base_eq_iff:
  assumes "alloc_wf s" and "j < unat (total_pages s)"
  shows "page_base x = page_addr s j \<longleftrightarrow> page_no x = unat (mem_base s) div 4096 + j"
proof -
  obtain q where q: "unat (mem_base s) = 4096 * q"
    using assms(1) by (auto simp: alloc_wf_def page_aligned_dvd)
  have "unat (page_base x) = 4096 * page_no x"
    unfolding page_base_def unat_page_floor page_no_def by (rule minus_mod_eq_mult_div)
  moreover have "unat (page_addr s j) = 4096 * (q + j)"
    using unat_page_addr [OF assms] by (simp add: q)
  moreover have "4096 * page_no x = 4096 * (q + j) \<longleftrightarrow> page_no x = q + j" by (rule nat_mult_eq_cancel1) simp
  ultimately show ?thesis by (simp only: word_unat_eq_iff q) simp
qed

lemma block_iff:
  assumes "alloc_wf s" and "k + unat n \<le> unat (total_pages s)" and "n \<noteq> 0"
  shows "x \<in> block (page_addr s k) n \<longleftrightarrow>
    (\<exists>j. k \<le> j \<and> j < k + unat n \<and> page_base x = page_addr s j)"
proof -
  obtain q where q: "unat (mem_base s) = 4096 * q"
    using assms(1) by (auto simp: alloc_wf_def page_aligned_dvd)
  have "0 < unat n" using assms(3) by (simp add: unat_gt_0)
  then have k: "k < unat (total_pages s)" using assms(2) by linarith
  have "unat (page_addr s k) = 4096 * (q + k)" using unat_page_addr [OF assms(1) k] by (simp add: q)
  then have "x \<in> block (page_addr s k) n \<longleftrightarrow> q + k \<le> page_no x \<and> page_no x < q + k + unat n"
    by (auto simp: block_def page_no_def)
  also have "\<dots> \<longleftrightarrow> (\<exists>j. k \<le> j \<and> j < k + unat n \<and> page_no x = q + j)"
    by (auto intro: exI [of _ "page_no x - q"])
  also have "\<dots> \<longleftrightarrow> (\<exists>j. k \<le> j \<and> j < k + unat n \<and> page_base x = page_addr s j)"
    using page_base_eq_iff [OF assms(1)] assms(2) q by (metis nonzero_mult_div_cancel_left
        order_less_le_trans zero_neq_numeral)
  finally show ?thesis .
qed

section \<open>What allocating does\<close>

lemma page_alloc_keeps_vm:
  assumes inv: "vm_inv s root" and run: "page_alloc n s = (p, s')"
  shows "extends s s' root"
    and "vpath 3 idx9 q \<Longrightarrow> table_at (mem s') root q = table_at (mem s) root q"
    and "in_bitmap s' = in_bitmap s" and "source_inv s'"
proof -
  note src = vm_inv_source [OF inv]
  note eff = page_alloc_effect [OF src run]
  show bm: "in_bitmap s' = in_bitmap s" by (rule in_bitmap_cong) (simp_all add: eff)
  have grow: "page_used s' j" if "page_used s j" for j
    using that eff(5,6) by (cases "p = 0") auto
  show src': "source_inv s'" by (rule source_inv_grow [OF src eff(1-3) grow])
  have use: "ps.usable s' t" if "ps.usable s t" for t
    using that grow by (auto simp: ps.usable_def page_owned_def bm page_addr_cong [OF eff(1)])
  have bytes: "same_tables s s' root"
    using vm_inv_usable [OF inv] eff(4) by (auto simp: same_tables_def ps.usable_def)
  note fr = extends_frame [OF inv src' eff(1,3) use bytes]
  show "extends s s' root" by (rule fr)
  show "vpath 3 idx9 q \<Longrightarrow> table_at (mem s') root q = table_at (mem s) root q" by (rule fr)
qed

lemma page_alloc_keeps_protected:
  assumes inv: "vm_inv s root" and run: "page_alloc n s = (p, s')" and x: "protected s root x"
  shows "mem s' x = mem s x" and "protected s' root x"
proof -
  note src = vm_inv_source [OF inv]
  note eff = page_alloc_effect [OF src run]
  show "mem s' x = mem s x" using eff(4) x by (simp add: protected_def)
  have "page_used s' j" if "page_used s j" for j
    using that eff(5,6) by (cases "p = 0") auto
  then show "protected s' root x"
    using x page_alloc_keeps_vm(2,3) [OF inv run]
    by (auto simp: protected_def free_page_def unlinked_def eff(3) page_addr_cong [OF eff(1)])
qed

text \<open>The bytes of a new block were free before, so nobody held them, and are protected now.\<close>

lemma page_alloc_block:
  assumes inv: "vm_inv s root" and run: "page_alloc n s = (p, s')" and nz: "p \<noteq> 0"
    and x: "x \<in> block p n"
  shows "free_page s (page_base x)" and "protected s' root x" and "pool_page s' (page_base x)"
proof -
  note src = vm_inv_source [OF inv]
  have wf: "alloc_wf s" using src by (simp add: source_inv_def)
  note eff = page_alloc_effect [OF src run]
  obtain k where k: "p = page_addr s k" "k + unat n \<le> unat (total_pages s)" "n \<noteq> 0"
    "free_run (page_used s) k (unat n)"
    "\<And>j. page_used s' j \<longleftrightarrow> page_used s j \<or> (k \<le> j \<and> j < k + unat n)"
    using eff(6) [OF nz] by blast
  obtain j where j: "k \<le> j" "j < k + unat n" "page_base x = page_addr s j"
    using x block_iff [OF wf k(2,3)] k(1) by auto
  have less: "j < unat (total_pages s)" using j(2) k(2) by linarith
  have un: "\<not> page_used s j" using k(4) j(1,2) by (auto simp: free_run_iff)
  show free: "free_page s (page_base x)" using less un j(3) by (auto simp: free_page_def)
  show "pool_page s' (page_base x)"
    using less j(3) by (auto simp: pool_page_def eff(3) page_addr_cong [OF eff(1)])
  have "\<not> free_page s' (page_base x)"
  proof
    assume "free_page s' (page_base x)"
    then obtain i where i: "i < unat (total_pages s)" "page_base x = page_addr s i" "\<not> page_used s' i"
      by (auto simp: free_page_def eff(3) page_addr_cong [OF eff(1)])
    then have "i = j" using page_addr_inj [OF wf] less j(3) by simp
    then show False using i(3) k(5) j(1,2) by simp
  qed
  moreover have "\<not> page_owned s (page_base x)"
    using un less j(3) page_addr_inj [OF wf less] page_used_less
    by (auto simp: page_owned_def)
  then have "unlinked s' root (page_base x)"
    using vm_inv_usable [OF inv] page_alloc_keeps_vm(2) [OF inv run]
    by (auto simp: unlinked_def ps.usable_def)
  moreover have "\<not> in_bitmap s' x"
    using free_page_not_bitmap [OF src free] page_alloc_keeps_vm(3) [OF inv run] by simp
  ultimately show "protected s' root x" by (simp add: protected_def)
qed

section \<open>What freeing does\<close>

lemma held_block_pages:
  assumes wf: "alloc_wf s" and p: "page_aligned p" and n: "n \<noteq> 0"
    and pool: "\<And>x. x \<in> block p n \<Longrightarrow> pool_page s (page_base x)"
  obtains k where "p = page_addr s k" and "k + unat n \<le> unat (total_pages s)"
proof -
  obtain q where q: "unat (mem_base s) = 4096 * q"
    using wf by (auto simp: alloc_wf_def page_aligned_dvd)
  have n0: "0 < unat n" using n by (simp add: unat_gt_0)
  then have "p \<in> block p n" by (simp add: block_def)
  from pool [OF this] obtain k where k: "k < unat (total_pages s)" "p = page_addr s k"
    using page_base_no [OF p refl] by (auto simp: pool_page_def)
  have base: "unat p = 4096 * (q + k)" using unat_page_addr [OF wf k(1)] by (simp add: k(2) q)
  have "k + unat n \<le> unat (total_pages s)"
  proof (rule ccontr)
    assume not_le: "\<not> k + unat n \<le> unat (total_pages s)"
    let ?x = "word_of_nat (4096 * (q + unat (total_pages s))) :: u64"
    have "4096 * (q + unat (total_pages s)) < 2 ^ 64"
      using wf by (simp add: alloc_wf_def q)
    then have x: "unat ?x = 4096 * (q + unat (total_pages s))"
      by (simp only: unat_of_nat take_bit_eq_mod) simp
    have "q + k \<le> q + unat (total_pages s)" and "q + unat (total_pages s) < q + k + unat n"
      using not_le k(1) by linarith+
    then have "4096 * (q + k) \<le> 4096 * (q + unat (total_pages s))"
      and "4096 * (q + unat (total_pages s)) < 4096 * (q + k) + 4096 * unat n"
      unfolding add_mult_distrib2 [of 4096 "q + k" "unat n", symmetric] by simp_all
    then have "?x \<in> block p n" unfolding block_def mem_Collect_eq x base by blast
    from pool [OF this] obtain j where j: "j < unat (total_pages s)" "page_base ?x = page_addr s j"
      by (auto simp: pool_page_def)
    then have "page_no ?x = q + j" using page_base_eq_iff [OF wf j(1)] by (simp add: q)
    moreover have "page_no ?x = q + unat (total_pages s)" by (simp only: page_no_def x) simp
    ultimately show False using j(1) by simp
  qed
  with k(2) that show thesis by blast
qed

lemma hit_byte:
  assumes wf: "alloc_wf s" and j: "j < unat (total_pages s)" and hit: "page_hits_bitmap s j"
  obtains x where "in_bitmap s x" and "page_base x = page_addr s j"
proof -
  have len: "0 < bitmap_len s" using j by (simp add: bitmap_len_def)
  define x where "x = (if unat (bitmap s) \<le> unat (page_addr s j) then page_addr s j else bitmap s)"
  have x: "in_bitmap s x" "unat (page_addr s j) \<le> unat x" "unat x < unat (page_addr s j) + 4096"
    using hit len by (auto simp: x_def in_bitmap_def page_hits_bitmap_def)
  have "page_aligned (page_addr s j)" by (rule page_addr_aligned [OF wf j])
  moreover from this x(2,3) have "page_no x = page_no (page_addr s j)"
    by (auto simp: page_no_def page_aligned_dvd elim!: dvdE)
  ultimately have "page_base x = page_addr s j" by (rule page_base_no)
  with x(1) that show thesis by blast
qed

lemma page_free_keeps:
  assumes inv: "vm_inv s root" and p: "page_aligned p" and n: "n \<noteq> 0"
    and held: "\<And>x. x \<in> block p n \<Longrightarrow> protected s root x \<and> pool_page s (page_base x)"
  defines "s' \<equiv> page_free p n s"
  shows "extends s s' root"
    and "x \<notin> block p n \<Longrightarrow> protected s root x \<Longrightarrow> protected s' root x \<and> mem s' x = mem s x"
proof -
  note src = vm_inv_source [OF inv]
  have wf: "alloc_wf s" and base: "mem_base s \<noteq> 0" using src by (simp_all add: source_inv_def)
  obtain k where k: "p = page_addr s k" "k + unat n \<le> unat (total_pages s)"
    by (rule held_block_pages [OF wf p n]) (use held in blast)
  have "0 < unat n" using n by (simp add: unat_gt_0)
  then have kl: "k < unat (total_pages s)" using k(2) by linarith
  have up: "unat p = unat (mem_base s) + 4096 * k" using unat_page_addr [OF wf kl] by (simp add: k(1))
  have "0 < unat (mem_base s)" using base by (simp add: unat_gt_0)
  then have "unat p \<noteq> 0" using up by linarith
  then have p0: "p \<noteq> 0" by auto
  have pool: "in_pool s p 1" using kl by (simp add: in_pool_def up)
  have idx: "unat (page_index p (mem_base s)) = k"
    using in_pool_index(1) [OF wf pool] by (simp add: up)
  have sum: "unat (page_index p (mem_base s)) + unat n < 2 ^ 64"
    using k(2) wf by (simp add: idx alloc_wf_def)
  note eff = page_free_effect [OF wf p0 pool sum, folded s'_def, unfolded idx]
  have fr: "mem_base s' = mem_base s" "bitmap s' = bitmap s" "total_pages s' = total_pages s"
    by (simp_all add: s'_def)
  have bm: "in_bitmap s' = in_bitmap s" by (rule in_bitmap_cong) (simp_all add: fr)
  have addr: "page_addr s' = page_addr s" by (rule page_addr_cong) (simp add: fr)
  have away: "\<not> (k \<le> j \<and> j < k + unat n)"
    if "page_base x = page_addr s j" "x \<notin> block p n" for j x
    using that block_iff [OF wf k(2) n] k(1) by auto
  have "page_used s' j" if j: "j < unat (total_pages s)" "page_hits_bitmap s j" for j
  proof -
    obtain x where x: "in_bitmap s x" "page_base x = page_addr s j"
      by (rule hit_byte [OF wf j])
    then have "x \<notin> block p n" using held by (auto simp: protected_def)
    then show ?thesis using src j away [OF x(2)] by (auto simp: eff source_inv_def bitmap_safe_iff)
  qed
  then have src': "source_inv s'"
    using src alloc_wf_cong [OF fr(1,3,2)] page_hits_cong [OF fr]
    by (auto simp: source_inv_def bitmap_safe_iff fr)
  have use: "ps.usable s' t" if t: "vpath 3 idx9 q" "table_at (mem s) root q = Some t" for q t
  proof -
    have u: "ps.usable s t" by (rule vm_inv_usable [OF inv t])
    then obtain j where j: "page_used s j" "t = page_addr s j"
      by (auto simp: ps.usable_def page_owned_def)
    have tb: "page_base t = t" by (rule page_base_no [OF usable_aligned [OF u] refl])
    have "t \<notin> block p n" using held [of t] t by (auto simp: protected_def unlinked_def tb)
    moreover have "page_base t = page_addr s j" using tb j(2) by simp
    ultimately have "page_used s' j" using away j(1) by (simp add: eff)
    then show ?thesis using u j(2) by (auto simp: ps.usable_def page_owned_def bm addr)
  qed
  have bytes: "same_tables s s' root"
    using vm_inv_usable [OF inv] eff(2) by (auto simp: same_tables_def ps.usable_def)
  have "tables_usable s s' root" using use by (simp add: tables_usable_def)
  note ext = extends_tables [OF inv src' fr(1,3) this bytes]
  show "extends s s' root" by (rule ext)
  show "protected s' root x \<and> mem s' x = mem s x" if x: "x \<notin> block p n" "protected s root x"
  proof -
    have "\<not> free_page s' (page_base x)"
      using x(2) away [OF _ x(1)] by (auto simp: protected_def free_page_def fr addr eff)
    then show ?thesis
      using x(2) ext(2) eff(2) by (auto simp: protected_def bm unlinked_def)
  qed
qed

section \<open>What storing does\<close>

lemma store_keeps:
  fixes b :: u8
  assumes inv: "vm_inv s root" and x: "protected s root x"
  defines "s' \<equiv> s\<lparr>mem := (mem s)(x := b)\<rparr>"
  shows "extends s s' root" and "protected s root y \<Longrightarrow> protected s' root y"
proof -
  note src = vm_inv_source [OF inv]
  have bit: "\<not> in_bitmap s x" using x by (simp add: protected_def)
  have keep: "source_inv s'" "page_owned s' q = page_owned s q" for q
    unfolding s'_def using bit by (intro upd_keeps_source [OF src]; auto)+
  have used: "page_used s' = page_used s"
    unfolding s'_def by (rule page_used_cong) (use src bit in \<open>auto simp: source_inv_def\<close>)
  have fr: "mem_base s' = mem_base s" "bitmap s' = bitmap s" "total_pages s' = total_pages s"
    by (simp_all add: s'_def)
  have bm: "in_bitmap s' = in_bitmap s" by (rule in_bitmap_cong) (simp_all add: fr)
  have "page_no x \<noteq> page_no t" if "vpath 3 idx9 q" "table_at (mem s) root q = Some t" for q t
    using x page_base_no [OF usable_aligned [OF vm_inv_usable [OF inv that]], of x] that
    by (auto simp: protected_def unlinked_def)
  then have bytes: "same_tables s s' root" by (auto simp: same_tables_def s'_def)
  have use: "ps.usable s' t" if "ps.usable s t" for t
    using that by (simp add: ps.usable_def keep(2) bm)
  note vm = extends_frame [OF inv keep(1) fr(1,3) use bytes]
  show "extends s s' root" by (rule vm)
  show "protected s' root y" if "protected s root y"
    using that vm(2)
    by (auto simp: protected_def bm free_page_def used fr page_addr_cong [OF fr(1)] unlinked_def)
qed

section \<open>What mapping does\<close>

lemma map_page_keeps:
  assumes inv: "vm_inv s root" and run: "map_page root va pa perms s = (ok, s')"
    and pa: "unat pa < 2 ^ 48"
  shows "vm_inv s' root"
    and "translate (mem s') root vb =
      (if ok \<and> vpn vb = vpn va then Some (pa + (vb AND 0xFFF)) else translate (mem s) root vb)"
    and "protected s root x \<Longrightarrow> protected s' root x \<and> mem s' x = mem s x"
    and "pool_page s' = pool_page s"
proof -
  show "protected s root x \<Longrightarrow> protected s' root x \<and> mem s' x = mem s x"
    using map_page_protected [OF inv, of x va pa perms] by (simp add: run)
  show "pool_page s' = pool_page s"
    using map_page_wiring [OF run] by (auto simp: pool_page_def page_addr_def fun_eq_iff)
  show "vm_inv s' root"
    and "translate (mem s') root vb =
      (if ok \<and> vpn vb = vpn va then Some (pa + (vb AND 0xFFF)) else translate (mem s) root vb)"
  proof (atomize (full), cases ok)
    case True
    then have run': "map_page root va pa perms s = (True, s')" using run by simp
    obtain s1 t where r: "extends s s1 root" "table_at (mem s1) root (va_path va) = Some t"
      "s' = write_leaf (entry_addr t (level_idx 12 va)) pa perms s1" "page_aligned pa"
      by (rule map_page_success [OF inv run'])
    have "vm_inv s' root" unfolding r(3) by (rule write_leaf_spec(1) [OF extends_inv [OF r(1)] r(2)])
    moreover have "translate (mem s') root vb = Some (pa + (vb AND 0xFFF))" if "vpn vb = vpn va"
      using leaf_after_map [OF inv run', of vb] that r(4) pa
      by (intro translate_page_desc) simp_all
    moreover have "translate (mem s') root vb = translate (mem s) root vb" if "vpn vb \<noteq> vpn va"
      using leaf_after_map [OF inv run', of vb] that by (simp add: translate_def)
    ultimately show "vm_inv s' root \<and> translate (mem s') root vb =
        (if ok \<and> vpn vb = vpn va then Some (pa + (vb AND 0xFFF)) else translate (mem s) root vb)"
      using True by simp
  next
    case False
    obtain t s1 where d: "descend3 root va s = (t, s1)" by (cases "descend3 root va s")
    have "extends s s' root"
      using descend3_spec(1) [OF inv d] run False d inv
      by (auto simp: map_page_descend3 extends_refl split: if_splits)
    then show "vm_inv s' root \<and> translate (mem s') root vb =
        (if ok \<and> vpn vb = vpn va then Some (pa + (vb AND 0xFFF)) else translate (mem s) root vb)"
      using False extends_inv extends_translate by simp
  qed
qed

section \<open>The simulation\<close>

lemma simulates_extends:
  assumes sim: "simulates root others m0 s c" and ext: "extends s s' root"
    and keep: "\<And>x. x \<in> held c \<union> others \<Longrightarrow> protected s' root x \<and> mem s' x = mem s x"
    and pool: "pool_page s' = pool_page s"
  shows "simulates root others m0 s' c"
  using sim keep extends_inv [OF ext] extends_translate [OF ext]
  by (simp add: simulates_def pool)

lemma pool_page_cong:
  "mem_base s' = mem_base s \<Longrightarrow> total_pages s' = total_pages s \<Longrightarrow> pool_page s' = pool_page s"
  by (rule ext) (simp add: pool_page_def page_addr_cong [of s' s])

lemma client_step_simulates:
  assumes "client_step root (s, c) (s', c')" and sim: "simulates root others m0 s c"
  shows "simulates root others m0 s' c'"
proof -
  note inv = simulatesD(1) [OF sim]
  note src = vm_inv_source [OF inv]
  from assms(1) show ?thesis
  proof cases
    case (Map va pa perms ok)
    note k = map_page_keeps [OF inv Map(2,3)]
    then show ?thesis
      using sim Map(1) by (auto simp: simulates_def on_map_def)
  next
    case (Alloc n p)
    note eff = page_alloc_effect [OF src Alloc(2)]
    have pool: "pool_page s' = pool_page s" by (rule pool_page_cong) (simp_all add: eff)
    note keep = page_alloc_keeps_protected [OF inv Alloc(2)]
    have base: "simulates root others m0 s' c"
      by (rule simulates_extends [OF sim page_alloc_keeps_vm(1) [OF inv Alloc(2)] _ pool])
        (use keep simulatesD(4,7) [OF sim] in blast)
    show ?thesis
    proof (cases "p = 0")
      case True
      then show ?thesis using base Alloc(1) by (simp add: on_alloc_def)
    next
      case False
      note b = page_alloc_block [OF inv Alloc(2) False]
      have "x \<notin> block p n" if "protected s root x" for x
        using b(1) that by (auto simp: protected_def)
      then have "others \<inter> block p n = {}" using simulatesD(7) [OF sim] by auto
      then show ?thesis
        using base Alloc(1) b(2,3) False by (auto simp: simulates_def on_alloc_def)
    qed
  next
    case (Free p n)
    have held: "protected s root x \<and> pool_page s (page_base x)" if "x \<in> block p n" for x
      using that Free(5) simulatesD(4,5) [OF sim] by blast
    note keep = page_free_keeps [OF inv Free(3,4) held]
    have "x \<notin> block p n" if "x \<in> others" for x using that Free(5) simulatesD(2) [OF sim] by blast
    then show ?thesis
      using keep(2) extends_inv [OF keep(1)] extends_translate [OF keep(1)] sim
        pool_page_cong [of s' s] Free(1,2)
      by (auto simp: simulates_def on_free_def)
  next
    case (Store x b)
    note keep = store_keeps [OF inv simulatesD(4) [OF sim Store(3)], where b = b, folded Store(1)]
    have "x \<notin> others" using Store(3) simulatesD(2) [OF sim] by blast
    then show ?thesis
      using keep(2) extends_inv [OF keep(1)] extends_translate [OF keep(1)] sim
        pool_page_cong [of s' s] Store(1,2)
      by (auto simp: simulates_def on_store_def)
  next
    case (Print fmt args)
    then show ?thesis
      using sim pool_page_cong [of s' s] by (simp add: simulates_def)
  qed
qed

lemma client_run_simulates:
  assumes "client_run root sc sc'" and "simulates root others m0 (fst sc) (snd sc)"
  shows "simulates root others m0 (fst sc') (snd sc')"
  using assms
proof (induction rule: client_run.induct)
  case (Step sc sc' sc'')
  then show ?case
    using client_step_simulates [of root "fst sc'" "snd sc'" "fst sc''" "snd sc''"] by simp
qed

lemma alloc_disjoint:
  assumes sim: "simulates root others m0 s c" and run: "page_alloc n s = (p, s')" and nz: "p \<noteq> 0"
  shows "block p n \<inter> (held c \<union> others) = {}"
proof -
  have "\<not> protected s root x" if "x \<in> block p n" for x
    using page_alloc_block(1) [OF simulatesD(1) [OF sim] run nz that] by (simp add: protected_def)
  then show ?thesis using simulatesD(4,7) [OF sim] by blast
qed

section \<open>What a run guarantees\<close>

text \<open>
  C2: However many calls a client makes, and in whatever order, the kernel agrees with the client's own
  record: the hardware walk translates exactly the pages the client mapped to the frames it asked
  for last, every byte it holds has the value it stored last, the bytes of others are unchanged,
  and the next block the allocator hands out is neither part of what the client holds nor of what
  others do.
\<close>

theorem client_runs_refine:
  assumes "simulates root others m0 s c" and "client_run root (s, c) (s', c')"
  shows "(\<forall>va. translate (mem s') root va =
      map_option (\<lambda>pa. pa + (va AND 0xFFF)) (mapping c' (vpn va))) \<and>
    (\<forall>x \<in> held c'. mem s' x = content c' x) \<and> (\<forall>x \<in> others. mem s' x = m0 x) \<and>
    (\<forall>n p s''. page_alloc n s' = (p, s'') \<longrightarrow> p \<noteq> 0 \<longrightarrow> block p n \<inter> (held c' \<union> others) = {})"
proof -
  have sim: "simulates root others m0 s' c'"
    using client_run_simulates [OF assms(2)] assms(1) by simp
  show ?thesis
    using simulatesD(3,6,8) [OF sim] alloc_disjoint [OF sim] by blast
qed

definition new_client :: client where
  "new_client = \<lparr>held = {}, content = (\<lambda>_. 0), mapping = Map.empty\<rparr>"

lemma new_client_simulates:
  assumes "vm_inv s root" and "\<And>va. leaf_entry (mem s) root va = 0"
    and "\<And>x. x \<in> others \<Longrightarrow> protected s root x \<and> mem s x = m0 x"
  shows "simulates root others m0 s new_client"
  using assms by (simp add: simulates_def new_client_def translate_def is_table_def)

text \<open>A client that maps a page and takes one.\<close>

lemma demo_client_run:
  "client_run demo_root (demo_vm, new_client)
     (snd (page_alloc 1 demo_mapped),
      on_alloc (fst (page_alloc 1 demo_mapped)) 1 (mem (snd (page_alloc 1 demo_mapped)))
        (on_map True 0x1000 0x7000 new_client))"
  by (rule client_run.Step [OF client_run.Step [OF client_run.Done Map [OF demo_mapped_run]] Alloc])
    simp_all

theorem client_runs_refine_witness:
  "translate (mem (snd (page_alloc 1 demo_mapped))) demo_root 0x1004 = Some 0x7004 \<and>
   translate (mem (snd (page_alloc 1 demo_mapped))) demo_root 0x2004 = None"
proof -
  have "simulates demo_root {} (\<lambda>_. 0) demo_vm new_client"
    by (rule new_client_simulates [OF demo_vm_inv demo_vm_empty]) simp
  from conjunct1 [OF client_runs_refine [OF this demo_client_run]] show ?thesis
    by (simp add: on_alloc_def on_map_def new_client_def vpn_def)
qed

text \<open>
  C3: After boot the kernel image is such a set of others: whatever a client does in an address space
  made after boot, no byte of the image outside the bitmap changes, and what the client mapped and
  stored is there.
\<close>

theorem booted_client_isolated:
  assumes "layout_ok lk base sz" and "booted lk base sz s"
    and "unat (pool_start base) + 4096 * unat (pool_pages base sz) \<le> 2 ^ 48"
    and "root_table s = (root, s1)" and "root \<noteq> 0"
    and "client_run root (s1, new_client) (s2, c)"
  shows "(\<forall>x. unat (image_start lk) \<le> unat x \<and> unat x < unat (image_end lk) \<and> \<not> in_bitmap s x \<longrightarrow>
      mem s2 x = mem s x) \<and>
    (\<forall>va. translate (mem s2) root va =
      map_option (\<lambda>pa. pa + (va AND 0xFFF)) (mapping c (vpn va))) \<and>
    (\<forall>x \<in> held c. mem s2 x = content c x)"
proof -
  let ?image = "{x. unat (image_start lk) \<le> unat x \<and> unat x < unat (image_end lk) \<and> \<not> in_bitmap s x}"
  have src: "source_inv s" and init: "pool_initialised lk base sz s"
    using assms(2) by (simp_all add: booted_def)
  have low: "unat (mem_base s) + 4096 * unat (total_pages s) \<le> 2 ^ 48"
    using assms(3) init by (simp add: pool_initialised_def)
  have "protected s1 root x \<and> mem s1 x = mem s x" if "x \<in> ?image" for x
    using new_root_protected [OF src assms(4,5), of x] free_page_address(3) [OF assms(2), of x] that
    by blast
  then have "simulates root ?image (mem s) s1 new_client"
    using new_root(1,2) [OF src low assms(4,5)] by (intro new_client_simulates) simp_all
  then have sim: "simulates root ?image (mem s) s2 c"
    using client_run_simulates [OF assms(6)] by simp
  then show ?thesis using simulatesD(3,6,8) [OF sim] by blast
qed

theorem booted_client_isolated_witness:
  "\<exists>s root s1. booted demo_linker 0x40000000 0x8000000 s \<and> root_table s = (root, s1) \<and> root \<noteq> 0 \<and>
    mem (snd (map_page root 0x1000 0x7000 demo_perms s1)) 0x40000010 = mem s 0x40000010"
proof -
  obtain s where s: "booted demo_linker 0x40000000 0x8000000 s" by (rule demo_booted)
  obtain root s1 where run: "root_table s = (root, s1)" by (cases "root_table s")
  then have nz: "root \<noteq> 0" using demo_booted_root [OF s] by simp
  have bm: "\<not> in_bitmap s 0x40000010"
    using s by (simp add: booted_def pool_initialised_def in_bitmap_def demo_linker_def)
  have low: "unat (pool_start 0x40000000) + 4096 * unat (pool_pages 0x40000000 0x8000000) \<le> 2 ^ 48"
    by (simp add: pool_start_def pool_pages_def PAGE_SIZE_def)
  obtain ok s2 where m: "map_page root 0x1000 0x7000 demo_perms s1 = (ok, s2)"
    by (cases "map_page root 0x1000 0x7000 demo_perms s1")
  have "client_run root (s1, new_client) (s2, on_map ok 0x1000 0x7000 new_client)"
    by (rule client_run.Step [OF client_run.Done Map [OF m]]) simp
  from conjunct1 [OF booted_client_isolated [OF demo_layout s low run nz this]]
  have "mem s2 0x40000010 = mem s 0x40000010" using bm by (simp add: demo_linker_def)
  then show ?thesis using s run nz m by auto
qed

end
