(* ===== verification/Spec2Isabelle.thy ===== *)
theory Spec2Isabelle
  imports Relocation Undefined CStringTheorems RegisterTheorems TestBoot ClientRuns
begin

text \<open>
  A model of the AArch64 kernel in \<^verbatim>\<open>src/src\<close>, of its in-kernel tests in \<^verbatim>\<open>src/tests\<close> and of
  the register decoder in \<^verbatim>\<open>src/tools/register_decoder\<close>. Paths below are relative to
  \<^verbatim>\<open>src/src\<close> unless they say otherwise.

  \<^bold>\<open>The program.\<close> The boot loader enters \<^verbatim>\<open>boot/boot.s\<close>, which saves its registers, sets up the
  control register, clears the BSS and calls \<open>main\<close> (\<^verbatim>\<open>kernel/main.c\<close>). \<open>main\<close> connects the
  console (\<^verbatim>\<open>kernel/utils/kprintf.c\<close>) to the UART (\<^verbatim>\<open>kernel/drivers/uart.c\<close>), finds the memory
  in the device tree (\<^verbatim>\<open>kernel/fdt/fdt.c\<close>, on top of libfdt), hands the one region it accepts to
  the page allocator (\<^verbatim>\<open>kernel/allocator/page_allocator.c\<close>), reserves the kernel image there,
  prints the state of the pool and returns, or runs the in-kernel tests if they are built in; \<open>exit\<close> (\<^verbatim>\<open>kernel/exit/exit.c\<close>) stops the machine.
  The page tables (\<^verbatim>\<open>kernel/page_table/page_table.c\<close>) are built from pages of the allocator; in
  this version only the in-kernel tests use them. Failures before the console works go through
  \<^verbatim>\<open>kernel/error/panic.c\<close>, exceptions through \<^verbatim>\<open>kernel/exception_handling/vector.s\<close> to
  \<^verbatim>\<open>handler.c\<close> beside it. The string
  functions (\<^verbatim>\<open>kernel/utils/string.c\<close>) serve libfdt.

  \<^bold>\<open>State.\<close> Memory is one map from 64-bit addresses to bytes (\<open>Memory\<close>), so that the allocation
  bitmap, the page tables, the device tree and every buffer can alias. The record \<open>kernel\<close>
  (\<open>Console\<close>) holds this memory, the static variables of the allocator and the console, the log of
  writes to device registers, and a list of faults, which names the undefined behaviour of the
  console a run met (a missing or mismatched variadic argument, a null function pointer, a format
  read past its end, an overflow of the arithmetic of \<open>vprintf\<close>, whose counter is a 32-bit \<^verbatim>\<open>int\<close>).
  Loads and stores are total and never faults: a run without faults may still access a null pointer
  or overrun a buffer, which the theorems about the components exclude where they do.
  C integers are machine words of their width; a C \<^verbatim>\<open>int\<close> that only libfdt or the host produces is
  an \<open>int\<close>. Pointers are addresses, null is 0. A loop that need not end is a
  \<open>partial_function (option)\<close>, \<open>None\<close> being divergence; no fuel is used anywhere.

  \<^bold>\<open>Theories.\<close> Each component has a theory with its definitions in the order of the code, and theories
  with its lemmas and theorems.
  \<^item> \<open>Prelude\<close>, \<open>Memory\<close>: words, the C for-loop over an unsigned index (\<open>for_words\<close>, total because
    the guard keeps the index from wrapping), loads and stores, page geometry.
  \<^item> \<open>Console\<close>: \<^verbatim>\<open>uart.c\<close> (sending), \<^verbatim>\<open>kprintf.c\<close>. \<open>ConsoleProps\<close>: printing touches only the
    device log, the faults and the junk of unfilled argument slots (locale \<open>console_blind\<close>,
    interpreted as \<open>core\<close>); \<open>itoa\<close> writes the positional numeral and fits its buffer; \<open>kprintf\<close>
    refines the pure function \<open>render\<close>.
  \<^item> \<open>PageAllocator\<close>: \<^verbatim>\<open>page_allocator.c\<close>. \<open>BitmapProps\<close>, \<open>AllocatorProps\<close>: bits and the search
    loop against first fit. \<open>AllocatorContract\<close>: the locale of a source of pages and its
    interpretation \<open>ps\<close> on the allocator; the client's invariant \<open>source_inv\<close>.
    \<open>AllocatorTheorems\<close>: allocation, release, reservation, initialisation, and the corners where
    the arithmetic wraps. \<open>DumpProps\<close>: the status dump prints the maximal runs.
  \<^item> \<open>PageTable\<close>: \<^verbatim>\<open>page_table.h\<close> and \<^verbatim>\<open>page_table.c\<close>. \<open>PteProps\<close>: bit-fields. \<open>TableTree\<close>: the
    locale \<open>table_store\<close> with the laws of a tree of tables, interpreted as \<open>pt\<close> on the byte memory
    in \<open>PageTableProps\<close>, which also has the hardware walk (\<open>translate\<close>). \<open>VmInvariant\<close>: the
    invariant \<open>vm_inv\<close> (the tables are distinct pages owned by the kernel, linked as a tree, below
    \<open>2 ^ 48\<close>). \<open>MapSteps\<close>, \<open>MapPage\<close>: each step of \<open>map_page\<close> extends the tree.
    \<open>PagingTheorems\<close>: what a mapping does to every translation and every byte, when it succeeds,
    what the descriptor says. \<open>DumpTree\<close>: the dump prints one line for each mapped page, in order;
    the recursion over tables is first a text, then a list over all \<open>2 ^ 36\<close> pages.
  \<^item> \<open>Fdt\<close>: \<^verbatim>\<open>fdt.c\<close> over the record \<open>libfdt\<close>, the interface of the library. \<open>FdtProps\<close>,
    \<open>FdtTheorems\<close>: the regions found, their cells read in base \<open>2 ^ 32\<close>, bounds whatever the library answers, termination when node
    offsets grow as documented.
  \<^item> \<open>Boot\<close>: \<^verbatim>\<open>main.c\<close>, whose two builds share \<open>memory_setup\<close>. \<open>BootProps\<close>, \<open>BootTheorems\<close>: the
    state after boot, and that nothing allocated or mapped later touches the image.
  \<^item> \<open>Undefined\<close>: which undefined variadic reads a run makes: those of a \<open>kprintf\<close> as a function of
    its format and arguments, and six in a boot.
  \<^item> \<open>ClientRuns\<close>: the kernel in use. A step relation of a client that maps, allocates, frees and
    stores, with the client's own record of what it holds and mapped as the abstract state; the
    relation \<open>simulates\<close> is kept by every step, so kernel and record agree after any run.
  \<^item> \<open>Panic\<close>, \<open>PanicTheorems\<close>: \<^verbatim>\<open>panic.c\<close>, \<^verbatim>\<open>error_strings.c\<close>. \<open>Platform\<close>: receiving from the
    UART, \<^verbatim>\<open>exit.c\<close>, \<^verbatim>\<open>handler.c\<close>. \<open>Vectors\<close>: \<^verbatim>\<open>vector.s\<close>, with the few instructions it
    consists of as a datatype executed over registers and memory: the register frame, and that
    every exception ends in the report.
  \<^item> \<open>Cache\<close>: \<open>dcache_inval_poc\<close> of \<^verbatim>\<open>boot/boot.s\<close> as the list of its operations, and their effect
    on a write-back cache. \<open>Startup\<close>, \<open>StartupTheorems\<close>: the rest of \<^verbatim>\<open>boot.s\<close>: the control register
    in the layout of the register decoder, the BSS, whether the boot arguments reach \<open>main\<close>, and
    the panic at the wrong exception level. \<open>Layout\<close>: \<^verbatim>\<open>src/scripts/linker.ld\<close>, the location
    counter over the output sections; every image it makes satisfies what the boot theorems ask of
    the linker symbols, in memories up to the size of the bitmap. \<open>Relocation\<close>: the same image run
    elsewhere, as its header allows: it boots, but its stack is in free pages.
  \<^item> \<open>CString\<close>, \<open>CStringProps\<close>, \<open>CStringTheorems\<close>: \<^verbatim>\<open>string.c\<close>: overlap, comparison, scans, and
    \<open>strtoul\<close> as the inverse of \<open>itoa\<close>.
  \<^item> \<open>TestSuite\<close>: \<^verbatim>\<open>src/tests\<close>: what the oracle decides, and that the suite passes. \<open>TestBoot\<close>: the
    build with \<^verbatim>\<open>RUN_TESTS\<close>, from the device tree to the exit code.
  \<^item> \<open>RegisterDecoder\<close>, \<open>RegisterTool\<close>, \<open>RegisterTheorems\<close>: \<^verbatim>\<open>src/tools/register_decoder\<close>: the two
    register unions under the bit-field rules of the C ABI, the printers, the command line and the
    interactive mode.

  \<^bold>\<open>Stack frames.\<close> The stack is in the memory of the kernel. Where a theorem speaks of all of memory
  across a call of C code from assembly (the panic at the wrong exception level, the exception
  stub), what the compiled code leaves below the stack pointer is a parameter of the definitions,
  an arbitrary function that changes at most \<open>n\<close> bytes there (\<open>frames_within\<close>). The frames of \<open>main\<close>
  and of what it calls, which lie in the stack the linker script reserves in the image, are not
  modelled.

  \<^bold>\<open>Parameters.\<close> The symbols of the linker script (\<open>linker\<close>, \<open>symbols\<close>; in \<open>Layout\<close> they
  are computed from the lengths and alignments of the input sections), the functions of libfdt,
  the device registers that are read (\<open>device\<close>), the system registers, the stack frames of compiled
  code (\<open>stack_use\<close>), and the content of argument slots and stack variables nobody wrote. Hypotheses on them: \<open>layout_ok\<close> (the image lies in the
  region as \<^verbatim>\<open>src/scripts/linker.ld\<close> lays it out; proved of linked images as
  \<open>linked_layout_ok\<close>), \<open>fdt_describes\<close> (what libfdt documents for a
  blob with well-formed memory nodes). \<open>demo_linker\<close>, \<open>demo_lib\<close> and the other \<open>demo\<close> constants show
  that they can hold.

  \<^bold>\<open>Where the code does not do what it means to.\<close> The theorems state the behaviour as it is. The
  main cases: the permissions of a mapping land in bits a page descriptor does not use
  (\<open>map_page_permissions_unused\<close>); physical addresses are truncated silently
  (\<open>map_page_truncates_address\<close>); the range checks of \<open>reserve_page\<close> and \<open>page_free\<close> wrap around;
  the BSS is cleared after the boot arguments were saved in it (\<open>linked_boot_args_erased\<close>),
  and where that does not matter the stack is not reserved (\<open>relocated_stack_unprotected\<close>); \<^verbatim>\<open>%lu\<close>
  prints hexadecimal, \<^verbatim>\<open>%zu\<close> nothing useful, \<^verbatim>\<open>%d\<close> reads 64 bits and \<^verbatim>\<open>%p\<close> a pointer as an integer
  (\<open>boot_faults\<close>); a page without read permission is not writable at EL1 either, whatever the comment
  says (\<open>map_page_permissions\<close>).

  \<^bold>\<open>Not modelled.\<close> Every function of the C files and all code of the assembly files has a
  definition, but for what nothing uses (the macro \<^verbatim>\<open>debug_print_reg\<close>). Left out are: libfdt (a
  submodule without source here); the barriers of \<^verbatim>\<open>boot.s\<close>, which
  order nothing in a sequential model; the stack frames of C functions but for the two calls named
  above; the timing of devices, the
  TLB and other cores. The memory is the one behind the cache, which the code runs without; the
  cache itself is only the subject of \<open>Cache\<close>.
\<close>

end
